(* ===== verification/Prelude.thy ===== *)
theory Prelude
  imports Main "HOL-Library.Word" "HOL-Library.Monad_Syntax"
begin

text \<open>
  Types, constants and generic lemmas the components share: the machine integers of the LP64 and
  i386 ABIs, the \<open>errno\<close> values the code returns, facts about the option monad and about
  word arithmetic that does not wrap.
\<close>

unbundle bit_operations_syntax

section \<open>Machine integers\<close>

type_synonym u8 = "8 word"
type_synonym u16 = "16 word"
type_synonym u32 = "32 word"
type_synonym u64 = "64 word"

definition ENOENT :: u64 where "ENOENT = 2"
definition ENOMEM :: u64 where "ENOMEM = 12"
definition EINVAL :: u64 where "EINVAL = 22"

section \<open>Lemma collections\<close>

text \<open>
  \<open>mem_simps\<close> decides what a load reads after stores; \<open>bind_simps\<close> runs and inverts
  computations of the option monad.
\<close>

named_theorems mem_simps "loads after stores"
named_theorems bind_simps "computations of the option monad"

lemmas [bind_simps] = bind_eq_Some_conv Option.bind_eq_None_conv

lemma if_Some_eq [bind_simps]: "(if b then Some x else None) = Some y \<longleftrightarrow> b \<and> x = y"
  by auto

lemma Some_eq_if [bind_simps]: "(if b then None else x) = Some y \<longleftrightarrow> \<not> b \<and> x = Some y"
  by auto

text \<open>What holds of every result a computation can return, read off its shape.\<close>

lemma pred_option_bind: "(\<And>x. pred_option P (f x)) \<Longrightarrow> pred_option P (a \<bind> f)"
  by (cases a) simp_all

lemma pred_option_if: "(b \<Longrightarrow> pred_option P x) \<Longrightarrow> (\<not> b \<Longrightarrow> pred_option P y) \<Longrightarrow> pred_option P (if b then x else y)"
  by simp

section \<open>Word arithmetic below the wrap-around\<close>

lemma unat_add_no_wrap:
  "unat a + unat b < 2 ^ LENGTH('a) \<Longrightarrow> unat (a + b) = unat a + unat (b :: 'a::len word)"
  by (simp add: unat_word_ariths take_bit_eq_mod)

lemma unat_mult_no_wrap:
  "unat a * unat b < 2 ^ LENGTH('a) \<Longrightarrow> unat (a * b) = unat a * unat (b :: 'a::len word)"
  by (simp add: unat_word_ariths take_bit_eq_mod)

lemma unat_sub_no_wrap:
  "unat b \<le> unat a \<Longrightarrow> unat (a - b) = unat a - unat (b :: 'a::len word)"
  by (simp add: unat_sub word_le_nat_alt)

lemma unat_of_nat_less:
  "n < 2 ^ LENGTH('a) \<Longrightarrow> unat (of_nat n :: 'a::len word) = n"
  by (simp add: unat_of_nat take_bit_eq_mod)

lemma unat_exp: "k < LENGTH('a) \<Longrightarrow> unat (2 ^ k :: 'a::len word) = 2 ^ k"
  by (metis of_nat_numeral of_nat_power one_less_numeral_iff power_strict_increasing_iff
    semiring_norm(76) unat_of_nat_less)

lemma of_nat_word_inject:
  "i < 2 ^ LENGTH('a) \<Longrightarrow> j < 2 ^ LENGTH('a) \<Longrightarrow>
   (of_nat i :: 'a::len word) = of_nat j \<longleftrightarrow> i = j"
  by (metis unat_of_nat_less)

section \<open>Lists\<close>

lemma map_remove1_inj:
  "inj_on f (insert x (set xs)) \<Longrightarrow> map f (remove1 x xs) = remove1 (f x) (map f xs)"
  by (induction xs) (auto simp: inj_on_def)

lemma sum_list_map_update:
  fixes f :: "'a \<Rightarrow> nat"
  shows "i < length xs \<Longrightarrow> sum_list (map f (xs[i := x])) + f (xs ! i) = sum_list (map f xs) + f x"
proof (induction xs arbitrary: i)
  case (Cons y ys)
  then show ?case by (cases i) auto
qed simp

end
