(* ===== verification/C_Memory.thy ===== *)
theory C_Memory
  imports Prelude
begin

text \<open>
  The memory of a C process: a partial map from addresses to bytes, \<open>None\<close> where nothing is
  mapped. A load or store that touches an unmapped byte is a fault, the value \<open>None\<close> of the
  option monad. Integers are stored little-endian, as the x86 targets of the repository do.
  The address width is a type variable: 64 for the heap pool, 32 for the ELF readers.
\<close>

section \<open>Bytes\<close>

type_synonym byte = "8 word"
type_synonym 'a memory = "'a word \<Rightarrow> byte option"

fun le_bytes :: "nat \<Rightarrow> 'w::len word \<Rightarrow> byte list" where
  "le_bytes 0 w = []"
| "le_bytes (Suc n) w = ucast w # le_bytes n (drop_bit 8 w)"

fun of_le :: "byte list \<Rightarrow> 'w::len word" where
  "of_le [] = 0"
| "of_le (b # bs) = ucast b OR push_bit 8 (of_le bs)"

fun load_bytes :: "'a::len memory \<Rightarrow> 'a word \<Rightarrow> nat \<Rightarrow> byte list option" where
  "load_bytes m a 0 = Some []"
| "load_bytes m a (Suc n) =
     do { b \<leftarrow> m a; bs \<leftarrow> load_bytes m (a + 1) n; Some (b # bs) }"

fun put_bytes :: "'a::len memory \<Rightarrow> 'a word \<Rightarrow> byte list \<Rightarrow> 'a memory" where
  "put_bytes m a [] = m"
| "put_bytes m a (b # bs) = put_bytes (m(a \<mapsto> b)) (a + 1) bs"

definition mapped :: "'a::len memory \<Rightarrow> 'a word \<Rightarrow> nat \<Rightarrow> bool" where
  "mapped m a n \<longleftrightarrow> (\<forall>i<n. m (a + of_nat i) \<noteq> None)"

definition store_bytes :: "'a::len memory \<Rightarrow> 'a word \<Rightarrow> byte list \<Rightarrow> 'a memory option" where
  "store_bytes m a bs = (if mapped m a (length bs) then Some (put_bytes m a bs) else None)"

definition disjoint :: "'a::len word \<Rightarrow> nat \<Rightarrow> 'a word \<Rightarrow> nat \<Rightarrow> bool" where
  "disjoint a n b k \<longleftrightarrow> (\<forall>i<n. \<forall>j<k. a + of_nat i \<noteq> b + of_nat j)"

lemma length_le_bytes [simp]: "length (le_bytes n w) = n"
  by (induction n arbitrary: w) auto

lemma of_le_le_bytes: "of_le (le_bytes n w) = take_bit (8 * n) (w :: 'w::len word)"
proof (induction n arbitrary: w)
  case 0
  then show ?case by simp
next
  case (Suc n)
  show ?case
    by (rule bit_word_eqI)
      (auto simp: Suc bit_or_iff bit_push_bit_iff bit_take_bit_iff bit_drop_bit_eq bit_ucast_iff
        dest: bit_imp_le_length)
qed

lemma of_nat_Suc_shift: "a + 1 + of_nat i = a + (of_nat (Suc i) :: 'a::len word)"
  by simp

lemma all_less_Suc_shift:
  "(\<forall>i<Suc n. P (a + (of_nat i :: 'a::len word))) \<longleftrightarrow> P a \<and> (\<forall>i<n. P (a + 1 + of_nat i))"
  by (auto simp: less_Suc_eq_0_disj add.assoc)

lemma mapped_0 [simp]: "mapped m a 0"
  by (simp add: mapped_def)

lemma mapped_Suc [simp]: "mapped m a (Suc n) \<longleftrightarrow> m a \<noteq> None \<and> mapped m (a + 1) n"
  unfolding mapped_def by (rule all_less_Suc_shift)

lemma load_bytes_cong:
  "(\<And>i. i < n \<Longrightarrow> m (a + of_nat i) = m' (a + of_nat i)) \<Longrightarrow> load_bytes m a n = load_bytes m' a n"
proof (induction n arbitrary: a)
  case 0
  then show ?case by simp
next
  case (Suc n)
  have "load_bytes m (a + 1) n = load_bytes m' (a + 1) n"
    using Suc.prems by (intro Suc.IH) (metis Suc_mono add.assoc of_nat_Suc)
  moreover have "m a = m' a"
    using Suc.prems [of 0] by simp
  ultimately show ?case by simp
qed

lemma put_bytes_outside:
  "(\<And>i. i < length bs \<Longrightarrow> x \<noteq> a + of_nat i) \<Longrightarrow> put_bytes m a bs x = m x"
proof (induction bs arbitrary: m a)
  case Nil
  then show ?case by simp
next
  case (Cons b bs)
  have "put_bytes (m(a \<mapsto> b)) (a + 1) bs x = (m(a \<mapsto> b)) x"
    using Cons.prems by (intro Cons.IH) (metis Suc_mono add.assoc length_Cons of_nat_Suc)
  moreover have "x \<noteq> a"
    using Cons.prems [of 0] by simp
  ultimately show ?case by simp
qed

lemma put_bytes_inside:
  fixes a :: "'a::len word"
  assumes "i < length bs" "length bs \<le> 2 ^ LENGTH('a)"
  shows "put_bytes m a bs (a + of_nat i) = Some (bs ! i)"
  using assms
proof (induction bs arbitrary: m a i)
  case Nil
  then show ?case by simp
next
  case (Cons b bs)
  show ?case
  proof (cases i)
    case 0
    have ne: "a \<noteq> (a + 1) + of_nat j" if "j < length bs" for j
    proof
      assume "a = (a + 1) + of_nat j"
      then have "(of_nat (Suc j) :: 'a word) = 0" by (simp add: add.assoc)
      then have "2 ^ LENGTH('a) dvd Suc j"
        by (simp only: word_of_nat_eq_0_iff)
      then show False
        using that Cons.prems(2) by (auto dest!: dvd_imp_le)
    qed
    show ?thesis
      using 0 by (simp add: put_bytes_outside [OF ne])
  next
    case (Suc j)
    have "put_bytes (m(a \<mapsto> b)) (a + 1) bs (a + 1 + of_nat j) = Some (bs ! j)"
      using Suc Cons.prems by (intro Cons.IH) simp_all
    then show ?thesis
      by (simp only: Suc of_nat_Suc_shift put_bytes.simps nth_Cons_Suc)
  qed
qed

lemma load_bytes_iff:
  "load_bytes m a n = Some bs \<longleftrightarrow> length bs = n \<and> (\<forall>i<n. m (a + of_nat i) = Some (bs ! i))"
proof (induction n arbitrary: a bs)
  case 0
  then show ?case by auto
next
  case (Suc n)
  show ?case
  proof (cases bs)
    case Nil
    then show ?thesis by (auto simp: bind_eq_Some_conv)
  next
    case (Cons b bs')
    have "load_bytes m a (Suc n) = Some bs \<longleftrightarrow> m a = Some b \<and> load_bytes m (a + 1) n = Some bs'"
      by (auto simp: Cons bind_eq_Some_conv)
    also have "\<dots> \<longleftrightarrow> length bs = Suc n \<and> (\<forall>i<Suc n. m (a + of_nat i) = Some (bs ! i))"
      by (auto simp: Suc Cons less_Suc_eq_0_disj add.assoc)
    finally show ?thesis .
  qed
qed

lemma load_put_same:
  fixes a :: "'a::len word"
  shows "length bs \<le> 2 ^ LENGTH('a) \<Longrightarrow> load_bytes (put_bytes m a bs) a (length bs) = Some bs"
  by (simp add: load_bytes_iff put_bytes_inside)

lemma load_put_disj:
  "disjoint a (length bs) b k \<Longrightarrow> load_bytes (put_bytes m a bs) b k = load_bytes m b k"
  by (rule load_bytes_cong) (rule put_bytes_outside, auto simp: disjoint_def dest: not_sym)

lemma dom_put_bytes: "mapped m a (length bs) \<Longrightarrow> dom (put_bytes m a bs) = dom m"
proof (induction bs arbitrary: m a)
  case Nil
  then show ?case by simp
next
  case (Cons b bs)
  have "mapped m (a + 1) (length bs)"
    using Cons.prems by simp
  then have "mapped (m(a \<mapsto> b)) (a + 1) (length bs)"
    by (simp add: mapped_def)
  then have "dom (put_bytes (m(a \<mapsto> b)) (a + 1) bs) = dom (m(a \<mapsto> b))"
    by (rule Cons.IH)
  then have "dom (put_bytes (m(a \<mapsto> b)) (a + 1) bs) = insert a (dom m)"
    by simp
  moreover have "insert a (dom m) = dom m" using Cons.prems by auto
  ultimately show ?case by simp
qed

lemma mapped_put_bytes [mem_simps]:
  assumes "mapped m a (length bs)"
  shows "mapped (put_bytes m a bs) b n \<longleftrightarrow> mapped m b n"
  using dom_put_bytes [OF assms] unfolding mapped_def dom_def by blast

section \<open>Words\<close>

definition load64 :: "'a::len memory \<Rightarrow> 'a word \<Rightarrow> u64 option" where
  "load64 m a = map_option of_le (load_bytes m a 8)"

definition put64 :: "'a::len memory \<Rightarrow> 'a word \<Rightarrow> u64 \<Rightarrow> 'a memory" where
  "put64 m a v = put_bytes m a (le_bytes 8 v)"

definition store64 :: "'a::len memory \<Rightarrow> 'a word \<Rightarrow> u64 \<Rightarrow> 'a memory option" where
  "store64 m a v = (if mapped m a 8 then Some (put64 m a v) else None)"

lemma store64_store_bytes: "store64 m a v = store_bytes m a (le_bytes 8 v)"
  by (simp add: store64_def store_bytes_def put64_def)

lemma load64_cong:
  "(\<And>i. i < 8 \<Longrightarrow> m (a + of_nat i) = m' (a + of_nat i)) \<Longrightarrow> load64 m a = load64 m' a"
  unfolding load64_def by (subst load_bytes_cong) auto

lemma load64_put64 [mem_simps]:
  "8 \<le> (2::nat) ^ LENGTH('a) \<Longrightarrow> load64 (put64 m a v) (a :: 'a::len word) = Some v"
  using load_put_same [of "le_bytes 8 v" m a]
  by (simp add: load64_def put64_def of_le_le_bytes take_bit_word_eq_self)

lemma load64_put64_disjoint [mem_simps]:
  "disjoint a 8 b 8 \<Longrightarrow> load64 (put64 m a v) b = load64 m b"
  using load_put_disj [of a "le_bytes 8 v" b 8 m]
  by (simp add: load64_def put64_def)

lemma load64_put_bytes_disjoint [mem_simps]:
  "disjoint a (length bs) b 8 \<Longrightarrow> load64 (put_bytes m a bs) b = load64 m b"
  by (simp add: load64_def load_put_disj)

lemma mapped_put64 [mem_simps]: "mapped m a 8 \<Longrightarrow> mapped (put64 m a v) b n \<longleftrightarrow> mapped m b n"
  by (simp add: put64_def mapped_put_bytes)

lemma load_bytes_None_iff: "load_bytes m a n = None \<longleftrightarrow> \<not> mapped m a n"
  by (induction n arbitrary: a) (auto simp: bind_simps)

lemma load64_None_iff: "load64 m a = None \<longleftrightarrow> \<not> mapped m a 8"
  by (simp add: load64_def load_bytes_None_iff)

lemma load64_mapped: "load64 m a = Some v \<Longrightarrow> mapped m a 8"
  using load64_None_iff [of m a] by auto

section \<open>Ranges at offsets from one base\<close>

lemma disjoint_offsets [mem_simps]:
  fixes p :: "'a::len word"
  assumes "unat x + n \<le> unat y \<or> unat y + k \<le> unat x"
    and "unat x + n \<le> 2 ^ LENGTH('a)" "unat y + k \<le> 2 ^ LENGTH('a)"
  shows "disjoint (p + x) n (p + y) k"
  unfolding disjoint_def
proof (intro allI impI notI)
  fix i j
  assume ij: "i < n" "j < k" "p + x + of_nat i = p + y + of_nat j"
  then have "x + of_nat i = y + of_nat j" by (simp add: add.assoc)
  then have "(of_nat (unat x + i) :: 'a word) = of_nat (unat y + j)" by simp
  then have "unat x + i = unat y + j"
    using ij(1,2) assms(2,3) by (subst (asm) of_nat_word_inject) auto
  then show False using assms(1) ij(1,2) by auto
qed

lemma mapped_nat:
  fixes p :: "'a::len word"
  assumes "mapped m p n" "k + j \<le> n"
  shows "mapped m (p + of_nat k) j"
  unfolding mapped_def
proof (intro allI impI)
  fix i
  assume "i < j"
  then have "m (p + of_nat (k + i)) \<noteq> None"
    using assms by (auto simp only: mapped_def)
  then show "m (p + of_nat k + of_nat i) \<noteq> None" by (simp add: add.assoc)
qed

lemma mapped_sub: "mapped m p n \<Longrightarrow> unat x + k \<le> n \<Longrightarrow> mapped m (p + x) k"
  using mapped_nat [of m p n "unat x" k] by simp

end
