(* ===== verification/Heap_Pool_Layout.thy ===== *)
theory Heap_Pool_Layout
  imports C_Memory
begin

text \<open>
  The pure part of \<open>heap_pool/heap_pool.h\<close> and \<open>heap_pool/heap_pool.c\<close>: error pointers, the
  alignment macros and the size computations of \<open>heap_pool_create\<close>, all on wrapping 64-bit
  words, with the arithmetic facts on natural numbers they satisfy when a request does not wrap.
\<close>

unbundle bit_operations_syntax

section \<open>Error pointers\<close>

definition MAX_ERRNO :: u64 where [simp]: "MAX_ERRNO = 4095"

definition IS_ERR_VALUE :: "u64 \<Rightarrow> bool" where
  "IS_ERR_VALUE x \<longleftrightarrow> x \<ge> - MAX_ERRNO"

definition ERR_PTR :: "u64 \<Rightarrow> u64" where
  "ERR_PTR error = error"

definition PTR_ERR :: "u64 \<Rightarrow> u64" where
  "PTR_ERR ptr = ptr"

definition IS_ERR :: "u64 \<Rightarrow> bool" where
  "IS_ERR ptr = IS_ERR_VALUE ptr"

definition IS_ERR_OR_NULL :: "u64 \<Rightarrow> bool" where
  "IS_ERR_OR_NULL ptr \<longleftrightarrow> ptr = 0 \<or> IS_ERR_VALUE ptr"

lemma unat_err_value: "1 \<le> e \<Longrightarrow> e \<le> 4095 \<Longrightarrow> unat (- (of_nat e) :: u64) = 2 ^ 64 - e"
  using unat_sub_if_size [of 0 "of_nat e :: u64"]
  by (simp add: unat_of_nat_less word_size)

lemma IS_ERR_ERR_PTR:
  "1 \<le> e \<Longrightarrow> e \<le> 4095 \<Longrightarrow> IS_ERR (ERR_PTR (- of_nat e))"
  by (simp add: IS_ERR_def IS_ERR_VALUE_def ERR_PTR_def word_le_nat_alt unat_err_value)

lemma not_IS_ERR_iff: "\<not> IS_ERR p \<longleftrightarrow> unat p < 2 ^ 64 - 4095"
  by (simp add: IS_ERR_def IS_ERR_VALUE_def word_le_nat_alt not_le)

section \<open>Alignment arithmetic\<close>

definition ALIGN :: "u64 \<Rightarrow> u64 \<Rightarrow> u64" where
  "ALIGN x y = (x + y - 1) AND NOT (y - 1)"

definition ALIGN_PTR :: "u64 \<Rightarrow> u64 \<Rightarrow> u64" where
  "ALIGN_PTR addr align = ALIGN addr align"

definition is_power_of_two :: "u64 \<Rightarrow> bool" where
  "is_power_of_two val \<longleftrightarrow> val = 1 \<or> val AND (val - 1) = 0"

definition compute_new_alignment :: "u64 \<Rightarrow> u64" where
  "compute_new_alignment curr_align =
     (let taille_index = 8; new_align = curr_align
      in if taille_index > curr_align
         then let new_align = new_align + (taille_index - curr_align)
              in ALIGN new_align curr_align
         else new_align)"

text \<open>The reference: the least multiple of \<open>a\<close> that is not below \<open>n\<close>.\<close>

definition round_up :: "nat \<Rightarrow> nat \<Rightarrow> nat" where
  "round_up n a = (n + a - 1) div a * a"

lemma round_up_ge: "0 < a \<Longrightarrow> n \<le> round_up n a"
proof -
  assume "0 < a"
  then have "(n + a - 1) div a * a + (n + a - 1) mod a = n + a - 1" "(n + a - 1) mod a < a"
    by simp_all
  then show ?thesis unfolding round_up_def using \<open>0 < a\<close> by linarith
qed

lemma dvd_round_up [simp]: "a dvd round_up n a"
  by (simp add: round_up_def)

lemma round_up_less: "0 < a \<Longrightarrow> round_up n a < n + a"
proof -
  assume a: "0 < a"
  have "(n + a - 1) div a * a \<le> n + a - 1" by simp
  then show ?thesis using a unfolding round_up_def by linarith
qed

lemma round_up_least:
  assumes "0 < a" "a dvd k" "n \<le> k" shows "round_up n a \<le> k"
proof -
  from assms obtain q where q: "k = q * a" by (auto simp: dvd_def mult.commute)
  have "n + a - 1 < (q + 1) * a" using assms q by simp
  then have "(n + a - 1) div a < q + 1" by (simp add: div_less_iff_less_mult assms)
  then show ?thesis unfolding round_up_def q by simp
qed

lemma round_up_of_dvd: "0 < a \<Longrightarrow> a dvd n \<Longrightarrow> round_up n a = n"
  by (simp add: round_up_ge round_up_least antisym)

lemma round_up_add_dvd: "0 < a \<Longrightarrow> a dvd k \<Longrightarrow> round_up (n + k) a = round_up n a + k"
proof -
  assume "0 < a" "a dvd k"
  then obtain q where "k = q * a" by (auto simp: dvd_def mult.commute)
  moreover have "n + q * a + a - 1 = (n + a - 1) + q * a" using \<open>0 < a\<close> by simp
  ultimately show ?thesis using \<open>0 < a\<close>
    by (simp only: round_up_def div_mult_self1 distrib_right)
qed

lemma round_up_mono: "0 < a \<Longrightarrow> n \<le> k \<Longrightarrow> round_up n a \<le> round_up k a"
  by (meson dvd_round_up le_trans round_up_ge round_up_least)

lemma unat_and_not_mask: "unat (w AND NOT (mask k) :: 'a::len word) = unat w div 2 ^ k * 2 ^ k"
  unfolding push_bit_eq_mult [symmetric] drop_bit_eq_div [symmetric]
  by (rule bit_eqI)
     (auto simp: bit_push_bit_iff_nat bit_drop_bit_eq bit_unsigned_iff bit_and_iff bit_not_iff
       bit_mask_iff possible_bit_def dest: bit_imp_le_length)

lemma unat_ALIGN:
  assumes "k < 64" "unat x + 2 ^ k \<le> 2 ^ 64"
  shows "unat (ALIGN x (2 ^ k)) = round_up (unat x) (2 ^ k)"
proof -
  have p: "unat (2 ^ k :: u64) = 2 ^ k" using assms by (simp add: unat_exp)
  have "ALIGN x (2 ^ k) = (x + mask k) AND NOT (mask k)"
    by (simp add: ALIGN_def mask_eq_exp_minus_1 add_diff_eq)
  moreover have "unat (mask k :: u64) = 2 ^ k - 1"
    using p by (simp add: mask_eq_exp_minus_1 unat_sub_no_wrap)
  moreover have "unat (x + mask k) = unat x + (2 ^ k - 1)"
    using assms calculation(2) by (subst unat_add_no_wrap) auto
  ultimately show ?thesis
    by (simp add: unat_and_not_mask round_up_def add_diff_eq)
qed

lemma is_power_of_two_exp: "k < 64 \<Longrightarrow> is_power_of_two (2 ^ k)"
proof -
  have "(2 ^ k :: u64) AND mask k = 0"
    by (rule bit_word_eqI) (auto simp: bit_and_iff bit_exp_iff bit_mask_iff)
  then show ?thesis by (simp add: is_power_of_two_def mask_eq_exp_minus_1)
qed

lemma is_power_of_two_only:
  assumes "v \<noteq> 0" "is_power_of_two v"
  shows "\<exists>k<64. v = 2 ^ k"
proof -
  obtain k where k: "2 ^ k \<le> unat v" "unat v < 2 ^ (k + 1)"
    using ex_power_ivl1 [of 2 "unat v"] assms(1) by (auto simp: unat_gt_0 Suc_le_eq)
  have "(2 :: nat) ^ k < 2 ^ 64"
    using k(1) unsigned_less [of v, where ?'a = nat] by simp
  then have k64: "k < 64" by (rule power_less_imp_less_exp [rotated]) simp
  have "unat v = 2 ^ k"
  proof (rule ccontr)
    assume ne: "unat v \<noteq> 2 ^ k"
    have "unat (v - 1) = unat v - 1" using assms by (simp add: unat_sub_no_wrap unat_gt_0 Suc_le_eq)
    then have "unat v div 2 ^ k = 1" "unat (v - 1) div 2 ^ k = 1"
      using k ne by (auto intro!: div_nat_eqI)
    moreover have "bit w k" if "unat w div 2 ^ k = 1" for w :: u64
    proof -
      have "bit (unat w) k" using that by (simp add: bit_iff_odd)
      then show ?thesis by (simp add: bit_unsigned_iff)
    qed
    ultimately have "bit v k" "bit (v - 1) k" by blast+
    then have "bit (v AND (v - 1)) k" by (simp add: bit_and_iff)
    moreover have "v \<noteq> 1" using ne k(1) by (metis antisym one_le_numeral one_le_power unat_1)
    ultimately show False using assms(2) by (simp add: is_power_of_two_def)
  qed
  then have "v = 2 ^ k" using k64 by (simp add: word_unat_eq_iff unat_exp)
  with k64 show ?thesis by blast
qed

lemma compute_new_alignment_exp:
  assumes "k < 64"
  shows "compute_new_alignment (2 ^ k) = (if k < 3 then 8 else 2 ^ k)"
proof (cases "k < 3")
  case True
  then consider "k = 0" | "k = 1" | "k = 2" by linarith
  then show ?thesis by cases (simp_all add: compute_new_alignment_def ALIGN_def)
next
  case False
  have "unat (8 :: u64) \<le> unat (2 ^ k :: u64)"
    using False assms power_increasing [of 3 k "2 :: nat"] by (simp add: unat_exp)
  then have "\<not> (2 ^ k :: u64) < 8" by (simp add: word_less_nat_alt)
  then show ?thesis using False by (simp add: compute_new_alignment_def Let_def)
qed

section \<open>The geometry of a new pool\<close>

definition sizeof_size_t :: u64 where [simp]: "sizeof_size_t = 8"
definition sizeof_heap_pool_desc :: u64 where [simp]: "sizeof_heap_pool_desc = 72"
definition CHUNK_EXTRA_SIZE :: u64 where [simp]: "CHUNK_EXTRA_SIZE = 0"

definition create_align :: "u64 \<Rightarrow> u64" where
  "create_align a = (if a = 0 then sizeof_size_t else compute_new_alignment a)"

definition create_holesize :: "u64 \<Rightarrow> u64 \<Rightarrow> u64" where
  "create_holesize sz a =
     (let chunksize = sz + CHUNK_EXTRA_SIZE; holesize = sizeof_size_t
      in if a > 1
         then let next_val = chunksize + holesize; diff = ALIGN next_val a - next_val
              in holesize + diff
         else holesize)"

definition create_allocsize :: "u64 \<Rightarrow> u64 \<Rightarrow> u64 \<Rightarrow> u64 \<Rightarrow> u64" where
  "create_allocsize pagesize nb sz a =
     (let align = create_align a; chunksize = sz + CHUNK_EXTRA_SIZE;
          holesize = create_holesize sz a;
          allocsize = sizeof_heap_pool_desc + align - holesize +
            nb * (sizeof_size_t + chunksize + holesize)
      in ALIGN allocsize pagesize)"

definition create_nrel :: "u64 \<Rightarrow> u64 \<Rightarrow> u64 \<Rightarrow> u64" where
  "create_nrel allocsize sz a =
     (allocsize - create_align a - sizeof_heap_pool_desc) div
     (sizeof_size_t + create_holesize sz a + (sz + CHUNK_EXTRA_SIZE))"

text \<open>
  A request the arithmetic of the code handles without wrapping: the page size is a power of two
  of at least eight bytes, the alignment is zero or a power of two up to the page size, at least
  one element is asked for and the rounded allocation fits into 64 bits.
\<close>

definition request_ok :: "u64 \<Rightarrow> u64 \<Rightarrow> u64 \<Rightarrow> u64 \<Rightarrow> bool" where
  "request_ok pagesize nb sz a \<longleftrightarrow>
     is_power_of_two pagesize \<and> 8 \<le> pagesize \<and>
     (a = 0 \<or> is_power_of_two a) \<and> a \<le> pagesize \<and> 0 < nb \<and>
     88 + unat a + unat pagesize + unat nb * (16 + unat a + unat sz) \<le> 2 ^ 64"

lemma request_ok_cases:
  assumes "request_ok pagesize nb sz a"
  obtains q where "q < 64" "3 \<le> q" "pagesize = 2 ^ q"
    and "a = 0 \<or> (\<exists>k\<le>q. a = 2 ^ k)"
proof -
  have pg: "is_power_of_two pagesize" "8 \<le> unat pagesize" "a \<le> pagesize"
    and a: "a = 0 \<or> is_power_of_two a"
    using assms by (auto simp: request_ok_def word_le_nat_alt)
  from pg obtain q where q: "q < 64" "pagesize = 2 ^ q"
    using is_power_of_two_only [of pagesize] by fastforce
  have "(2 :: nat) ^ 3 \<le> 2 ^ q" using pg(2) q by (simp add: unat_exp)
  then have "3 \<le> q" by (rule power_le_imp_le_exp [rotated]) simp
  moreover have "a = 0 \<or> (\<exists>k\<le>q. a = 2 ^ k)"
  proof (cases "a = 0")
    case False
    with a obtain k where k: "k < 64" "a = 2 ^ k" using is_power_of_two_only by blast
    have "(2 :: nat) ^ k \<le> 2 ^ q" using pg(3) q k by (simp add: word_le_nat_alt unat_exp)
    then have "k \<le> q" by (rule power_le_imp_le_exp [rotated]) simp
    with k show ?thesis by blast
  qed simp
  ultimately show thesis using q that by blast
qed

lemma create_align_request:
  assumes "request_ok pagesize nb sz a"
  shows "8 dvd unat (create_align a)" "unat (create_align a) dvd unat pagesize"
    and "unat (create_align a) = max 8 (unat a)" "\<exists>k<64. create_align a = 2 ^ k"
proof -
  obtain q where q: "q < 64" "3 \<le> q" "pagesize = 2 ^ q"
    and a: "a = 0 \<or> (\<exists>k\<le>q. a = 2 ^ k)"
    using request_ok_cases [OF assms] by blast
  obtain k where k: "k \<le> q" "3 \<le> k" "create_align a = 2 ^ k" "max 8 (unat a) = 2 ^ k"
  proof (cases "a = 0")
    case True
    then show thesis using that [of 3] q by (simp add: create_align_def)
  next
    case False
    with a obtain k where k: "k \<le> q" "a = 2 ^ k" by blast
    show thesis
    proof (cases "k < 3")
      case True
      then have "(2 :: nat) ^ k \<le> 2 ^ 3" by (intro power_increasing) auto
      then show thesis using that [of 3] k q True False
        by (simp add: create_align_def compute_new_alignment_exp unat_exp)
    next
      case False
      then have "(2 :: nat) ^ 3 \<le> 2 ^ k" by (intro power_increasing) auto
      then show thesis using that [of k] k q False \<open>a \<noteq> 0\<close>
        by (simp add: create_align_def compute_new_alignment_exp unat_exp)
    qed
  qed
  have "8 dvd (2 :: nat) ^ k" using le_imp_power_dvd [OF k(2), of "2 :: nat"] by simp
  moreover have "(2 :: nat) ^ k dvd 2 ^ q"
    using k by (auto intro: le_imp_power_dvd)
  ultimately show "8 dvd unat (create_align a)" "unat (create_align a) dvd unat pagesize"
    "unat (create_align a) = max 8 (unat a)" "\<exists>k<64. create_align a = 2 ^ k"
    using k q by (auto simp: unat_exp intro!: exI [of _ k])
qed

lemma dvd_create_align:
  assumes "request_ok pagesize nb sz a" "a \<noteq> 0"
  shows "unat a dvd unat (create_align a)"
proof (cases "8 \<le> unat a")
  case True
  then show ?thesis using create_align_request(3) [OF assms(1)] by simp
next
  case False
  obtain j where j: "j < 64" "a = 2 ^ j"
    using is_power_of_two_only assms unfolding request_ok_def by blast
  have "(2 :: nat) ^ j < 2 ^ 3" using False j by (simp add: unat_exp)
  then have "j < 3" by (rule power_less_imp_less_exp [rotated]) simp
  then have "(2 :: nat) ^ j dvd 2 ^ 3" by (intro le_imp_power_dvd) simp
  then show ?thesis using create_align_request(3) [OF assms(1)] False j by (simp add: unat_exp)
qed

lemma create_holesize_request:
  assumes "request_ok pagesize nb sz a"
  shows "8 \<le> unat (create_holesize sz a)" "unat (create_holesize sz a) \<le> 8 + unat a"
    and "1 < unat a \<Longrightarrow> unat a dvd unat (create_holesize sz a) + unat sz"
proof -
  have nb: "0 < unat nb" using assms by (simp add: request_ok_def unat_gt_0 word_neq_0_conv)
  have "16 + unat a + unat sz \<le> unat nb * (16 + unat a + unat sz)"
    using nb by (cases "unat nb") auto
  moreover have "88 + unat a + unat pagesize + unat nb * (16 + unat a + unat sz) \<le> 2 ^ 64"
    using assms unfolding request_ok_def by blast
  ultimately have sum: "8 + unat a + unat sz + 96 \<le> 2 ^ 64" by linarith
  have "8 \<le> unat (create_holesize sz a) \<and> unat (create_holesize sz a) \<le> 8 + unat a \<and>
    (1 < unat a \<longrightarrow> unat a dvd unat (create_holesize sz a) + unat sz)"
  proof (cases "a > 1")
    case False
    then have "\<not> 1 < unat a" by (simp add: word_less_nat_alt)
    with False show ?thesis by (simp add: create_holesize_def)
  next
    case True
    obtain k where k: "k < 64" "a = 2 ^ k"
      using request_ok_cases [OF assms] True by (metis le_less_trans less_irrefl word_gt_0 word_not_simps(1))
    have ua: "unat a = 2 ^ k" using k by (simp add: unat_exp)
    have nv: "unat (sz + 8) = unat sz + 8" using sum by (subst unat_add_no_wrap) auto
    have al: "unat (ALIGN (sz + 8) a) = round_up (unat sz + 8) (unat a)"
      using sum nv k ua by (simp add: unat_ALIGN)
    have bounds: "unat sz + 8 \<le> round_up (unat sz + 8) (unat a)"
      "round_up (unat sz + 8) (unat a) < unat sz + 8 + unat a"
      using ua by (simp_all add: round_up_ge round_up_less)
    have diff: "unat (ALIGN (sz + 8) a - (sz + 8)) =
        round_up (unat sz + 8) (unat a) - (unat sz + 8)"
      using al nv bounds by (subst unat_sub_no_wrap) auto
    have "unat (create_holesize sz a) = 8 + (round_up (unat sz + 8) (unat a) - (unat sz + 8))"
    proof -
      have "create_holesize sz a = 8 + (ALIGN (sz + 8) a - (sz + 8))"
        using True by (simp add: create_holesize_def Let_def)
      moreover have "unat (8 + (ALIGN (sz + 8) a - (sz + 8))) =
          8 + (round_up (unat sz + 8) (unat a) - (unat sz + 8))"
        using diff sum bounds by (subst unat_add_no_wrap) (simp_all only: diff, auto)
      ultimately show ?thesis by simp
    qed
    then show ?thesis using bounds by (auto simp: add.commute)
  qed
  then show "8 \<le> unat (create_holesize sz a)" "unat (create_holesize sz a) \<le> 8 + unat a"
    and "1 < unat a \<Longrightarrow> unat a dvd unat (create_holesize sz a) + unat sz"
    by auto
qed

lemma create_allocsize_request:
  fixes pagesize nb sz a
  defines "A \<equiv> unat (create_align a)" and "H \<equiv> unat (create_holesize sz a)"
  assumes "request_ok pagesize nb sz a"
  shows "unat (create_allocsize pagesize nb sz a) =
      round_up (72 + A - H + unat nb * (8 + unat sz + H)) (unat pagesize)"
    and "H \<le> 72 + A"
    and "72 + A - H + unat nb * (8 + unat sz + H) + unat pagesize \<le> 2 ^ 64"
    and "unat (8 + sz + create_holesize sz a) = 8 + unat sz + H"
proof -
  obtain q where q: "q < 64" "pagesize = 2 ^ q"
    using request_ok_cases [OF assms(3)] by blast
  have nb: "0 < unat nb" using assms by (simp add: request_ok_def unat_gt_0 word_neq_0_conv)
  have A: "A = max 8 (unat a)" using create_align_request(3) assms by simp
  have H: "8 \<le> H" "H \<le> 8 + unat a" using create_holesize_request assms by auto
  show HA: "H \<le> 72 + A" using H A by linarith
  have bnd: "88 + unat a + unat pagesize + unat nb * (16 + unat a + unat sz) \<le> 2 ^ 64"
    using assms unfolding request_ok_def by blast
  have mono: "unat nb * (8 + unat sz + H) \<le> unat nb * (16 + unat a + unat sz)"
    using H by (intro mult_left_mono) auto
  have one: "8 + unat sz + H \<le> unat nb * (8 + unat sz + H)" using nb by (cases "unat nb") auto
  show fits: "72 + A - H + unat nb * (8 + unat sz + H) + unat pagesize \<le> 2 ^ 64"
    using bnd mono A H by linarith
  have "0 < unat pagesize" using q by (simp add: unat_exp)
  with fits one have lt: "8 + unat sz + H < 2 ^ 64" "unat nb * (8 + unat sz + H) < 2 ^ 64"
    "72 + A - H + unat nb * (8 + unat sz + H) < 2 ^ 64"
    by linarith+
  have s8: "unat (8 + sz) = 8 + unat sz"
    using lt by (subst unat_add_no_wrap) auto
  show T: "unat (8 + sz + create_holesize sz a) = 8 + unat sz + H"
    using lt s8 unfolding H_def by (subst unat_add_no_wrap) auto
  have m: "unat (nb * (8 + sz + create_holesize sz a)) = unat nb * (8 + unat sz + H)"
    using lt T by (subst unat_mult_no_wrap) auto
  have a72: "unat (72 + create_align a) = 72 + A"
    using bnd A unfolding A_def [symmetric] by (subst unat_add_no_wrap) (auto simp: A_def [symmetric])
  have d: "unat (72 + create_align a - create_holesize sz a) = 72 + A - H"
    using a72 HA unfolding H_def by (subst unat_sub_no_wrap) auto
  have "unat (72 + create_align a - create_holesize sz a + nb * (8 + sz + create_holesize sz a)) =
      72 + A - H + unat nb * (8 + unat sz + H)"
    using lt m d by (subst unat_add_no_wrap) auto
  then show "unat (create_allocsize pagesize nb sz a) =
      round_up (72 + A - H + unat nb * (8 + unat sz + H)) (unat pagesize)"
    using fits q by (simp add: create_allocsize_def Let_def unat_ALIGN unat_exp)
qed

lemma create_nrel_request:
  fixes pagesize nb sz a
  defines "A \<equiv> unat (create_align a)" and "H \<equiv> unat (create_holesize sz a)"
    and "L \<equiv> unat (create_allocsize pagesize nb sz a)"
    and "N \<equiv> unat (create_nrel (create_allocsize pagesize nb sz a) sz a)"
  assumes req: "request_ok pagesize nb sz a"
  shows "72 + A \<le> L" and "unat pagesize dvd L"
    and "N = (L - (72 + A)) div (8 + unat sz + H)" and "unat nb \<le> Suc N"
    and "72 + A + N * (8 + unat sz + H) \<le> L"
proof -
  note sz = create_allocsize_request [OF req, folded A_def H_def L_def]
  obtain q where q: "q < 64" "pagesize = 2 ^ q" using request_ok_cases [OF req] by blast
  then have pg: "0 < unat pagesize" by (simp add: unat_exp)
  have nb: "0 < unat nb" using req by (simp add: request_ok_def unat_gt_0 word_neq_0_conv)
  then have one: "8 + unat sz + H \<le> unat nb * (8 + unat sz + H)" by (cases "unat nb") auto
  have L: "72 + A - H + unat nb * (8 + unat sz + H) \<le> L" using sz(1) round_up_ge [OF pg] by simp
  with one sz(2) show le: "72 + A \<le> L" by linarith
  show "unat pagesize dvd L" using sz(1) by simp
  have "unat (create_allocsize pagesize nb sz a - create_align a) = L - A"
    using le unfolding L_def A_def by (subst unat_sub_no_wrap) auto
  then have "unat (create_allocsize pagesize nb sz a - create_align a - 72) = L - (72 + A)"
    using le by (subst unat_sub_no_wrap) auto
  then show N: "N = (L - (72 + A)) div (8 + unat sz + H)"
    using sz(4) by (simp add: N_def create_nrel_def unat_div add.commute add.left_commute)
  have "unat nb * (8 + unat sz + H) \<le> (L - (72 + A)) + (8 + unat sz + H)"
    using L le sz(2) by linarith
  then have "unat nb \<le> ((L - (72 + A)) + (8 + unat sz + H)) div (8 + unat sz + H)"
    by (metis add_gr_0 div_le_mono nonzero_mult_div_cancel_right not_gr_zero zero_less_numeral)
  then show "unat nb \<le> Suc N" unfolding N by (subst (asm) div_add_self2) auto
  have "N * (8 + unat sz + H) \<le> L - (72 + A)" by (simp only: N div_times_less_eq_dividend)
  then show "72 + A + N * (8 + unat sz + H) \<le> L" using le by linarith
qed

text \<open>
  The first chunk: it lies after the index array and the slot of its own index, on a multiple of
  the alignment, and the last chunk ends inside the mapping.
\<close>

lemma create_first_chunk:
  fixes pagesize nb sz a p
  defines "align \<equiv> create_align a" and "hole \<equiv> create_holesize sz a"
    and "alloc \<equiv> create_allocsize pagesize nb sz a"
    and "n \<equiv> create_nrel (create_allocsize pagesize nb sz a) sz a"
  defines "off \<equiv> ALIGN_PTR (p + 72 + 8 * n + align) align - p"
  assumes req: "request_ok pagesize nb sz a"
    and page: "unat pagesize dvd unat p" "unat p + unat alloc \<le> 2 ^ 63"
  shows "80 + 8 * unat n \<le> unat off"
    and "unat off + unat n * (unat sz + unat hole) \<le> unat alloc"
    and "unat align dvd unat p + unat off"
proof -
  let ?A = "unat align" and ?H = "unat hole" and ?L = "unat alloc" and ?N = "unat n"
  note al = create_align_request [OF req, folded align_def]
  note ho = create_holesize_request [OF req, folded hole_def]
  note nr = create_nrel_request [OF req, folded align_def hole_def alloc_def n_def]
  obtain k where k: "k < 64" "align = 2 ^ k" using al(4) by blast
  then have A: "0 < ?A" "?A = 2 ^ k" by (simp_all add: unat_exp)
  have dp: "?A dvd unat p" "?A dvd ?L" "?A dvd ?L - ?A" using al(2) page nr(2) by (auto intro: dvd_trans)
  have bnd: "72 + 8 * ?N + ?N * (unat sz + ?H) \<le> ?L - ?A" using nr(1,5) by (simp add: algebra_simps)
  have r: "round_up (72 + 8 * ?N) ?A + ?N * (unat sz + ?H) \<le> ?L - ?A"
  proof (cases "unat a < 8")
    case True
    then have "?A = 8" using al(3) by simp
    then have "round_up (72 + 8 * ?N) ?A = 72 + 8 * ?N" by (simp add: round_up_of_dvd)
    then show ?thesis using bnd by simp
  next
    case False
    then have "?A dvd ?N * (unat sz + ?H)" using al(3) ho(3) by (auto simp: add.commute)
    then have "round_up (72 + 8 * ?N) ?A + ?N * (unat sz + ?H) =
        round_up (72 + 8 * ?N + ?N * (unat sz + ?H)) ?A"
      using A by (simp add: round_up_add_dvd)
    also have "\<dots> \<le> ?L - ?A" using A bnd dp by (intro round_up_least) auto
    finally show ?thesis .
  qed
  have lo: "72 + 8 * ?N \<le> round_up (72 + 8 * ?N) ?A" using A by (intro round_up_ge)
  have u8: "unat (8 * n) = 8 * ?N" using nr(1) r lo page by (subst unat_mult_no_wrap) auto
  have lt: "unat p + 72 + 8 * ?N + ?A + ?A \<le> 2 ^ 64" "?A \<le> 2 ^ 63"
  proof -
    have "(2 :: nat) ^ 64 = 2 * 2 ^ 63" by simp
    then show "unat p + 72 + 8 * ?N + ?A + ?A \<le> 2 ^ 64" "?A \<le> 2 ^ 63"
      using r lo nr(1) page by linarith+
  qed
  have ptr: "unat (p + 72 + 8 * n + align) = unat p + (72 + 8 * ?N) + ?A"
    using lt A(1) u8 by (simp add: unat_add_no_wrap)
  have ru: "round_up (unat p + (72 + 8 * ?N) + ?A) ?A = unat p + (?A + round_up (72 + 8 * ?N) ?A)"
    using A(1) dp(1) round_up_add_dvd [of ?A "unat p + ?A" "72 + 8 * ?N"]
    by (simp add: algebra_simps)
  have "unat (ALIGN_PTR (p + 72 + 8 * n + align) align) = unat p + (?A + round_up (72 + 8 * ?N) ?A)"
  proof -
    have "unat (ALIGN (p + 72 + 8 * n + align) (2 ^ k)) =
        round_up (unat (p + 72 + 8 * n + align)) (2 ^ k)"
      using lt(1) k(1) A(2) ptr by (intro unat_ALIGN) linarith+
    then show ?thesis
      unfolding k(2) [symmetric] A(2) [symmetric] ptr ru ALIGN_PTR_def .
  qed
  then have off: "unat off = ?A + round_up (72 + 8 * ?N) ?A"
    unfolding off_def by (subst unat_sub_no_wrap) auto
  have "8 \<le> ?A" using al(3) by simp
  then show "80 + 8 * unat n \<le> unat off" using off lo by linarith
  show "unat off + unat n * (unat sz + unat hole) \<le> unat alloc" using off r nr(1) by linarith
  show "unat align dvd unat p + unat off" using dp(1) by (simp add: off)
qed

end
