(* ===== verification/Heap_Pool.thy ===== *)
theory Heap_Pool
  imports Heap_Pool_Layout
begin

text \<open>
  The heap pool of \<open>heap_pool/heap_pool.h\<close> and \<open>heap_pool/heap_pool.c\<close>, byte by byte. A pool
  is one mapping: the descriptor (nine 64-bit fields, 72 bytes on LP64), the array of free-list
  links \<open>hpd_raw\<close>, then the chunks, each preceded by the eight bytes that hold its own index.
  The operations read and write that memory exactly as the C code does; a fault is \<open>None\<close>.
  Modelled is the configuration the Makefile builds: no \<open>HP_HAVE_SHM\<close>, no
  \<open>HEAP_POOL_DBHOOK\<close>, no \<open>HEAP_POOL_OVERFLOW_DBG\<close>, \<open>DBG\<close> defined (so the assertion of
  the creation loop is live). The debug output is left out. The kernel's answer to \<open>mmap\<close> is
  an argument: \<open>None\<close> is a failure, \<open>Some a\<close> the address chosen.
\<close>

section \<open>The pool in memory\<close>

type_synonym mem = "64 memory"

abbreviation at_szel :: "u64 \<Rightarrow> u64" where "at_szel p \<equiv> p + 8"
abbreviation at_nrel :: "u64 \<Rightarrow> u64" where "at_nrel p \<equiv> p + 16"
abbreviation at_nralloc :: "u64 \<Rightarrow> u64" where "at_nralloc p \<equiv> p + 24"
abbreviation at_firstfree :: "u64 \<Rightarrow> u64" where "at_firstfree p \<equiv> p + 32"
abbreviation at_szck :: "u64 \<Rightarrow> u64" where "at_szck p \<equiv> p + 40"
abbreviation at_holesize :: "u64 \<Rightarrow> u64" where "at_holesize p \<equiv> p + 48"
abbreviation at_allocsize :: "u64 \<Rightarrow> u64" where "at_allocsize p \<equiv> p + 56"
abbreviation at_offfirstelem :: "u64 \<Rightarrow> u64" where "at_offfirstelem p \<equiv> p + 64"
abbreviation at_raw :: "u64 \<Rightarrow> u64" where "at_raw p \<equiv> p + 72"

record heap_pool_desc =
  hpd_next :: u64
  hpd_szel :: u64
  hpd_nrel :: u64
  hpd_nralloc :: u64
  hpd_firstfree :: u64
  hpd_szck :: u64
  hpd_holesize :: u64
  hpd_allocsize :: u64
  hpd_offfirstelem :: u64

definition read_desc :: "mem \<Rightarrow> u64 \<Rightarrow> heap_pool_desc option" where
  "read_desc m p = do {
     next \<leftarrow> load64 m p; szel \<leftarrow> load64 m (at_szel p);
     nrel \<leftarrow> load64 m (at_nrel p); nralloc \<leftarrow> load64 m (at_nralloc p);
     firstfree \<leftarrow> load64 m (at_firstfree p); szck \<leftarrow> load64 m (at_szck p);
     holesize \<leftarrow> load64 m (at_holesize p); allocsize \<leftarrow> load64 m (at_allocsize p);
     off \<leftarrow> load64 m (at_offfirstelem p);
     Some \<lparr>hpd_next = next, hpd_szel = szel, hpd_nrel = nrel, hpd_nralloc = nralloc,
       hpd_firstfree = firstfree, hpd_szck = szck, hpd_holesize = holesize,
       hpd_allocsize = allocsize, hpd_offfirstelem = off\<rparr> }"

definition heap_pool_raw_to_desc :: "u64 \<Rightarrow> u64" where
  "heap_pool_raw_to_desc raw = raw - at_raw 0"

definition HEAP_POOL_ADDR_IN_BNDS :: "mem \<Rightarrow> u64 \<Rightarrow> u64 \<Rightarrow> bool option" where
  "HEAP_POOL_ADDR_IN_BNDS m p addr =
     (if addr > p then do { len \<leftarrow> load64 m (at_allocsize p); Some (addr < p + len) }
      else Some False)"

section \<open>Allocation and release\<close>

definition array_index :: "u64 \<Rightarrow> u64 \<Rightarrow> u64" where
  "array_index p i = at_raw p + 8 * i"

definition HEAP_POOL_GET_NTH_CHUNK :: "mem \<Rightarrow> u64 \<Rightarrow> u64 \<Rightarrow> u64 option" where
  "HEAP_POOL_GET_NTH_CHUNK m p n = do {
     off \<leftarrow> load64 m (at_offfirstelem p);
     szck \<leftarrow> load64 m (at_szck p);
     Some (p + off + n * szck) }"

definition heap_pool_nb_free :: "mem \<Rightarrow> u64 \<Rightarrow> u64 option" where
  "heap_pool_nb_free m p = do {
     nrel \<leftarrow> load64 m (at_nrel p);
     nralloc \<leftarrow> load64 m (at_nralloc p);
     Some (nrel - nralloc) }"

definition heap_pool_alloc :: "mem \<Rightarrow> u64 \<Rightarrow> (u64 \<times> mem) option" where
  "heap_pool_alloc m p = do {
     nb_free \<leftarrow> heap_pool_nb_free m p;
     if nb_free = 0 then Some (- ENOMEM, m)
     else do {
       old_ff \<leftarrow> load64 m (at_firstfree p);
       next_ff \<leftarrow> load64 m (array_index p old_ff);
       m \<leftarrow> store64 m (at_firstfree p) next_ff;
       nralloc \<leftarrow> load64 m (at_nralloc p);
       m \<leftarrow> store64 m (at_nralloc p) (nralloc + 1);
       chunk \<leftarrow> HEAP_POOL_GET_NTH_CHUNK m p old_ff;
       Some (chunk, m) } }"

definition heap_pool_free :: "mem \<Rightarrow> u64 \<Rightarrow> u64 \<Rightarrow> mem option" where
  "heap_pool_free m p addr = do {
     index_index \<leftarrow> load64 m (addr - sizeof_size_t);
     firstfree \<leftarrow> load64 m (at_firstfree p);
     m \<leftarrow> store64 m (array_index p index_index) firstfree;
     m \<leftarrow> store64 m (at_firstfree p) index_index;
     nralloc \<leftarrow> load64 m (at_nralloc p);
     store64 m (at_nralloc p) (nralloc - 1) }"

section \<open>Creation and destruction\<close>

definition MAP_FAILED :: u64 where "MAP_FAILED = - 1"

definition mmap_anon :: "mem \<Rightarrow> u64 option \<Rightarrow> u64 \<Rightarrow> u64 \<times> mem" where
  "mmap_anon m choice len = (case choice of
     None \<Rightarrow> (MAP_FAILED, m)
   | Some a \<Rightarrow> (a, \<lambda>x. if x - a < len then Some 0 else m x))"

definition munmap :: "mem \<Rightarrow> u64 \<Rightarrow> u64 \<Rightarrow> mem" where
  "munmap m a len = (\<lambda>x. if x - a < len then None else m x)"

function create_loop :: "mem \<Rightarrow> u64 \<Rightarrow> u64 \<Rightarrow> u64 \<Rightarrow> u64 \<Rightarrow> u64 \<Rightarrow> u64 \<Rightarrow> mem option" where
  "create_loop m nrel stride a i walker ptr =
     (if i < nrel then do {
        m \<leftarrow> store64 m walker (i + 1);
        m \<leftarrow> store64 m (ptr - sizeof_size_t) i;
        if a \<noteq> 0 \<and> ptr mod a \<noteq> 0 then None
        else create_loop m nrel stride a (i + 1) (walker + 8) (ptr + stride) }
      else Some m)"
  by pat_completeness auto
termination
proof (relation "measure (\<lambda>(m, nrel, stride, a, i, walker, ptr). unat nrel - unat i)", goal_cases)
  case (2 m nrel stride a i walker ptr m' m'')
  then have "unat (i + 1) = unat i + 1" "unat i < unat nrel"
    by (auto simp: word_less_nat_alt intro!: unat_add_no_wrap [of _ 1, simplified]
      le_less_trans [OF _ unsigned_less [of nrel]])
  then show ?case by simp
qed simp

declare create_loop.simps [simp del]

definition heap_pool_create ::
  "mem \<Rightarrow> u64 \<Rightarrow> u64 option \<Rightarrow> u64 \<Rightarrow> u64 \<Rightarrow> u64 \<Rightarrow> (u64 \<times> mem) option" where
  "heap_pool_create m pagesize choice nb sz a =
     (if a \<noteq> 0 \<and> \<not> is_power_of_two a then Some (ERR_PTR (- EINVAL), m)
      else
        let align = create_align a;
            chunksize = sz + CHUNK_EXTRA_SIZE;
            holesize = create_holesize sz a;
            allocsize = create_allocsize pagesize nb sz a;
            (ret, m) = mmap_anon m choice allocsize
        in if ret = MAP_FAILED then Some (ret, m)
        else do {
          m \<leftarrow> store64 m ret 0;
          m \<leftarrow> store64 m (at_szel ret) sz;
          nrel \<leftarrow> (if sizeof_size_t + holesize + chunksize = 0 then None
                   else Some (create_nrel allocsize sz a));
          m \<leftarrow> store64 m (at_nrel ret) nrel;
          m \<leftarrow> store64 m (at_nralloc ret) 0;
          m \<leftarrow> store64 m (at_firstfree ret) 0;
          m \<leftarrow> store64 m (at_szck ret) (holesize + sz + CHUNK_EXTRA_SIZE);
          m \<leftarrow> store64 m (at_holesize ret) holesize;
          m \<leftarrow> store64 m (at_allocsize ret) allocsize;
          let walker = at_raw ret;
          let ptr = ALIGN_PTR (walker + 8 * nrel + align) align;
          m \<leftarrow> store64 m (at_offfirstelem ret) (ptr - ret);
          m \<leftarrow> create_loop m nrel (chunksize + holesize) a 0 walker ptr;
          Some (ret, m) })"

definition heap_pool_close :: "mem \<Rightarrow> u64 \<Rightarrow> mem option" where
  "heap_pool_close m desc = do {
     len \<leftarrow> load64 m (at_allocsize desc);
     Some (munmap m desc len) }"

definition heap_pool_destroy :: "mem \<Rightarrow> u64 \<Rightarrow> mem option" where
  "heap_pool_destroy m desc = do {
     len \<leftarrow> load64 m (at_allocsize desc);
     Some (munmap m desc len) }"

section \<open>The invariant of a pool\<close>

definition chunk_off :: "heap_pool_desc \<Rightarrow> nat \<Rightarrow> nat" where
  "chunk_off d i = unat (hpd_offfirstelem d) + i * unat (hpd_szck d)"

definition chunk_addr :: "u64 \<Rightarrow> heap_pool_desc \<Rightarrow> nat \<Rightarrow> u64" where
  "chunk_addr p d i = p + of_nat (chunk_off d i)"

definition index_addr :: "u64 \<Rightarrow> heap_pool_desc \<Rightarrow> nat \<Rightarrow> u64" where
  "index_addr p d i = p + of_nat (chunk_off d i - 8)"

definition slot_addr :: "u64 \<Rightarrow> nat \<Rightarrow> u64" where
  "slot_addr p i = p + of_nat (72 + 8 * i)"

definition pool_geom :: "heap_pool_desc \<Rightarrow> bool" where
  "pool_geom d \<longleftrightarrow>
     80 + 8 * unat (hpd_nrel d) \<le> unat (hpd_offfirstelem d) \<and>
     8 + unat (hpd_szel d) \<le> unat (hpd_szck d) \<and>
     unat (hpd_offfirstelem d) + unat (hpd_nrel d) * unat (hpd_szck d) \<le> unat (hpd_allocsize d)"

fun free_chain :: "mem \<Rightarrow> u64 \<Rightarrow> u64 \<Rightarrow> nat list \<Rightarrow> bool" where
  "free_chain m p x [] = True"
| "free_chain m p x (i # is) =
     (x = of_nat i \<and> (case load64 m (slot_addr p i) of None \<Rightarrow> False | Some y \<Rightarrow> free_chain m p y is))"

definition pool_inv :: "mem \<Rightarrow> u64 \<Rightarrow> heap_pool_desc \<Rightarrow> nat list \<Rightarrow> bool" where
  "pool_inv m p d fl \<longleftrightarrow>
     read_desc m p = Some d \<and> pool_geom d \<and> mapped m p (unat (hpd_allocsize d)) \<and>
     (\<forall>i<unat (hpd_nrel d). load64 m (index_addr p d i) = Some (of_nat i)) \<and>
     free_chain m p (hpd_firstfree d) fl \<and> distinct fl \<and> set fl \<subseteq> {..<unat (hpd_nrel d)} \<and>
     length fl + unat (hpd_nralloc d) = unat (hpd_nrel d)"

lemma chunk_addr_code: "chunk_addr p d i = p + hpd_offfirstelem d + of_nat i * hpd_szck d"
  by (simp add: chunk_addr_def chunk_off_def add.assoc)

lemma array_index_slot: "array_index p (of_nat i) = slot_addr p i"
  by (simp add: array_index_def slot_addr_def add.assoc)

lemma desc_upd [simp]:
  "pool_geom (d\<lparr>hpd_firstfree := x, hpd_nralloc := n\<rparr>) = pool_geom d"
  "chunk_off (d\<lparr>hpd_firstfree := x, hpd_nralloc := n\<rparr>) = chunk_off d"
  "chunk_addr p (d\<lparr>hpd_firstfree := x, hpd_nralloc := n\<rparr>) = chunk_addr p d"
  "index_addr p (d\<lparr>hpd_firstfree := x, hpd_nralloc := n\<rparr>) = index_addr p d"
  by (simp_all add: fun_eq_iff pool_geom_def chunk_off_def chunk_addr_def index_addr_def)

text \<open>Where the parts of a pool lie, as offsets from its start.\<close>

lemma chunk_off_bounds:
  assumes "pool_geom d" "i < unat (hpd_nrel d)"
  shows "80 + 8 * unat (hpd_nrel d) \<le> chunk_off d i"
    and "chunk_off d i + unat (hpd_szck d) \<le> unat (hpd_allocsize d)"
    and "chunk_off d i + unat (hpd_szel d) + 8 \<le> unat (hpd_allocsize d)"
proof -
  have "Suc i * unat (hpd_szck d) \<le> unat (hpd_nrel d) * unat (hpd_szck d)"
    using assms(2) by (intro mult_right_mono) auto
  then show "80 + 8 * unat (hpd_nrel d) \<le> chunk_off d i"
    "chunk_off d i + unat (hpd_szck d) \<le> unat (hpd_allocsize d)"
    "chunk_off d i + unat (hpd_szel d) + 8 \<le> unat (hpd_allocsize d)"
    using assms(1) by (auto simp: pool_geom_def chunk_off_def)
qed

lemma chunk_off_mono: "i < j \<Longrightarrow> chunk_off d i + unat (hpd_szck d) \<le> chunk_off d j"
proof -
  assume "i < j"
  then have "Suc i * unat (hpd_szck d) \<le> j * unat (hpd_szck d)" by (intro mult_right_mono) auto
  then show ?thesis by (simp add: chunk_off_def)
qed

lemma index_addr_chunk_addr:
  "pool_geom d \<Longrightarrow> i < unat (hpd_nrel d) \<Longrightarrow> chunk_addr p d i - 8 = index_addr p d i"
  using chunk_off_bounds(1) [of d i] by (simp add: chunk_addr_def index_addr_def of_nat_diff)

lemma disjoint_nat:
  fixes p :: u64
  assumes "k + n \<le> l \<or> l + j \<le> k" "k + n \<le> 2 ^ 64" "l + j \<le> 2 ^ 64"
  shows "disjoint (p + of_nat k) n (p + of_nat l) j"
proof (cases "n = 0 \<or> j = 0")
  case True
  then show ?thesis by (auto simp: disjoint_def)
next
  case False
  then show ?thesis using assms by (intro disjoint_offsets) (auto simp: unat_of_nat_less)
qed

lemma disjoint_sym: "disjoint a n b k \<longleftrightarrow> disjoint b k a n"
  unfolding disjoint_def by metis

lemma slot_bound: "pool_geom d \<Longrightarrow> i < unat (hpd_nrel d) \<Longrightarrow> 72 + 8 * i + 8 < 2 ^ 64"
  using unsigned_less [of "hpd_offfirstelem d", where ?'a = nat] by (auto simp: pool_geom_def)

lemma chunk_bound:
  "pool_geom d \<Longrightarrow> i < unat (hpd_nrel d) \<Longrightarrow> chunk_off d i + unat (hpd_szel d) + 8 < 2 ^ 64"
  using chunk_off_bounds(3) [of d i] unsigned_less [of "hpd_allocsize d", where ?'a = nat] by simp

lemma field_as_nat: "p + (f :: u64) = p + of_nat (unat f)"
  by simp

lemma disjoint_field_slot [mem_simps]:
  assumes "unat f + n \<le> 72" "72 + 8 * i + 8 < 2 ^ 64" "0 < n"
  shows "disjoint (p + f) n (slot_addr p i) 8" "disjoint (slot_addr p i) 8 (p + f) n"
proof -
  have "disjoint (p + of_nat (unat f)) n (p + of_nat (72 + 8 * i)) 8"
    using assms by (intro disjoint_nat) auto
  then show "disjoint (p + f) n (slot_addr p i) 8" by (simp add: slot_addr_def)
  then show "disjoint (slot_addr p i) 8 (p + f) n" by (simp only: disjoint_sym)
qed

lemma disjoint_slots [mem_simps]:
  assumes "i \<noteq> j" "72 + 8 * i + 8 < 2 ^ 64" "72 + 8 * j + 8 < 2 ^ 64"
  shows "disjoint (slot_addr p i) 8 (slot_addr p j) 8"
  unfolding slot_addr_def using assms by (intro disjoint_nat) auto

lemma disjoint_field_index [mem_simps]:
  assumes "unat f + n \<le> 72" "pool_geom d" "i < unat (hpd_nrel d)" "0 < n"
  shows "disjoint (p + f) n (index_addr p d i) 8" "disjoint (index_addr p d i) 8 (p + f) n"
proof -
  have "disjoint (p + of_nat (unat f)) n (p + of_nat (chunk_off d i - 8)) 8"
    using assms chunk_off_bounds(1) [OF assms(2,3)] chunk_bound [OF assms(2,3)]
    by (intro disjoint_nat) auto
  then show "disjoint (p + f) n (index_addr p d i) 8" by (simp add: index_addr_def)
  then show "disjoint (index_addr p d i) 8 (p + f) n" by (simp only: disjoint_sym)
qed

lemma disjoint_slot_index [mem_simps]:
  assumes "pool_geom d" "i < unat (hpd_nrel d)" "j < unat (hpd_nrel d)"
  shows "disjoint (slot_addr p i) 8 (index_addr p d j) 8" "disjoint (index_addr p d j) 8 (slot_addr p i) 8"
proof -
  have "disjoint (p + of_nat (72 + 8 * i)) 8 (p + of_nat (chunk_off d j - 8)) 8"
    using assms chunk_off_bounds(1) [OF assms(1,3)] chunk_bound [OF assms(1,3)]
      slot_bound [OF assms(1,2)]
    by (intro disjoint_nat) auto
  then show "disjoint (slot_addr p i) 8 (index_addr p d j) 8" by (simp add: slot_addr_def index_addr_def)
  then show "disjoint (index_addr p d j) 8 (slot_addr p i) 8" by (simp only: disjoint_sym)
qed

lemma disjoint_indexes:
  assumes g: "pool_geom d" and i: "i < unat (hpd_nrel d)" and j: "j < unat (hpd_nrel d)" and ne: "i \<noteq> j"
  shows "disjoint (index_addr p d i) 8 (index_addr p d j) 8"
proof -
  have "chunk_off d i + 8 \<le> chunk_off d j \<or> chunk_off d j + 8 \<le> chunk_off d i"
    using ne g chunk_off_mono [of i j d] chunk_off_mono [of j i d]
    by (cases "i < j") (auto simp: pool_geom_def)
  then show ?thesis
    unfolding index_addr_def
    using chunk_bound [OF g i] chunk_bound [OF g j] chunk_off_bounds(1) [OF g i]
      chunk_off_bounds(1) [OF g j]
    by (intro disjoint_nat) linarith+
qed

text \<open>A chunk lies apart from the header, the index array, every hidden index and the other chunks.\<close>

lemma disjoint_chunk [mem_simps]:
  assumes g: "pool_geom d" "i < unat (hpd_nrel d)" and n: "n \<le> unat (hpd_szel d)"
  shows "unat f + k \<le> 72 \<Longrightarrow> disjoint (chunk_addr p d i) n (p + f) k"
    and "j < unat (hpd_nrel d) \<Longrightarrow> disjoint (chunk_addr p d i) n (slot_addr p j) 8"
    and "j < unat (hpd_nrel d) \<Longrightarrow> disjoint (chunk_addr p d i) n (index_addr p d j) 8"
    and "j < unat (hpd_nrel d) \<Longrightarrow> i \<noteq> j \<Longrightarrow> k \<le> unat (hpd_szel d) \<Longrightarrow>
      disjoint (chunk_addr p d i) n (chunk_addr p d j) k"
proof -
  note ci = chunk_off_bounds(1) [OF g] chunk_bound [OF g]
  have sz: "unat (hpd_szel d) + 8 \<le> unat (hpd_szck d)" using g(1) by (simp add: pool_geom_def)
  { assume "unat f + k \<le> 72"
    then have "disjoint (p + of_nat (chunk_off d i)) n (p + of_nat (unat f)) k"
      using ci n by (intro disjoint_nat) auto
    then show "disjoint (chunk_addr p d i) n (p + f) k" by (simp add: chunk_addr_def) }
  { assume j: "j < unat (hpd_nrel d)"
    then show "disjoint (chunk_addr p d i) n (slot_addr p j) 8"
      unfolding chunk_addr_def slot_addr_def using ci n by (intro disjoint_nat) auto
    have "i < j \<or> i = j \<or> j < i" by linarith
    then show "disjoint (chunk_addr p d i) n (index_addr p d j) 8"
      unfolding chunk_addr_def index_addr_def
      using ci n sz chunk_off_mono [of i j d] chunk_off_mono [of j i d]
        chunk_off_bounds(1) [OF g(1) j] chunk_bound [OF g(1) j]
      by (intro disjoint_nat) auto }
  { assume j: "j < unat (hpd_nrel d)" "i \<noteq> j" "k \<le> unat (hpd_szel d)"
    then have "i < j \<or> j < i" by linarith
    then show "disjoint (chunk_addr p d i) n (chunk_addr p d j) k"
      unfolding chunk_addr_def
      using ci n sz j chunk_off_mono [of i j d] chunk_off_mono [of j i d]
        chunk_bound [OF g(1) j(1)]
      by (intro disjoint_nat) auto }
qed

section \<open>Allocation and release keep the invariant\<close>

lemma disjoint_base [mem_simps]:
  fixes p :: u64
  assumes "n \<le> unat y" "unat y + k \<le> 2 ^ 64"
  shows "disjoint p n (p + y) k" "disjoint (p + y) k p n"
proof -
  show "disjoint p n (p + y) k" using disjoint_offsets [of 0 n y k p] assms by simp
  then show "disjoint (p + y) k p n" by (simp only: disjoint_sym)
qed

lemmas disjoint_base_slot [mem_simps] = disjoint_field_slot [where f = 0, simplified]
lemmas disjoint_base_index [mem_simps] = disjoint_field_index [where f = 0, simplified]
lemmas disjoint_chunk_base [mem_simps] = disjoint_chunk(1) [where f = 0, simplified]

lemma read_desc_iff:
  "read_desc m p = Some d \<longleftrightarrow>
     load64 m p = Some (hpd_next d) \<and> load64 m (at_szel p) = Some (hpd_szel d) \<and>
     load64 m (at_nrel p) = Some (hpd_nrel d) \<and> load64 m (at_nralloc p) = Some (hpd_nralloc d) \<and>
     load64 m (at_firstfree p) = Some (hpd_firstfree d) \<and> load64 m (at_szck p) = Some (hpd_szck d) \<and>
     load64 m (at_holesize p) = Some (hpd_holesize d) \<and>
     load64 m (at_allocsize p) = Some (hpd_allocsize d) \<and>
     load64 m (at_offfirstelem p) = Some (hpd_offfirstelem d)"
  by (cases d) (auto simp: read_desc_def bind_simps)

lemma mapped_parts [mem_simps]:
  assumes "mapped m p (unat (hpd_allocsize d))" "pool_geom d"
  shows "unat f + n \<le> 72 \<Longrightarrow> mapped m (p + f) n"
    and "i < unat (hpd_nrel d) \<Longrightarrow> mapped m (slot_addr p i) 8"
    and "i < unat (hpd_nrel d) \<Longrightarrow> mapped m (index_addr p d i) 8"
    and "i < unat (hpd_nrel d) \<Longrightarrow> n \<le> unat (hpd_szel d) \<Longrightarrow> mapped m (chunk_addr p d i) n"
proof -
  have sz: "80 + 8 * unat (hpd_nrel d) \<le> unat (hpd_allocsize d)"
    using assms(2) by (auto simp: pool_geom_def)
  show "mapped m (p + f) n" if "unat f + n \<le> 72"
    using that sz by (intro mapped_sub [OF assms(1)]) auto
  show "mapped m (slot_addr p i) 8" if "i < unat (hpd_nrel d)"
    unfolding slot_addr_def using that sz by (intro mapped_nat [OF assms(1)]) auto
  show "mapped m (index_addr p d i) 8" if i: "i < unat (hpd_nrel d)"
    unfolding index_addr_def using chunk_off_bounds [OF assms(2) i]
    by (intro mapped_nat [OF assms(1)]) auto
  show "mapped m (chunk_addr p d i) n" if i: "i < unat (hpd_nrel d)" "n \<le> unat (hpd_szel d)"
    unfolding chunk_addr_def using i(2) chunk_off_bounds [OF assms(2) i(1)]
    by (intro mapped_nat [OF assms(1)]) auto
qed

text \<open>Stores into a pool leave everything outside their part of it alone.\<close>

lemma put64_outside:
  fixes p :: u64
  assumes "k + 8 \<le> l" "l \<le> unat (x - p)"
  shows "put64 m (p + of_nat k) v x = m x"
  unfolding put64_def
proof (rule put_bytes_outside)
  fix i assume "i < length (le_bytes 8 v)"
  then have ki: "k + i < l" using assms(1) by simp
  show "x \<noteq> p + of_nat k + of_nat i"
  proof
    assume "x = p + of_nat k + of_nat i"
    then have eq: "x - p = of_nat (k + i)" by simp
    have "k + i < 2 ^ 64" using ki assms(2) unsigned_less [of "x - p", where ?'a = nat] by simp
    then have "unat (x - p) = k + i" unfolding eq by (intro unat_of_nat_less) simp
    then show False using assms(2) ki by simp
  qed
qed

definition meta_frame :: "u64 \<Rightarrow> heap_pool_desc \<Rightarrow> mem \<Rightarrow> mem \<Rightarrow> bool" where
  "meta_frame p d m m' \<longleftrightarrow> (\<forall>x. 72 + 8 * unat (hpd_nrel d) \<le> unat (x - p) \<longrightarrow> m' x = m x)"

lemma meta_frame_refl [simp]: "meta_frame p d m m"
  by (simp add: meta_frame_def)

lemma meta_frame_trans: "meta_frame p d m1 m2 \<Longrightarrow> meta_frame p d m2 m3 \<Longrightarrow> meta_frame p d m1 m3"
  by (simp add: meta_frame_def)

lemma meta_frame_field: "unat f + 8 \<le> 72 \<Longrightarrow> meta_frame p d m m' \<Longrightarrow> meta_frame p d m (put64 m' (p + f) v)"
  using put64_outside [of "unat f" "72 + 8 * unat (hpd_nrel d)" _ p m' v]
  by (simp add: meta_frame_def)

lemma meta_frame_slot:
  "i < unat (hpd_nrel d) \<Longrightarrow> meta_frame p d m m' \<Longrightarrow> meta_frame p d m (put64 m' (slot_addr p i) v)"
  using put64_outside [of "72 + 8 * i" "72 + 8 * unat (hpd_nrel d)" _ p m' v]
  unfolding slot_addr_def meta_frame_def by simp

lemma put64_parts_outside:
  assumes "pool_geom d" "hpd_allocsize d \<le> x - p"
  shows "unat f + 8 \<le> 72 \<Longrightarrow> put64 m (p + f) v x = m x"
    and "i < unat (hpd_nrel d) \<Longrightarrow> put64 m (slot_addr p i) v x = m x"
    and "i < unat (hpd_nrel d) \<Longrightarrow> put64 m (index_addr p d i) v x = m x"
proof -
  have sz: "80 + 8 * unat (hpd_nrel d) \<le> unat (hpd_allocsize d)"
    using assms(1) by (auto simp: pool_geom_def)
  have le: "unat (hpd_allocsize d) \<le> unat (x - p)" using assms(2) by (simp add: word_le_nat_alt)
  { assume "unat f + 8 \<le> 72"
    then have "put64 m (p + of_nat (unat f)) v x = m x"
      using sz by (intro put64_outside [OF _ le]) auto
    then show "put64 m (p + f) v x = m x" by simp }
  { assume i: "i < unat (hpd_nrel d)"
    show "put64 m (slot_addr p i) v x = m x"
      unfolding slot_addr_def using sz i by (intro put64_outside [OF _ le]) auto
    show "put64 m (index_addr p d i) v x = m x"
      unfolding index_addr_def using chunk_off_bounds [OF assms(1) i]
      by (intro put64_outside [OF _ le]) auto }
qed

lemma meta_frame_outside:
  "meta_frame p d m m' \<Longrightarrow> pool_geom d \<Longrightarrow> hpd_allocsize d \<le> x - p \<Longrightarrow> m' x = m x"
  by (auto simp: meta_frame_def pool_geom_def word_le_nat_alt)

lemma meta_frame_chunk:
  assumes "meta_frame p d m m'" "pool_geom d" "i < unat (hpd_nrel d)" "n \<le> unat (hpd_szel d)"
  shows "load_bytes m' (chunk_addr p d i) n = load_bytes m (chunk_addr p d i) n"
proof (rule load_bytes_cong)
  fix k assume "k < n"
  then have "chunk_off d i + k < 2 ^ 64" using chunk_bound [OF assms(2,3)] assms(4) by simp
  then have "unat (of_nat (chunk_off d i + k) :: u64) = chunk_off d i + k"
    by (intro unat_of_nat_less) simp
  moreover have eq: "chunk_addr p d i + of_nat k - p = of_nat (chunk_off d i + k)"
    by (simp add: chunk_addr_def)
  ultimately have "72 + 8 * unat (hpd_nrel d) \<le> unat (chunk_addr p d i + of_nat k - p)"
    using chunk_off_bounds(1) [OF assms(2,3)] unfolding eq by linarith
  then show "m' (chunk_addr p d i + of_nat k) = m (chunk_addr p d i + of_nat k)"
    using assms(1) by (simp add: meta_frame_def)
qed

lemma free_chain_cong:
  "(\<And>i. i \<in> set is \<Longrightarrow> load64 m' (slot_addr p i) = load64 m (slot_addr p i)) \<Longrightarrow>
   free_chain m' p x is = free_chain m p x is"
  by (induction "is" arbitrary: x) (auto split: option.splits)

lemma pool_inv_nralloc:
  assumes "pool_inv m p d fl"
  shows "hpd_nrel d - hpd_nralloc d = of_nat (length fl)"
    and "hpd_nrel d - hpd_nralloc d = 0 \<longleftrightarrow> fl = []"
proof -
  have len: "length fl + unat (hpd_nralloc d) = unat (hpd_nrel d)"
    using assms by (simp add: pool_inv_def)
  then have "of_nat (length fl + unat (hpd_nralloc d)) = (of_nat (unat (hpd_nrel d)) :: u64)" by simp
  then show eq: "hpd_nrel d - hpd_nralloc d = of_nat (length fl)" by (simp add: algebra_simps)
  have "length fl < 2 ^ 64"
    using len unsigned_less [of "hpd_nrel d", where ?'a = nat] by simp
  then show "hpd_nrel d - hpd_nralloc d = 0 \<longleftrightarrow> fl = []"
    unfolding eq using of_nat_word_inject [of "length fl" 0, where ?'a = 64] by simp
qed

lemma nb_free_inv:
  assumes "pool_inv m p d fl"
  shows "heap_pool_nb_free m p = Some (of_nat (length fl))"
  using assms pool_inv_nralloc(1) [OF assms]
  by (simp add: heap_pool_nb_free_def pool_inv_def read_desc_iff)

lemma heap_pool_alloc_empty:
  assumes "pool_inv m p d []"
  shows "heap_pool_alloc m p = Some (- ENOMEM, m)"
  by (simp add: heap_pool_alloc_def nb_free_inv [OF assms])

lemma heap_pool_alloc_take:
  assumes inv: "pool_inv m p d (i # fl)"
  shows "\<exists>y m'. heap_pool_alloc m p = Some (chunk_addr p d i, m') \<and>
    pool_inv m' p (d\<lparr>hpd_firstfree := y, hpd_nralloc := hpd_nralloc d + 1\<rparr>) fl \<and>
    m' = put64 (put64 m (at_firstfree p) y) (at_nralloc p) (hpd_nralloc d + 1)"
proof -
  from inv obtain y where y: "load64 m (slot_addr p i) = Some y" "free_chain m p y fl"
    and ff: "hpd_firstfree d = of_nat i"
    by (auto simp: pool_inv_def split: option.splits)
  have geo: "pool_geom d" "mapped m p (unat (hpd_allocsize d))" and i: "i < unat (hpd_nrel d)"
    and fl: "i \<notin> set fl" "set fl \<subseteq> {..<unat (hpd_nrel d)}"
    and len: "Suc (length fl) + unat (hpd_nralloc d) = unat (hpd_nrel d)"
    and rd: "read_desc m p = Some d"
    using inv by (auto simp: pool_inv_def)
  let ?m1 = "put64 m (at_firstfree p) y"
  let ?m2 = "put64 ?m1 (at_nralloc p) (hpd_nralloc d + 1)"
  let ?d = "d\<lparr>hpd_firstfree := y, hpd_nralloc := hpd_nralloc d + 1\<rparr>"
  have mp: "mapped m (at_firstfree p) 8" "mapped ?m1 (at_nralloc p) 8"
    using geo by (simp_all add: mem_simps)
  note ld = rd [unfolded read_desc_iff]
  have "heap_pool_nb_free m p = Some (hpd_nrel d - hpd_nralloc d)"
    "hpd_nrel d - hpd_nralloc d \<noteq> 0"
    using ld pool_inv_nralloc(2) [OF inv] by (simp_all add: heap_pool_nb_free_def)
  then have run: "heap_pool_alloc m p = Some (chunk_addr p d i, ?m2)"
    using mp ld y ff
    by (simp add: heap_pool_alloc_def HEAP_POOL_GET_NTH_CHUNK_def store64_def array_index_slot
      chunk_addr_code mem_simps of_nat_word_inject)
  moreover have "pool_inv ?m2 p ?d fl"
    unfolding pool_inv_def
  proof (intro conjI)
    show "read_desc ?m2 p = Some ?d" using ld by (simp add: read_desc_iff mem_simps)
    show "mapped ?m2 p (unat (hpd_allocsize ?d))" using geo(2) mp by (simp add: mem_simps)
    show "\<forall>j<unat (hpd_nrel ?d). load64 ?m2 (index_addr p ?d j) = Some (of_nat j)"
      using inv geo(1) by (auto simp: pool_inv_def mem_simps)
    show "free_chain ?m2 p (hpd_firstfree ?d) fl"
      using y(2) fl(2) slot_bound [OF geo(1)]
      by (subst free_chain_cong [where m = m]) (auto simp: mem_simps)
    show "length fl + unat (hpd_nralloc ?d) = unat (hpd_nrel ?d)"
      using len unsigned_less [of "hpd_nrel d", where ?'a = nat]
      by (simp add: unat_add_no_wrap)
  qed (use inv geo(1) in \<open>auto simp: pool_inv_def\<close>)
  ultimately show ?thesis by blast
qed

lemma heap_pool_free_put:
  assumes inv: "pool_inv m p d fl" and i: "i < unat (hpd_nrel d)" "i \<notin> set fl"
  shows "\<exists>m'. heap_pool_free m p (chunk_addr p d i) = Some m' \<and>
    pool_inv m' p (d\<lparr>hpd_firstfree := of_nat i, hpd_nralloc := hpd_nralloc d - 1\<rparr>) (i # fl) \<and>
    m' = put64 (put64 (put64 m (slot_addr p i) (hpd_firstfree d)) (at_firstfree p) (of_nat i))
      (at_nralloc p) (hpd_nralloc d - 1)"
proof -
  have geo: "pool_geom d" "mapped m p (unat (hpd_allocsize d))"
    and fl: "distinct fl" "set fl \<subseteq> {..<unat (hpd_nrel d)}"
    and len: "length fl + unat (hpd_nralloc d) = unat (hpd_nrel d)"
    and rd: "read_desc m p = Some d"
    and idx: "load64 m (index_addr p d i) = Some (of_nat i)"
    and ch: "free_chain m p (hpd_firstfree d) fl"
    using inv i by (auto simp: pool_inv_def)
  let ?m1 = "put64 m (slot_addr p i) (hpd_firstfree d)"
  let ?m2 = "put64 ?m1 (at_firstfree p) (of_nat i)"
  let ?m3 = "put64 ?m2 (at_nralloc p) (hpd_nralloc d - 1)"
  let ?d = "d\<lparr>hpd_firstfree := of_nat i, hpd_nralloc := hpd_nralloc d - 1\<rparr>"
  note ld = rd [unfolded read_desc_iff] and sb = slot_bound [OF geo(1)]
  have mp: "mapped m (slot_addr p i) 8" "mapped ?m1 (at_firstfree p) 8"
    "mapped ?m2 (at_nralloc p) 8"
    using geo i by (simp_all add: mem_simps)
  have "heap_pool_free m p (chunk_addr p d i) = Some ?m3"
    using mp ld idx sb [OF i(1)]
    by (simp add: heap_pool_free_def store64_def array_index_slot index_addr_chunk_addr geo i mem_simps)
  moreover have "pool_inv ?m3 p ?d (i # fl)"
    unfolding pool_inv_def
  proof (intro conjI)
    show "read_desc ?m3 p = Some ?d" using ld sb [OF i(1)] by (simp add: read_desc_iff mem_simps)
    show "mapped ?m3 p (unat (hpd_allocsize ?d))" using geo(2) mp by (simp add: mem_simps)
    show "\<forall>j<unat (hpd_nrel ?d). load64 ?m3 (index_addr p ?d j) = Some (of_nat j)"
      using inv geo(1) i by (auto simp: pool_inv_def mem_simps)
    have "free_chain ?m3 p (hpd_firstfree d) fl"
    proof (subst free_chain_cong [where m = m])
      fix j assume "j \<in> set fl"
      then have "j < unat (hpd_nrel d)" "i \<noteq> j" using fl(2) i(2) by auto
      then show "load64 ?m3 (slot_addr p j) = load64 m (slot_addr p j)"
        using sb [of j] sb [OF i(1)] by (simp add: mem_simps)
    qed (rule ch)
    then show "free_chain ?m3 p (hpd_firstfree ?d) (i # fl)"
      using sb [OF i(1)] by (simp add: mem_simps)
    have "card (set fl) < unat (hpd_nrel d)"
      using i fl by (metis card_lessThan finite_lessThan lessThan_iff psubsetI psubset_card_mono)
    then have "0 < unat (hpd_nralloc d)" using len fl(1) by (simp add: distinct_card)
    then show "length (i # fl) + unat (hpd_nralloc ?d) = unat (hpd_nrel ?d)"
      using len by (simp add: unat_sub_no_wrap)
  qed (use inv geo(1) i in \<open>auto simp: pool_inv_def\<close>)
  ultimately show ?thesis by blast
qed

text \<open>A client may write anything into a chunk: the pool does not notice.\<close>

lemma client_write_inv:
  assumes inv: "pool_inv m p d fl" and i: "i < unat (hpd_nrel d)" "length bs \<le> unat (hpd_szel d)"
  shows "\<exists>m'. store_bytes m (chunk_addr p d i) bs = Some m' \<and> pool_inv m' p d fl"
proof -
  have geo: "pool_geom d" "mapped m p (unat (hpd_allocsize d))"
    and fl: "set fl \<subseteq> {..<unat (hpd_nrel d)}"
    and ch: "free_chain m p (hpd_firstfree d) fl"
    and rd: "read_desc m p = Some d"
    using inv by (auto simp: pool_inv_def)
  have mp: "mapped m (chunk_addr p d i) (length bs)" using geo i by (simp add: mem_simps)
  let ?m = "put_bytes m (chunk_addr p d i) bs"
  have "pool_inv ?m p d fl"
    unfolding pool_inv_def
  proof (intro conjI)
    show "read_desc ?m p = Some d"
      using rd geo i unfolding read_desc_iff by (simp add: mem_simps)
    show "mapped ?m p (unat (hpd_allocsize d))" using geo(2) mp by (simp add: mem_simps)
    show "\<forall>j<unat (hpd_nrel d). load64 ?m (index_addr p d j) = Some (of_nat j)"
      using inv geo(1) i by (auto simp: pool_inv_def mem_simps)
    show "free_chain ?m p (hpd_firstfree d) fl"
      using ch fl i geo(1) by (subst free_chain_cong [where m = m]) (auto simp: mem_simps)
  qed (use inv geo(1) in \<open>auto simp: pool_inv_def\<close>)
  then show ?thesis using mp by (simp add: store_bytes_def)
qed

end
