(* ===== verification/Heap_Pool_Create.thy ===== *)
theory Heap_Pool_Create
  imports Heap_Pool
begin

text \<open>
  The correctness of \<open>heap_pool_create\<close>: the initialisation loop establishes the free list and
  the hidden indices, the assertion on the alignment never fires, and the new pool satisfies
  \<open>pool_inv\<close> with every chunk free.
\<close>

definition aligned_to :: "u64 \<Rightarrow> u64 \<Rightarrow> bool" where
  "aligned_to a x \<longleftrightarrow> a = 0 \<or> x mod a = 0"

lemma chunk_addr_Suc: "chunk_addr p d i + hpd_szck d = chunk_addr p d (Suc i)"
  by (simp add: chunk_addr_code algebra_simps)

lemma slot_addr_Suc: "slot_addr p i + 8 = slot_addr p (Suc i)"
  by (simp add: slot_addr_def algebra_simps)

definition loop_done :: "mem \<Rightarrow> mem \<Rightarrow> u64 \<Rightarrow> heap_pool_desc \<Rightarrow> nat \<Rightarrow> bool" where
  "loop_done m0 m p d i \<longleftrightarrow> read_desc m p = Some d \<and> mapped m p (unat (hpd_allocsize d)) \<and>
     (\<forall>j<i. load64 m (slot_addr p j) = Some (of_nat (Suc j)) \<and>
            load64 m (index_addr p d j) = Some (of_nat j)) \<and>
     (\<forall>x. hpd_allocsize d \<le> x - p \<longrightarrow> m x = m0 x)"

lemma loop_done_step:
  assumes geo: "pool_geom d" and i: "i < unat (hpd_nrel d)" and ld: "loop_done m0 m p d i"
  defines "m1 \<equiv> put64 m (slot_addr p i) (of_nat (Suc i))"
  defines "m2 \<equiv> put64 m1 (index_addr p d i) (of_nat i)"
  shows "mapped m (slot_addr p i) 8" "mapped m1 (index_addr p d i) 8" "loop_done m0 m2 p d (Suc i)"
proof -
  note sb = slot_bound [OF geo]
  have rd: "read_desc m p = Some d" and mp: "mapped m p (unat (hpd_allocsize d))"
    using ld by (auto simp: loop_done_def)
  show mapd: "mapped m (slot_addr p i) 8" using mp geo i by (simp add: mem_simps)
  show mapd1: "mapped m1 (index_addr p d i) 8" using mapd mp geo i by (simp add: m1_def mem_simps)
  have "read_desc m2 p = Some d"
    using rd geo i sb [OF i] unfolding read_desc_iff m2_def m1_def by (simp add: mem_simps)
  moreover have "mapped m2 p (unat (hpd_allocsize d))"
    using mp mapd mapd1 by (simp add: m2_def m1_def mem_simps)
  moreover have "load64 m2 (slot_addr p j) = Some (of_nat (Suc j)) \<and>
      load64 m2 (index_addr p d j) = Some (of_nat j)" if "j < Suc i" for j
  proof -
    have j: "j < unat (hpd_nrel d)" using that i by simp
    show ?thesis
    proof (cases "j = i")
      case True
      then show ?thesis using geo i by (simp add: m2_def m1_def mem_simps)
    next
      case False
      have "disjoint (index_addr p d i) 8 (index_addr p d j) 8"
        using False i j geo by (intro disjoint_indexes) auto
      then show ?thesis using that False ld geo i j sb [OF i] sb [OF j]
        by (simp add: m2_def m1_def loop_done_def mem_simps)
    qed
  qed
  moreover have "m2 x = m0 x" if "hpd_allocsize d \<le> x - p" for x
    using that ld put64_parts_outside(2,3) [OF geo that i]
    by (simp add: m2_def m1_def loop_done_def)
  ultimately show "loop_done m0 m2 p d (Suc i)" by (simp add: loop_done_def)
qed

lemma create_loop_done:
  assumes geo: "pool_geom d" and al: "\<forall>i<unat (hpd_nrel d). aligned_to a (chunk_addr p d i)"
  shows "i \<le> unat (hpd_nrel d) \<Longrightarrow> loop_done m0 m p d i \<Longrightarrow>
    \<exists>m'. create_loop m (hpd_nrel d) (hpd_szck d) a (of_nat i) (slot_addr p i) (chunk_addr p d i) =
      Some m' \<and> loop_done m0 m' p d (unat (hpd_nrel d))"
proof (induction "unat (hpd_nrel d) - i" arbitrary: i m)
  case 0
  then have "i = unat (hpd_nrel d)" by simp
  then show ?case using 0 by (simp add: create_loop.simps)
next
  case (Suc n)
  then have i: "i < unat (hpd_nrel d)" by simp
  then have lt: "(of_nat i :: u64) < hpd_nrel d"
    using unsigned_less [of "hpd_nrel d", where ?'a = nat]
    by (simp add: word_less_nat_alt unat_of_nat_less)
  let ?m1 = "put64 m (slot_addr p i) (of_nat (Suc i))"
  let ?m2 = "put64 ?m1 (index_addr p d i) (of_nat i)"
  note st = loop_done_step [OF geo i Suc.prems(2)]
  obtain m' where m': "create_loop ?m2 (hpd_nrel d) (hpd_szck d) a (of_nat (Suc i))
      (slot_addr p (Suc i)) (chunk_addr p d (Suc i)) = Some m'"
    "loop_done m0 m' p d (unat (hpd_nrel d))"
  proof -
    have "n = unat (hpd_nrel d) - Suc i" using Suc.hyps(2) by simp
    from Suc.hyps(1) [OF this Suc_leI [OF i] st(3)] that show thesis by blast
  qed
  have "create_loop m (hpd_nrel d) (hpd_szck d) a (of_nat i) (slot_addr p i) (chunk_addr p d i) =
      Some m'"
    using lt st(1,2) al i m'(1) geo
    by (subst create_loop.simps)
       (simp add: store64_def index_addr_chunk_addr aligned_to_def chunk_addr_Suc slot_addr_Suc
         add.commute [of _ 1])
  with m'(2) show ?case by blast
qed

lemma free_chain_initial:
  assumes "\<forall>j<n. load64 m (slot_addr p j) = Some (of_nat (Suc j))"
  shows "i \<le> n \<Longrightarrow> free_chain m p (of_nat i) [i..<n]"
proof (induction "n - i" arbitrary: i)
  case 0
  then show ?case by simp
next
  case (Suc k)
  then have "free_chain m p (of_nat (Suc i)) [Suc i..<n]" by (intro Suc.hyps(1)) auto
  then show ?case using Suc assms by (simp add: upt_conv_Cons)
qed

lemma loop_done_pool_inv:
  assumes "pool_geom d" "loop_done m0 m p d (unat (hpd_nrel d))"
    and "hpd_firstfree d = 0" "hpd_nralloc d = 0"
  shows "pool_inv m p d [0..<unat (hpd_nrel d)]"
  using assms free_chain_initial [of "unat (hpd_nrel d)" m p 0]
  by (auto simp: pool_inv_def loop_done_def)

section \<open>A new pool satisfies the invariant\<close>

definition create_desc :: "u64 \<Rightarrow> u64 \<Rightarrow> u64 \<Rightarrow> u64 \<Rightarrow> u64 \<Rightarrow> heap_pool_desc" where
  "create_desc pagesize p nb sz a =
     (let alloc = create_allocsize pagesize nb sz a; n = create_nrel alloc sz a
      in \<lparr>hpd_next = 0, hpd_szel = sz, hpd_nrel = n, hpd_nralloc = 0, hpd_firstfree = 0,
          hpd_szck = create_holesize sz a + sz, hpd_holesize = create_holesize sz a,
          hpd_allocsize = alloc,
          hpd_offfirstelem =
            ALIGN_PTR (p + 72 + 8 * n + create_align a) (create_align a) - p\<rparr>)"

definition map_ok :: "u64 \<Rightarrow> u64 \<Rightarrow> u64 \<Rightarrow> bool" where
  "map_ok pagesize p len \<longleftrightarrow> unat pagesize dvd unat p \<and> unat p + unat len \<le> 2 ^ 63"

lemma create_desc_geom:
  assumes req: "request_ok pagesize nb sz a" and mo: "map_ok pagesize p (create_allocsize pagesize nb sz a)"
  defines "d \<equiv> create_desc pagesize p nb sz a"
  shows "pool_geom d" and "\<forall>i<unat (hpd_nrel d). aligned_to a (chunk_addr p d i)"
    and "unat (hpd_szck d) = unat (create_holesize sz a) + unat sz"
proof -
  have page: "unat pagesize dvd unat p" "unat p + unat (create_allocsize pagesize nb sz a) \<le> 2 ^ 63"
    using mo by (auto simp: map_ok_def)
  note fc = create_first_chunk [OF req page]
  note ho = create_holesize_request [OF req]
  have "unat (8 + sz + create_holesize sz a) = 8 + unat sz + unat (create_holesize sz a)"
    by (rule create_allocsize_request(4) [OF req])
  then have "8 + unat sz + unat (create_holesize sz a) < 2 ^ 64"
    using unsigned_less [of "8 + sz + create_holesize sz a", where ?'a = nat] by simp
  then show sz: "unat (hpd_szck d) = unat (create_holesize sz a) + unat sz"
    unfolding d_def create_desc_def Let_def by (simp add: unat_add_no_wrap)
  show geo: "pool_geom d"
    using fc(1,2) ho(1) sz
    by (simp add: pool_geom_def d_def create_desc_def Let_def add.commute)
  show "\<forall>i<unat (hpd_nrel d). aligned_to a (chunk_addr p d i)"
  proof (intro allI impI)
    fix i assume i: "i < unat (hpd_nrel d)"
    show "aligned_to a (chunk_addr p d i)"
    proof (cases "1 < unat a")
      case False
      then have "unat a = 0 \<or> unat a = 1" by linarith
      then have "a = 0 \<or> a = 1" by (metis unat_0 unat_1 word_unat_eq_iff)
      then show ?thesis by (auto simp: aligned_to_def)
    next
      case True
      have "chunk_off d i \<le> unat (hpd_allocsize d)" using chunk_off_bounds(2) [OF geo i] by simp
      then have "chunk_off d i + unat p < 2 ^ 64"
        using page(2) by (simp add: d_def create_desc_def Let_def)
      then have "unat (chunk_addr p d i) = unat p + chunk_off d i"
        unfolding chunk_addr_def by (subst unat_add_no_wrap) (simp_all add: unat_of_nat_less)
      moreover have "unat a dvd unat p + unat (hpd_offfirstelem d)"
      proof -
        have "unat a dvd unat (create_align a)"
          using True by (intro dvd_create_align [OF req]) auto
        then show ?thesis using fc(3) by (auto simp: d_def create_desc_def Let_def intro: dvd_trans)
      qed
      moreover have "unat a dvd i * unat (hpd_szck d)" using ho(3) [OF True] sz by simp
      ultimately have "unat a dvd unat (chunk_addr p d i)"
        by (simp add: chunk_off_def flip: add.assoc)
      then have "unat (chunk_addr p d i mod a) = 0" by (simp add: unat_mod)
      then show ?thesis by (simp add: aligned_to_def unat_eq_zero)
    qed
  qed
qed

lemma mmap_anon_mapped: "mapped (snd (mmap_anon m (Some p) len)) p (unat len)"
  unfolding mapped_def mmap_anon_def
proof (intro allI impI)
  fix i assume "i < unat len"
  then have "(of_nat i :: u64) < len"
    using unsigned_less [of len, where ?'a = nat] by (simp add: word_less_nat_alt unat_of_nat_less)
  then show "snd (case Some p of None \<Rightarrow> (MAP_FAILED, m)
      | Some a \<Rightarrow> (a, \<lambda>x. if x - a < len then Some 0 else m x)) (p + of_nat i) \<noteq> None" by simp
qed

lemma heap_pool_create_run:
  assumes req: "request_ok pagesize nb sz a"
    and mo: "map_ok pagesize p (create_allocsize pagesize nb sz a)"
  defines "d \<equiv> create_desc pagesize p nb sz a"
  shows "\<exists>m'. heap_pool_create m pagesize (Some p) nb sz a = Some (p, m') \<and>
    pool_inv m' p d [0..<unat (hpd_nrel d)] \<and> (\<forall>x. hpd_allocsize d \<le> x - p \<longrightarrow> m' x = m x)"
proof -
  let ?L = "create_allocsize pagesize nb sz a"
  let ?N = "create_nrel ?L sz a"
  let ?m0 = "snd (mmap_anon m (Some p) ?L)"
  let ?off = "ALIGN_PTR (at_raw p + 8 * ?N + create_align a) (create_align a)"
  note g = create_desc_geom [OF req mo, folded d_def]
  have dfields: "hpd_next d = 0" "hpd_szel d = sz" "hpd_nrel d = ?N" "hpd_nralloc d = 0"
    "hpd_firstfree d = 0" "hpd_szck d = create_holesize sz a + sz"
    "hpd_holesize d = create_holesize sz a" "hpd_allocsize d = ?L" "hpd_offfirstelem d = ?off - p"
    by (simp_all add: d_def create_desc_def Let_def)
  have al: "\<not> (a \<noteq> 0 \<and> \<not> is_power_of_two a)" using req by (auto simp: request_ok_def)
  have nf: "p \<noteq> MAP_FAILED" using mo unat_err_value [of 1] by (auto simp: map_ok_def MAP_FAILED_def)
  have div: "8 + create_holesize sz a + sz \<noteq> 0"
  proof
    assume "8 + create_holesize sz a + sz = 0"
    then have "unat (8 + sz + create_holesize sz a) = 0" by (simp add: algebra_simps)
    then show False using create_allocsize_request(4) [OF req] by simp
  qed
  define m9 where "m9 = put64 (put64 (put64 (put64 (put64 (put64 (put64 (put64 (put64 ?m0 p 0)
    (at_szel p) sz) (at_nrel p) ?N) (at_nralloc p) 0) (at_firstfree p) 0)
    (at_szck p) (create_holesize sz a + sz)) (at_holesize p) (create_holesize sz a))
    (at_allocsize p) ?L) (at_offfirstelem p) (?off - p)"
  have map0: "mapped ?m0 p (unat (hpd_allocsize d))" by (simp add: dfields mmap_anon_mapped)
  have f: "unat f + 8 \<le> 72 \<Longrightarrow> mapped ?m0 (p + f) 8" for f
    using map0 g(1) by (simp add: mem_simps)
  note fs = f [of 0, simplified] f [of 8, simplified] f [of 16, simplified] f [of 24, simplified]
    f [of 32, simplified] f [of 40, simplified] f [of 48, simplified] f [of 56, simplified]
    f [of 64, simplified]
  have out: "?m0 x = m x" if "hpd_allocsize d \<le> x - p" for x
    using that by (simp add: mmap_anon_def dfields not_less [symmetric])
  have "m9 x = m x" if "hpd_allocsize d \<le> x - p" for x
    using out [OF that] put64_parts_outside(1) [OF g(1) that]
      put64_parts_outside(1) [OF g(1) that, of 0, simplified] by (simp add: m9_def)
  then have "loop_done m m9 p d 0"
    using map0 fs by (simp add: loop_done_def m9_def read_desc_iff dfields mem_simps)
  then obtain m' where m': "create_loop m9 (hpd_nrel d) (hpd_szck d) a 0 (slot_addr p 0)
      (chunk_addr p d 0) = Some m'" "loop_done m m' p d (unat (hpd_nrel d))"
    using create_loop_done [OF g(1,2), of 0 m m9] by auto
  have "heap_pool_create m pagesize (Some p) nb sz a = Some (p, m')"
    unfolding heap_pool_create_def if_not_P [OF al]
    using nf div fs m'(1)
    by (simp add: Let_def mmap_anon_def store64_def mem_simps m9_def
      dfields slot_addr_def chunk_addr_def chunk_off_def add.commute)
  moreover have "pool_inv m' p d [0..<unat (hpd_nrel d)]"
    using loop_done_pool_inv [OF g(1) m'(2)] by (simp add: dfields)
  moreover have "\<forall>x. hpd_allocsize d \<le> x - p \<longrightarrow> m' x = m x" using m'(2) by (simp add: loop_done_def)
  ultimately show ?thesis by blast
qed

end
