(* ===== verification/Pool_Iface.thy ===== *)
theory Pool_Iface
  imports Prelude
begin

text \<open>
  What a client of a fixed-size pool relies on, as a locale: \<open>avail s fl\<close> says that the chunks
  \<open>fl\<close> are free in state \<open>s\<close>, in the order they will be handed out. The lemmas are about the
  loops a client runs, whatever the pool.
\<close>

section \<open>The interface\<close>

text \<open>
  A loop that allocates until \<open>n\<close> objects are held or an allocation reports an error: the objects
  held, the error value if there was one, and the state.
\<close>

fun drain ::
  "('s \<Rightarrow> ('c \<times> 's) option) \<Rightarrow> ('c \<Rightarrow> bool) \<Rightarrow> nat \<Rightarrow> 's \<Rightarrow> ('c list \<times> 'c option \<times> 's) option"
where
  "drain alloc err 0 s = Some ([], None, s)"
| "drain alloc err (Suc n) s = do {
     (c, s) \<leftarrow> alloc s;
     if err c then Some ([], Some c, s)
     else do { (cs, e, s) \<leftarrow> drain alloc err n s; Some (c # cs, e, s) } }"

fun release_all :: "('s \<Rightarrow> 'c \<Rightarrow> 's option) \<Rightarrow> 'c list \<Rightarrow> 's \<Rightarrow> 's option" where
  "release_all free [] s = Some s"
| "release_all free (c # cs) s = do { s \<leftarrow> free s c; release_all free cs s }"

locale chunk_pool =
  fixes alloc :: "'s \<Rightarrow> ('c \<times> 's) option"
    and free :: "'s \<Rightarrow> 'c \<Rightarrow> 's option"
    and err :: "'c \<Rightarrow> bool"
    and avail :: "'s \<Rightarrow> 'c list \<Rightarrow> bool"
    and chunks :: "'c set"
  assumes avail_distinct: "avail s fl \<Longrightarrow> distinct fl \<and> set fl \<subseteq> chunks"
    and alloc_take: "avail s (c # fl) \<Longrightarrow> \<exists>s'. alloc s = Some (c, s') \<and> avail s' fl"
    and alloc_empty: "avail s [] \<Longrightarrow> \<exists>e. alloc s = Some (e, s) \<and> err e"
    and free_put: "avail s fl \<Longrightarrow> c \<in> chunks \<Longrightarrow> c \<notin> set fl \<Longrightarrow>
      \<exists>s'. free s c = Some s' \<and> avail s' (c # fl)"
    and chunk_not_err: "c \<in> chunks \<Longrightarrow> \<not> err c"
begin

lemma drain_take:
  "avail s fl \<Longrightarrow> \<exists>e s'. drain alloc err n s = Some (take n fl, e, s') \<and>
     avail s' (drop n fl) \<and> (e = None \<longleftrightarrow> n \<le> length fl)"
proof (induction n arbitrary: s fl)
  case 0
  then show ?case by simp
next
  case (Suc n)
  show ?case
  proof (cases fl)
    case Nil
    then obtain e where "alloc s = Some (e, s)" "err e" using alloc_empty Suc.prems by blast
    then show ?thesis using Nil Suc.prems by simp
  next
    case (Cons c fl')
    then obtain s1 where s1: "alloc s = Some (c, s1)" "avail s1 fl'"
      using alloc_take Suc.prems by blast
    have "\<not> err c" using avail_distinct [OF Suc.prems] Cons chunk_not_err by auto
    then show ?thesis using s1 Suc.IH [OF s1(2)] Cons by auto
  qed
qed

lemma release_put:
  "avail s fl \<Longrightarrow> distinct cs \<Longrightarrow> set cs \<subseteq> chunks \<Longrightarrow> set cs \<inter> set fl = {} \<Longrightarrow>
   \<exists>s'. release_all free cs s = Some s' \<and> avail s' (rev cs @ fl)"
proof (induction cs arbitrary: s fl)
  case Nil
  then show ?case by simp
next
  case (Cons c cs)
  then obtain s1 where s1: "free s c = Some s1" "avail s1 (c # fl)"
    using free_put [of s fl c] by auto
  moreover obtain s' where "release_all free cs s1 = Some s'" "avail s' (rev cs @ c # fl)"
    using Cons.IH [OF s1(2)] Cons.prems by auto
  ultimately show ?case by simp
qed

lemma drain_release:
  assumes "avail s fl"
  shows "\<exists>e s1 s2. drain alloc err n s = Some (take n fl, e, s1) \<and> (e = None \<longleftrightarrow> n \<le> length fl) \<and>
    release_all free (take n fl) s1 = Some s2 \<and> avail s2 (rev (take n fl) @ drop n fl)"
proof -
  obtain e s1 where s1: "drain alloc err n s = Some (take n fl, e, s1)" "avail s1 (drop n fl)"
    "e = None \<longleftrightarrow> n \<le> length fl"
    using drain_take [OF assms] by blast
  have d: "distinct (take n fl @ drop n fl)" "set fl \<subseteq> chunks" using avail_distinct [OF assms] by auto
  have "set (take n fl) \<subseteq> chunks" using d(2) set_take_subset by fast
  moreover have "distinct (take n fl)" "set (take n fl) \<inter> set (drop n fl) = {}"
    using d(1) by (simp_all only: distinct_append)
  ultimately show ?thesis using s1 release_put [OF s1(2)] by blast
qed

lemma free_alloc_same:
  assumes "avail s fl" "c \<in> chunks" "c \<notin> set fl"
  shows "\<exists>s1 s2. free s c = Some s1 \<and> alloc s1 = Some (c, s2) \<and> avail s2 fl"
  using free_put [OF assms] alloc_take by blast

end

end
