(* ===== verification/Heap_Pool_Client.thy ===== *)
theory Heap_Pool_Client
  imports Heap_Pool_Create Pool_Iface
begin

text \<open>
  The pool as its clients see it: it provides the interface \<open>chunk_pool\<close>; the step relation
  \<open>client_step\<close> interleaves allocations, releases and writes of one client.
\<close>

section \<open>The pool provides the interface\<close>

definition pool_at :: "mem \<Rightarrow> u64 \<Rightarrow> heap_pool_desc \<Rightarrow> nat list \<Rightarrow> bool" where
  "pool_at m p d fl \<longleftrightarrow>
     (\<exists>x n. pool_inv m p (d\<lparr>hpd_firstfree := x, hpd_nralloc := n\<rparr>) fl)"

definition user_range :: "u64 \<Rightarrow> heap_pool_desc \<Rightarrow> bool" where
  "user_range p d \<longleftrightarrow> unat p + unat (hpd_allocsize d) \<le> 2 ^ 63"

definition hp_chunks :: "u64 \<Rightarrow> heap_pool_desc \<Rightarrow> u64 set" where
  "hp_chunks p d = (if user_range p d \<and> pool_geom d
     then chunk_addr p d ` {..<unat (hpd_nrel d)} else {})"

definition hp_avail :: "mem \<Rightarrow> u64 \<Rightarrow> heap_pool_desc \<Rightarrow> mem \<Rightarrow> u64 list \<Rightarrow> bool" where
  "hp_avail m0 p d m cs \<longleftrightarrow> user_range p d \<and> meta_frame p d m0 m \<and>
     (\<exists>fl. pool_at m p d fl \<and> cs = map (chunk_addr p d) fl)"

lemma pool_inv_pool_at: "pool_inv m p d fl \<Longrightarrow> pool_at m p d fl"
  unfolding pool_at_def by (rule exI [of _ "hpd_firstfree d"], rule exI [of _ "hpd_nralloc d"]) simp

lemma pool_at_geom:
  assumes "pool_at m p d fl"
  shows "pool_geom d" "distinct fl" "set fl \<subseteq> {..<unat (hpd_nrel d)}"
  using assms by (auto simp: pool_at_def pool_inv_def)

lemma unat_chunk_addr:
  assumes "user_range p d" "pool_geom d" "i < unat (hpd_nrel d)"
  shows "unat (chunk_addr p d i) = unat p + chunk_off d i"
proof -
  have "unat p + chunk_off d i < 2 ^ 64"
    using assms chunk_off_bounds(2) [OF assms(2,3)] by (simp add: user_range_def)
  then show ?thesis
    unfolding chunk_addr_def by (subst unat_add_no_wrap) (simp_all add: unat_of_nat_less)
qed

lemma chunk_addr_inj:
  assumes "pool_geom d" "i < unat (hpd_nrel d)" "j < unat (hpd_nrel d)"
  shows "chunk_addr p d i = chunk_addr p d j \<longleftrightarrow> i = j"
proof
  assume "chunk_addr p d i = chunk_addr p d j"
  then have "chunk_off d i = chunk_off d j"
    using chunk_bound [OF assms(1,2)] chunk_bound [OF assms(1,3)]
    by (simp add: chunk_addr_def of_nat_word_inject)
  then show "i = j"
    using chunk_off_mono [of i j d] chunk_off_mono [of j i d] assms(1)
    by (cases i j rule: linorder_cases) (auto simp: pool_geom_def)
qed simp

lemma chunk_not_error:
  assumes "user_range p d" "pool_geom d" "i < unat (hpd_nrel d)"
  shows "\<not> IS_ERR_OR_NULL (chunk_addr p d i)"
proof -
  have u: "unat (chunk_addr p d i) = unat p + chunk_off d i" using assms by (rule unat_chunk_addr)
  have "80 \<le> chunk_off d i" "chunk_off d i \<le> unat (hpd_allocsize d)"
    using chunk_off_bounds(1,2) [OF assms(2,3)] by linarith+
  then have "0 < unat (chunk_addr p d i)" "unat (chunk_addr p d i) \<le> 2 ^ 63"
    using u assms(1) by (simp_all add: user_range_def)
  then show ?thesis
    using not_IS_ERR_iff [of "chunk_addr p d i"]
    by (auto simp: IS_ERR_OR_NULL_def IS_ERR_def)
qed

lemma IS_ERR_ENOMEM: "IS_ERR_OR_NULL (- ENOMEM)"
  by (simp add: IS_ERR_OR_NULL_def IS_ERR_VALUE_def ENOMEM_def)

lemma pool_at_alloc:
  assumes "pool_at m p d (i # fl)"
  shows "\<exists>m'. heap_pool_alloc m p = Some (chunk_addr p d i, m') \<and> pool_at m' p d fl \<and>
    meta_frame p d m m'"
proof -
  obtain x n where inv: "pool_inv m p (d\<lparr>hpd_firstfree := x, hpd_nralloc := n\<rparr>) (i # fl)"
    using assms by (auto simp: pool_at_def)
  let ?d = "d\<lparr>hpd_firstfree := x, hpd_nralloc := n\<rparr>"
  from heap_pool_alloc_take [OF inv] obtain y m' where
    "heap_pool_alloc m p = Some (chunk_addr p ?d i, m')"
    "pool_inv m' p (?d\<lparr>hpd_firstfree := y, hpd_nralloc := hpd_nralloc ?d + 1\<rparr>) fl"
    "m' = put64 (put64 m (at_firstfree p) y) (at_nralloc p) (hpd_nralloc ?d + 1)"
    by blast
  then show ?thesis by (auto simp: pool_at_def intro!: meta_frame_field)
qed

lemma pool_at_alloc_empty:
  "pool_at m p d [] \<Longrightarrow> heap_pool_alloc m p = Some (- ENOMEM, m)"
  by (auto simp: pool_at_def dest: heap_pool_alloc_empty)

lemma pool_at_free:
  assumes "pool_at m p d fl" "i < unat (hpd_nrel d)" "i \<notin> set fl"
  shows "\<exists>m'. heap_pool_free m p (chunk_addr p d i) = Some m' \<and> pool_at m' p d (i # fl) \<and>
    meta_frame p d m m'"
proof -
  obtain x n where inv: "pool_inv m p (d\<lparr>hpd_firstfree := x, hpd_nralloc := n\<rparr>) fl"
    using assms by (auto simp: pool_at_def)
  let ?d = "d\<lparr>hpd_firstfree := x, hpd_nralloc := n\<rparr>"
  have "i < unat (hpd_nrel ?d)" using assms(2) by simp
  from heap_pool_free_put [OF inv this assms(3)] obtain m' where
    "heap_pool_free m p (chunk_addr p ?d i) = Some m'"
    "pool_inv m' p (?d\<lparr>hpd_firstfree := of_nat i, hpd_nralloc := hpd_nralloc ?d - 1\<rparr>) (i # fl)"
    "m' = put64 (put64 (put64 m (slot_addr p i) (hpd_firstfree ?d)) (at_firstfree p) (of_nat i))
      (at_nralloc p) (hpd_nralloc ?d - 1)"
    by blast
  then show ?thesis
    using assms(2) by (auto simp: pool_at_def intro!: meta_frame_field meta_frame_slot)
qed

lemma pool_at_write:
  assumes "pool_at m p d fl" "i < unat (hpd_nrel d)" "length bs \<le> unat (hpd_szel d)"
  shows "\<exists>m'. store_bytes m (chunk_addr p d i) bs = Some m' \<and> pool_at m' p d fl"
proof -
  obtain x n where "pool_inv m p (d\<lparr>hpd_firstfree := x, hpd_nralloc := n\<rparr>) fl"
    using assms by (auto simp: pool_at_def)
  from client_write_inv [OF this, of i bs] assms(2,3) show ?thesis by (auto simp: pool_at_def)
qed

lemma hp_availD:
  assumes "hp_avail m0 p d m cs"
  obtains fl where "pool_at m p d fl" "cs = map (chunk_addr p d) fl" "user_range p d"
    "pool_geom d" "distinct fl" "set fl \<subseteq> {..<unat (hpd_nrel d)}"
    "meta_frame p d m0 m"
  using assms pool_at_geom unfolding hp_avail_def by blast

lemma hp_availI:
  "user_range p d \<Longrightarrow> pool_at m p d fl \<Longrightarrow> cs = map (chunk_addr p d) fl \<Longrightarrow>
    meta_frame p d m0 m \<Longrightarrow> hp_avail m0 p d m cs"
  unfolding hp_avail_def by blast

lemma hp_chunksD:
  assumes "c \<in> hp_chunks p d"
  obtains i where "c = chunk_addr p d i" "i < unat (hpd_nrel d)" "user_range p d" "pool_geom d"
  using assms unfolding hp_chunks_def by (auto split: if_splits)

interpretation hp: chunk_pool "\<lambda>m. heap_pool_alloc m p" "\<lambda>m. heap_pool_free m p"
  IS_ERR_OR_NULL "hp_avail m0 p d" "hp_chunks p d" for m0 p d
proof (unfold_locales, goal_cases)
  case (1 s cs)
  then obtain fl where fl: "cs = map (chunk_addr p d) fl" "user_range p d" "pool_geom d"
    "distinct fl" "set fl \<subseteq> {..<unat (hpd_nrel d)}"
    by (rule hp_availD)
  have "inj_on (chunk_addr p d) (set fl)"
    using chunk_addr_inj [OF fl(3)] fl(5) by (auto simp: inj_on_def)
  then show ?case using fl by (auto simp: distinct_map hp_chunks_def)
next
  case (2 s c cs)
  then obtain i fl where "pool_at s p d (i # fl)" "c = chunk_addr p d i"
    "cs = map (chunk_addr p d) fl" "user_range p d" "meta_frame p d m0 s"
    by (auto elim!: hp_availD)
  then show ?case using pool_at_alloc [of s p d i fl] by (auto intro: hp_availI meta_frame_trans)
next
  case (3 s)
  then show ?case using IS_ERR_ENOMEM by (auto elim!: hp_availD dest!: pool_at_alloc_empty)
next
  case (4 s cs c)
  then obtain fl where fl: "pool_at s p d fl" "cs = map (chunk_addr p d) fl" "user_range p d"
    "meta_frame p d m0 s"
    by (auto elim: hp_availD)
  obtain i where i: "c = chunk_addr p d i" "i < unat (hpd_nrel d)" using 4(2) by (rule hp_chunksD)
  have "i \<notin> set fl" using 4(3) fl(2) i(1) by auto
  then obtain m' where "heap_pool_free s p c = Some m'" "pool_at m' p d (i # fl)"
    "meta_frame p d s m'"
    using pool_at_free [OF fl(1) i(2)] i(1) by blast
  then show ?case using fl i(1) by (auto intro: hp_availI meta_frame_trans)
next
  case (5 c)
  then show ?case by (auto elim!: hp_chunksD simp: chunk_not_error)
qed

section \<open>Clients of one pool\<close>

text \<open>
  A client of a pool at \<open>p\<close> whose elements have \<open>sz\<close> bytes: it allocates, frees a chunk it
  holds, or writes at most \<open>sz\<close> bytes into a chunk it holds. Its state is the memory and the list
  of chunks it holds.
\<close>

inductive client_step :: "u64 \<Rightarrow> u64 \<Rightarrow> mem \<times> u64 list \<Rightarrow> mem \<times> u64 list \<Rightarrow> bool"
  for p :: u64 and sz :: u64 where
  alloc_ok: "heap_pool_alloc m p = Some (c, m') \<Longrightarrow> \<not> IS_ERR_OR_NULL c \<Longrightarrow>
     client_step p sz (m, live) (m', c # live)"
| alloc_fail: "heap_pool_alloc m p = Some (c, m') \<Longrightarrow> IS_ERR_OR_NULL c \<Longrightarrow>
     client_step p sz (m, live) (m', live)"
| free: "c \<in> set live \<Longrightarrow> heap_pool_free m p c = Some m' \<Longrightarrow>
     client_step p sz (m, live) (m', remove1 c live)"
| put: "c \<in> set live \<Longrightarrow> length bs \<le> unat sz \<Longrightarrow> store_bytes m c bs = Some m' \<Longrightarrow>
     client_step p sz (m, live) (m', live)"

inductive client_reach :: "u64 \<Rightarrow> u64 \<Rightarrow> mem \<Rightarrow> mem \<times> u64 list \<Rightarrow> bool"
  for p :: u64 and sz :: u64 and m0 :: mem where
  start: "client_reach p sz m0 (m0, [])"
| step: "client_reach p sz m0 s \<Longrightarrow> client_step p sz s s' \<Longrightarrow> client_reach p sz m0 s'"

inductive_cases client_stepE: "client_step p sz (m, live) (m', live')"

text \<open>Free and held chunks partition the pool.\<close>

definition client_inv :: "u64 \<Rightarrow> heap_pool_desc \<Rightarrow> mem \<times> u64 list \<Rightarrow> bool" where
  "client_inv p d s \<longleftrightarrow> user_range p d \<and>
     (\<exists>fl il. pool_at (fst s) p d fl \<and> snd s = map (chunk_addr p d) il \<and>
        distinct (fl @ il) \<and> set (fl @ il) = {..<unat (hpd_nrel d)})"

lemma client_inv_step:
  assumes "client_inv p d s" "client_step p (hpd_szel d) s s'"
  shows "client_inv p d s'"
proof -
  obtain m live m' live' where s: "s = (m, live)" "s' = (m', live')" by (cases s, cases s') auto
  obtain fl il where inv: "user_range p d" "pool_at m p d fl" "live = map (chunk_addr p d) il"
    "distinct (fl @ il)" "set (fl @ il) = {..<unat (hpd_nrel d)}"
    using assms(1) unfolding client_inv_def s by auto
  note geo = pool_at_geom(1) [OF inv(2)]
  have ex: "client_inv p d (m', live')"
    if "pool_at m' p d fl'" "live' = map (chunk_addr p d) il'"
      "distinct (fl' @ il')" "set (fl' @ il') = set (fl @ il)" for fl' il'
    unfolding client_inv_def using that inv(1,5) by fastforce
  have "client_step p (hpd_szel d) (m, live) (m', live')" using assms(2) s by simp
  then consider
    (1) c where "live' = c # live" "heap_pool_alloc m p = Some (c, m')" "\<not> IS_ERR_OR_NULL c"
    | (2) c where "live' = live" "heap_pool_alloc m p = Some (c, m')" "IS_ERR_OR_NULL c"
    | (3) c where "live' = remove1 c live" "c \<in> set live" "heap_pool_free m p c = Some m'"
    | (4) c bs where "live' = live" "c \<in> set live" "length bs \<le> unat (hpd_szel d)"
        "store_bytes m c bs = Some m'"
    by (rule client_stepE)
  then have "client_inv p d (m', live')"
  proof cases
    case (1 c)
    show ?thesis
    proof (cases fl)
      case Nil
      then have "c = - ENOMEM" using 1(2) inv(2) pool_at_alloc_empty [of m p d] by simp
      then show ?thesis using 1(3) IS_ERR_ENOMEM by simp
    next
      case (Cons i fl')
      with pool_at_alloc inv(2) 1 have "c = chunk_addr p d i" "pool_at m' p d fl'" by fastforce+
      then show ?thesis using 1 Cons inv by (intro ex [of fl' "i # il"]) auto
    qed
  next
    case (2 c)
    show ?thesis
    proof (cases fl)
      case Nil
      then have "m' = m" using 2(2) inv(2) pool_at_alloc_empty [of m p d] by simp
      then show ?thesis using 2(1) inv(2-4) by (intro ex [of fl il]) simp_all
    next
      case (Cons i fl')
      with pool_at_alloc inv(2) 2 have "c = chunk_addr p d i" by fastforce
      then show ?thesis using 2 Cons inv chunk_not_error [OF inv(1) geo, of i] by auto
    qed
  next
    case (3 c)
    then obtain i where i: "i \<in> set il" "c = chunk_addr p d i" using inv(3) by auto
    have ilt: "i < unat (hpd_nrel d)" "i \<notin> set fl" using i inv(4,5) by auto
    then have at: "pool_at m' p d (i # fl)"
      using pool_at_free [OF inv(2)] 3 i by fastforce
    have "set (i # il) \<subseteq> {..<unat (hpd_nrel d)}" using inv(5) i by auto
    then have "inj_on (chunk_addr p d) (set (i # il))"
      using chunk_addr_inj [OF geo] by (meson inj_onI lessThan_iff subsetD)
    then have "remove1 c live = map (chunk_addr p d) (remove1 i il)"
      using inv(3) i by (simp add: map_remove1_inj)
    then show ?thesis using 3 at i inv by (intro ex [of "i # fl" "remove1 i il"]) auto
  next
    case (4 c bs)
    then obtain i where i: "i \<in> set il" "c = chunk_addr p d i" using inv(3) by auto
    then have "i < unat (hpd_nrel d)" using inv(5) by auto
    then have "pool_at m' p d fl" using pool_at_write [OF inv(2)] 4 i by fastforce
    then show ?thesis using 4(1) inv(3,4) by (intro ex [of fl il]) simp_all
  qed
  then show ?thesis using s by simp
qed

lemma client_reach_inv:
  "client_reach p (hpd_szel d) m0 s \<Longrightarrow> client_inv p d (m0, []) \<Longrightarrow> client_inv p d s"
  by (induction rule: client_reach.induct) (auto intro: client_inv_step)

lemma client_inv_start:
  assumes "pool_inv m p d [0..<unat (hpd_nrel d)]" "user_range p d"
  shows "client_inv p d (m, [])"
  unfolding client_inv_def using assms
  by (auto intro!: exI [of _ "[0..<unat (hpd_nrel d)]"] pool_inv_pool_at)

end
