(* ===== verification/Heap_Pool_Open.thy ===== *)
theory Heap_Pool_Open
  imports Heap_Pool_Create
begin

text \<open>
  Opening a pool by name: \<open>heap_pool_open\<close>, \<open>__heap_pool_get_stat\<close>, \<open>__heap_pool_open\<close> and
  \<open>heap_pool_create_if_needed\<close>. The file system is two arguments: \<open>stat_size\<close>, the size
  \<open>stat\<close> reports for a path (\<open>None\<close> where it fails), and \<open>shm\<close>, the bytes of the shared-memory
  object a name stands for (\<open>None\<close> where \<open>shm_open\<close> fails).
\<close>

section \<open>The operations\<close>

definition PATH_MAX :: nat where "PATH_MAX = 4096"

definition stat_path :: "string \<Rightarrow> string option" where
  "stat_path name =
     (if name \<noteq> [] \<and> hd name = CHR ''/''
      then let path = ''/dev/shm'' @ name
           in if length path + 1 \<le> PATH_MAX then Some path else None
      else Some name)"

definition heap_pool_get_stat :: "(string \<Rightarrow> u64 option) \<Rightarrow> string \<Rightarrow> u64 option option" where
  "heap_pool_get_stat stat_size name = do {
     ptr \<leftarrow> stat_path name;
     Some (stat_size ptr) }"

definition mmap_shared :: "mem \<Rightarrow> u64 option \<Rightarrow> (u64 \<Rightarrow> byte) \<Rightarrow> u64 \<Rightarrow> u64 \<times> mem" where
  "mmap_shared m choice content len = (case choice of
     None \<Rightarrow> (MAP_FAILED, m)
   | Some a \<Rightarrow> (a, \<lambda>x. if x - a < len then Some (content (x - a)) else m x))"

definition heap_pool_open_shm ::
  "mem \<Rightarrow> u64 option \<Rightarrow> (string \<Rightarrow> (u64 \<Rightarrow> byte) option) \<Rightarrow> string \<Rightarrow> u64 \<Rightarrow> u64 \<times> mem" where
  "heap_pool_open_shm m choice shm name sz = (case shm name of
     None \<Rightarrow> (ERR_PTR (- EINVAL), m)
   | Some content \<Rightarrow> mmap_shared m choice content sz)"

definition heap_pool_open :: "string \<Rightarrow> u64" where
  "heap_pool_open name = 0"

text \<open>Without shared memory there is no file to remove.\<close>

definition heap_pool_delete_shmfile :: "string \<Rightarrow> mem \<Rightarrow> mem" where
  "heap_pool_delete_shmfile name m = m"

definition heap_pool_create_if_needed ::
  "mem \<Rightarrow> u64 \<Rightarrow> u64 option \<Rightarrow> (string \<Rightarrow> u64 option) \<Rightarrow>
   (string \<Rightarrow> (u64 \<Rightarrow> byte) option) \<Rightarrow> string \<Rightarrow> u64 \<Rightarrow> u64 \<Rightarrow> u64 \<Rightarrow> (u64 \<times> mem) option" where
  "heap_pool_create_if_needed m pagesize choice stat_size shm name nb sz a = do {
     ret \<leftarrow> heap_pool_get_stat stat_size name;
     case ret of
       None \<Rightarrow> heap_pool_create m pagesize choice nb sz a
     | Some st_size \<Rightarrow> Some (heap_pool_open_shm m choice shm name st_size) }"

section \<open>A pool does not depend on its address\<close>

lemma load64_relocate:
  assumes same: "\<And>k. k < n \<Longrightarrow> m' (q + of_nat k) = m (p + of_nat k)" and "unat x + 8 \<le> n"
  shows "load64 m' (q + x) = load64 m (p + (x :: u64))"
proof -
  have "load_bytes m' (q + x) 8 = load_bytes m (p + x) 8"
  proof -
    have eq: "m' (q + x + of_nat i) = m (p + x + of_nat i)" if "i < 8" for i
      using same [of "unat x + i"] assms(2) that by (simp add: add.assoc)
    have "load_bytes m' a k = load_bytes m b k"
      if "\<And>i. i < k \<Longrightarrow> m' (a + of_nat i) = m (b + of_nat i)" for a b :: u64 and k
      using that
    proof (induction k arbitrary: a b)
      case 0
      then show ?case by simp
    next
      case (Suc k)
      have "load_bytes m' (a + 1) k = load_bytes m (b + 1) k"
        using Suc.prems [of "Suc _"] by (intro Suc.IH) (simp add: add.assoc)
      then show ?case using Suc.prems [of 0] by simp
    qed
    from this [OF eq] show ?thesis .
  qed
  then show ?thesis by (simp add: load64_def)
qed

lemma pool_inv_relocate:
  assumes inv: "pool_inv m p d fl"
    and same: "\<And>k. k < unat (hpd_allocsize d) \<Longrightarrow> m' (q + of_nat k) = m (p + of_nat k)"
  shows "pool_inv m' q d fl"
proof -
  let ?A = "unat (hpd_allocsize d)"
  have geo: "pool_geom d" and mp: "mapped m p ?A" and fl: "set fl \<subseteq> {..<unat (hpd_nrel d)}"
    using inv by (auto simp: pool_inv_def)
  have sz: "80 + 8 * unat (hpd_nrel d) \<le> ?A" using geo by (auto simp: pool_geom_def)
  note ld = load64_relocate [where n = ?A and m' = m' and m = m and p = p and q = q, OF same]
  have nat: "load64 m' (q + of_nat k) = load64 m (p + of_nat k)" if "k + 8 \<le> ?A" for k
    using that unsigned_less [of "hpd_allocsize d", where ?'a = nat]
    by (intro ld) (auto simp: unat_of_nat_less)
  have "read_desc m' q = Some d"
    using inv ld [of 0] ld [of 8] ld [of 16] ld [of 24] ld [of 32] ld [of 40] ld [of 48] ld [of 56]
      ld [of 64] sz
    unfolding pool_inv_def read_desc_iff by simp
  moreover have "mapped m' q ?A" using mp same by (simp add: mapped_def)
  moreover have "load64 m' (index_addr q d i) = Some (of_nat i)" if "i < unat (hpd_nrel d)" for i
  proof -
    have "load64 m' (index_addr q d i) = load64 m (index_addr p d i)"
      unfolding index_addr_def using chunk_off_bounds [OF geo that] by (intro nat) simp
    then show ?thesis using that inv by (simp add: pool_inv_def)
  qed
  moreover have slot: "load64 m' (slot_addr q i) = load64 m (slot_addr p i)"
    if "i < unat (hpd_nrel d)" for i
    unfolding slot_addr_def using that sz by (intro nat) simp
  moreover have "free_chain m' q x is = free_chain m p x is"
    if "set is \<subseteq> {..<unat (hpd_nrel d)}" for x "is"
    using that by (induction "is" arbitrary: x) (auto simp: slot split: option.splits)
  ultimately show ?thesis using inv fl by (auto simp: pool_inv_def)
qed

end
