(* ===== verification/Heap_Pool_Properties.thy ===== *)
theory Heap_Pool_Properties
  imports Heap_Pool_Client Heap_Pool_Open
begin

text \<open>
  The properties of the heap pool, each with its witness. The witnesses use a page size of 4096
  and, where an address is needed, a mapping at 65536.
\<close>

section \<open>Creation\<close>

lemma request_example: "request_ok 4096 10 128 0"
  by (simp add: request_ok_def is_power_of_two_def)

lemma nrel_example:
  "create_allocsize 4096 10 128 0 = 4096" "create_nrel 4096 128 0 = 27" "create_holesize 128 0 = 8"
  by (simp_all add: create_allocsize_def create_nrel_def create_align_def create_holesize_def ALIGN_def)

text \<open>
  C4: for a request with nb > 0 whose alignment is 0 or a power of two not above the page size
  (itself a power of two of at least 8) and whose sizes do not wrap (88 + alignment + page
  size + nb * (16 + alignment + size) <= 2^64), on a mapping the kernel provides
  (page-aligned, below 2^63), heap_pool_create returns the mapping with the pool invariant
  established and every chunk free in index order; there is room for at least nb - 1 elements,
  every chunk is aligned (so the assertion of the loop never fires), and nothing outside the
  mapping is touched.
\<close>

theorem heap_pool_create_correct:
  assumes "request_ok pagesize nb sz a" "map_ok pagesize p (create_allocsize pagesize nb sz a)"
  shows "\<exists>m' d. heap_pool_create m pagesize (Some p) nb sz a = Some (p, m') \<and>
    pool_inv m' p d [0..<unat (hpd_nrel d)] \<and> unat nb \<le> Suc (unat (hpd_nrel d)) \<and>
    hpd_szel d = sz \<and> hpd_allocsize d = create_allocsize pagesize nb sz a \<and>
    (\<forall>i<unat (hpd_nrel d). aligned_to a (chunk_addr p d i)) \<and>
    (\<forall>x. hpd_allocsize d \<le> x - p \<longrightarrow> m' x = m x)"
proof -
  let ?d = "create_desc pagesize p nb sz a"
  obtain m' where "heap_pool_create m pagesize (Some p) nb sz a = Some (p, m')"
    "pool_inv m' p ?d [0..<unat (hpd_nrel ?d)]" "\<forall>x. hpd_allocsize ?d \<le> x - p \<longrightarrow> m' x = m x"
    using heap_pool_create_run [OF assms] by blast
  moreover have "unat nb \<le> Suc (unat (hpd_nrel ?d))" "hpd_szel ?d = sz"
    "hpd_allocsize ?d = create_allocsize pagesize nb sz a"
    using create_nrel_request(4) [OF assms(1)] by (simp_all add: create_desc_def Let_def)
  moreover have "\<forall>i<unat (hpd_nrel ?d). aligned_to a (chunk_addr p ?d i)"
    by (rule create_desc_geom(2) [OF assms])
  ultimately show ?thesis by blast
qed

theorem heap_pool_create_correct_witness:
  "\<exists>m' d. heap_pool_create (\<lambda>_. None) 4096 (Some 65536) 10 128 0 = Some (65536, m') \<and>
    pool_inv m' 65536 d [0..<unat (hpd_nrel d)]"
proof -
  have "map_ok 4096 65536 (create_allocsize 4096 10 128 0)" by (simp add: map_ok_def nrel_example)
  from heap_pool_create_correct [OF request_example this] show ?thesis by blast
qed

abbreviation example_desc :: heap_pool_desc where
  "example_desc \<equiv> create_desc 4096 65536 10 128 0"

lemma example_map_ok: "map_ok 4096 65536 (create_allocsize 4096 10 128 0)"
  by (simp add: map_ok_def nrel_example)

lemma example_fields:
  "hpd_nrel example_desc = 27" "hpd_szel example_desc = 128" "hpd_allocsize example_desc = 4096"
  by (simp_all add: create_desc_def nrel_example)

lemma example_pool:
  obtains m where "heap_pool_create (\<lambda>_. None) 4096 (Some 65536) 10 128 0 = Some (65536, m)"
    "pool_inv m 65536 example_desc [0..<27]"
  using heap_pool_create_run [OF request_example example_map_ok, of "\<lambda>_. None"] example_fields
  by auto

section \<open>Allocation and release\<close>

text \<open>
  C5: heap_pool_alloc implements taking the head of the free list: on an empty list it returns
  -ENOMEM and changes nothing, otherwise it returns the chunk of the head, keeps the invariant
  for the tail, counts one more allocated chunk and writes only to the descriptor and the
  index array.
\<close>

theorem heap_pool_alloc_refines:
  assumes "pool_inv m p d fl"
  shows "case fl of
      [] \<Rightarrow> heap_pool_alloc m p = Some (- ENOMEM, m)
    | i # fl' \<Rightarrow> \<exists>m' y. heap_pool_alloc m p = Some (chunk_addr p d i, m') \<and>
        pool_inv m' p (d\<lparr>hpd_firstfree := y, hpd_nralloc := hpd_nralloc d + 1\<rparr>) fl' \<and>
        meta_frame p d m m'"
proof (cases fl)
  case Nil
  then show ?thesis using heap_pool_alloc_empty assms by simp
next
  case (Cons i fl')
  obtain y m' where "heap_pool_alloc m p = Some (chunk_addr p d i, m')"
    "pool_inv m' p (d\<lparr>hpd_firstfree := y, hpd_nralloc := hpd_nralloc d + 1\<rparr>) fl'"
    "m' = put64 (put64 m (at_firstfree p) y) (at_nralloc p) (hpd_nralloc d + 1)"
    using heap_pool_alloc_take [OF assms [unfolded Cons]] by blast
  then show ?thesis using Cons by (auto intro!: meta_frame_field)
qed

theorem heap_pool_alloc_refines_witness:
  "\<exists>m m'. heap_pool_create (\<lambda>_. None) 4096 (Some 65536) 10 128 0 = Some (65536, m) \<and>
    heap_pool_alloc m 65536 = Some (chunk_addr 65536 example_desc 0, m')"
proof -
  obtain m where "heap_pool_create (\<lambda>_. None) 4096 (Some 65536) 10 128 0 = Some (65536, m)"
    "pool_inv m 65536 example_desc [0..<27]"
    by (rule example_pool)
  then show ?thesis using heap_pool_alloc_refines [of m 65536 example_desc "[0..<27]"]
    by (auto simp: upt_conv_Cons)
qed

text \<open>
  C6: heap_pool_free of a chunk that is not free implements pushing its index on the free
  list: the hidden index before the chunk identifies it, the invariant holds for the longer
  list, one less chunk is counted as allocated, and only the descriptor and the index array
  are written.
\<close>

theorem heap_pool_free_refines:
  assumes "pool_inv m p d fl" "i < unat (hpd_nrel d)" "i \<notin> set fl"
  shows "\<exists>m'. heap_pool_free m p (chunk_addr p d i) = Some m' \<and>
    pool_inv m' p (d\<lparr>hpd_firstfree := of_nat i, hpd_nralloc := hpd_nralloc d - 1\<rparr>) (i # fl) \<and>
    meta_frame p d m m'"
proof -
  obtain m' where "heap_pool_free m p (chunk_addr p d i) = Some m'"
    "pool_inv m' p (d\<lparr>hpd_firstfree := of_nat i, hpd_nralloc := hpd_nralloc d - 1\<rparr>) (i # fl)"
    "m' = put64 (put64 (put64 m (slot_addr p i) (hpd_firstfree d)) (at_firstfree p) (of_nat i))
      (at_nralloc p) (hpd_nralloc d - 1)"
    using heap_pool_free_put [OF assms] by blast
  then show ?thesis using assms(2) by (auto intro!: meta_frame_field meta_frame_slot)
qed

theorem heap_pool_free_refines_witness:
  "\<exists>m d m'. pool_inv m 65536 d [1..<27] \<and>
    heap_pool_free m 65536 (chunk_addr 65536 d 0) = Some m'"
proof -
  obtain m where m: "pool_inv m 65536 example_desc [0..<27]" by (rule example_pool)
  have "[0..<27] = (0::nat) # [1..<27]" by (simp add: upt_conv_Cons)
  then obtain m' y where p: "pool_inv m' 65536
      (example_desc\<lparr>hpd_firstfree := y, hpd_nralloc := hpd_nralloc example_desc + 1\<rparr>) [1..<27]"
    using heap_pool_alloc_take m by metis
  then show ?thesis using heap_pool_free_refines [OF p, of 0] example_fields by fastforce
qed

section \<open>Clients\<close>

lemma client_inv_created:
  assumes "request_ok pagesize nb sz a" "map_ok pagesize p (create_allocsize pagesize nb sz a)"
    and "heap_pool_create m pagesize (Some p) nb sz a = Some (p, m0)"
    and "client_reach p sz m0 s"
  shows "client_inv p (create_desc pagesize p nb sz a) s"
proof -
  let ?d = "create_desc pagesize p nb sz a"
  have f: "hpd_szel ?d = sz" "hpd_allocsize ?d = create_allocsize pagesize nb sz a"
    by (simp_all add: create_desc_def Let_def)
  have "pool_inv m0 p ?d [0..<unat (hpd_nrel ?d)]"
    using heap_pool_create_run [OF assms(1,2), of m] assms(3) by auto
  moreover have "user_range p ?d" using assms(2) by (simp add: user_range_def map_ok_def f)
  ultimately have "client_inv p ?d (m0, [])" by (rule client_inv_start)
  with assms(4) show ?thesis using client_reach_inv [of p ?d m0 s] by (simp add: f)
qed

lemma client_invE:
  assumes "client_inv p d (m, live)"
  obtains fl il where "user_range p d" "pool_at m p d fl" "live = map (chunk_addr p d) il"
    "distinct fl" "distinct il" "set fl \<inter> set il = {}" "set fl \<union> set il = {..<unat (hpd_nrel d)}"
    "pool_geom d" "inj_on (chunk_addr p d) {..<unat (hpd_nrel d)}"
proof -
  obtain fl il where i: "user_range p d" "pool_at m p d fl" "live = map (chunk_addr p d) il"
    "distinct (fl @ il)" "set (fl @ il) = {..<unat (hpd_nrel d)}"
    using assms by (auto simp: client_inv_def)
  have g: "pool_geom d" by (rule pool_at_geom(1) [OF i(2)])
  have "inj_on (chunk_addr p d) {..<unat (hpd_nrel d)}"
    using chunk_addr_inj [OF g] by (auto simp: inj_on_def)
  then show thesis using i g by (intro that) auto
qed

lemma held_index:
  assumes "c \<in> set live" "live = map f il" "set fl \<inter> set il = {}" "set fl \<union> set il = {..<n :: nat}"
  obtains j where "c = f j" "j < n" "j \<notin> set fl"
proof -
  from assms(1,2) obtain j where "j \<in> set il" "c = f j" by auto
  then show thesis using assms(3,4) that [of j] by blast
qed

lemma example_client:
  obtains m0 m1 c where "heap_pool_create (\<lambda>_. None) 4096 (Some 65536) 10 128 0 = Some (65536, m0)"
    "client_reach 65536 128 m0 (m1, [c])" "\<not> IS_ERR_OR_NULL c"
proof -
  obtain m where m: "heap_pool_create (\<lambda>_. None) 4096 (Some 65536) 10 128 0 = Some (65536, m)"
    "pool_inv m 65536 example_desc [0..<27]" by (rule example_pool)
  let ?c = "chunk_addr 65536 example_desc 0"
  obtain m1 where m1: "heap_pool_alloc m 65536 = Some (?c, m1)"
    using heap_pool_alloc_take m(2) by (simp add: upt_conv_Cons) blast
  have e: "\<not> IS_ERR_OR_NULL ?c"
    using m(2) by (intro chunk_not_error) (simp_all add: user_range_def example_fields pool_inv_def)
  then have "client_reach 65536 128 m (m1, [?c])"
    using m1 by (intro client_reach.step [OF client_reach.start] client_step.alloc_ok)
  then show thesis using m(1) e that by blast
qed

text \<open>
  C1: take a request with nb > 0 whose alignment is 0 or a power of two not above the page
  size (itself a power of two of at least 8) and whose sizes do not wrap (88 + alignment +
  page size + nb * (16 + alignment + size) <= 2^64), on a mapping the kernel provides
  (page-aligned, below 2^63). Whatever sequence of allocations, releases and in-bounds writes
  a client of the pool created for it performs, the chunks it holds are pairwise distinct and
  pairwise disjoint, lie inside the mapping after the descriptor, and have the alignment that
  was asked for. (With an alignment above the page size this fails: heap_pool_overaligned.)
\<close>

theorem client_safety:
  assumes "request_ok pagesize nb sz a" "map_ok pagesize p (create_allocsize pagesize nb sz a)"
    and "heap_pool_create m pagesize (Some p) nb sz a = Some (p, m0)"
    and "client_reach p sz m0 (m1, live)"
  shows "distinct live \<and>
    (\<forall>c\<in>set live. unat p + 72 \<le> unat c \<and> aligned_to a c \<and>
       unat c + unat sz \<le> unat p + unat (create_allocsize pagesize nb sz a)) \<and>
    (\<forall>c\<in>set live. \<forall>c'\<in>set live. c \<noteq> c' \<longrightarrow> disjoint c (unat sz) c' (unat sz))"
proof -
  let ?d = "create_desc pagesize p nb sz a"
  have f: "hpd_szel ?d = sz" "hpd_allocsize ?d = create_allocsize pagesize nb sz a"
    by (simp_all add: create_desc_def Let_def)
  from client_inv_created [OF assms] obtain fl il where
    i: "user_range p ?d" "live = map (chunk_addr p ?d) il" "distinct il"
      "set fl \<union> set il = {..<unat (hpd_nrel ?d)}" "pool_geom ?d"
      "inj_on (chunk_addr p ?d) {..<unat (hpd_nrel ?d)}"
    by (rule client_invE)
  have "distinct live" using i(2,3) inj_on_subset [OF i(6)] i(4) by (auto simp: distinct_map)
  moreover have "unat p + 72 \<le> unat (chunk_addr p ?d j) \<and> aligned_to a (chunk_addr p ?d j) \<and>
      unat (chunk_addr p ?d j) + unat sz \<le> unat p + unat (create_allocsize pagesize nb sz a)"
    if "j \<in> set il" for j
  proof -
    have j: "j < unat (hpd_nrel ?d)" using that i(4) by auto
    then show ?thesis
      using unat_chunk_addr [OF i(1,5) j] chunk_off_bounds(1,3) [OF i(5) j]
        create_desc_geom(2) [OF assms(1,2)] by (simp add: f)
  qed
  moreover have "disjoint (chunk_addr p ?d j) (unat sz) (chunk_addr p ?d k) (unat sz)"
    if "j \<in> set il" "k \<in> set il" "chunk_addr p ?d j \<noteq> chunk_addr p ?d k" for j k
    using that i(4) by (intro disjoint_chunk(4) [OF i(5)]) (auto simp: f)
  ultimately show ?thesis unfolding i(2) by auto
qed

theorem client_safety_witness:
  "\<exists>m0 m1 c. client_reach 65536 128 m0 (m1, [c]) \<and> unat c + 128 \<le> 65536 + 4096"
proof -
  obtain m0 m1 c where m: "heap_pool_create (\<lambda>_. None) 4096 (Some 65536) 10 128 0 = Some (65536, m0)"
    "client_reach 65536 128 m0 (m1, [c])"
    by (rule example_client)
  from client_safety [OF request_example example_map_ok m]
  have "unat c + 128 \<le> 65536 + 4096" by (simp add: nrel_example)
  with m(2) show ?thesis by blast
qed

text \<open>
  C2: for a request and a mapping as in client_safety (nb > 0, alignment 0 or a power of two
  not above the page size, no size wraps), in every state a client of the new pool reaches,
  allocation returns, without a fault, a fresh chunk that is not an error pointer, or -ENOMEM
  exactly when all hpd_nrel chunks are held; releasing a held chunk and writing at most size
  bytes into it never fault.
\<close>

theorem client_progress:
  assumes "request_ok pagesize nb sz a" "map_ok pagesize p (create_allocsize pagesize nb sz a)"
    and "heap_pool_create m pagesize (Some p) nb sz a = Some (p, m0)"
    and "client_reach p sz m0 (m1, live)"
  shows "(\<exists>c m2. heap_pool_alloc m1 p = Some (c, m2) \<and>
      (if length live = unat (create_nrel (create_allocsize pagesize nb sz a) sz a)
       then c = - ENOMEM else \<not> IS_ERR_OR_NULL c \<and> c \<notin> set live)) \<and>
    (\<forall>c\<in>set live. heap_pool_free m1 p c \<noteq> None) \<and>
    (\<forall>c\<in>set live. \<forall>bs. length bs \<le> unat sz \<longrightarrow> store_bytes m1 c bs \<noteq> None)"
proof -
  let ?d = "create_desc pagesize p nb sz a"
  have f: "hpd_szel ?d = sz" "hpd_nrel ?d = create_nrel (create_allocsize pagesize nb sz a) sz a"
    by (simp_all add: create_desc_def Let_def)
  from client_inv_created [OF assms] obtain fl il where
    i: "user_range p ?d" "pool_at m1 p ?d fl" "live = map (chunk_addr p ?d) il"
      "distinct fl" "distinct il" "set fl \<inter> set il = {}"
      "set fl \<union> set il = {..<unat (hpd_nrel ?d)}" "pool_geom ?d"
      "inj_on (chunk_addr p ?d) {..<unat (hpd_nrel ?d)}"
    by (rule client_invE)
  have "card (set fl \<union> set il) = length fl + length il"
    using i(4,5,6) by (simp add: card_Un_disjoint distinct_card)
  then have len: "length fl + length live = unat (hpd_nrel ?d)" using i(3,7) by simp
  have "\<exists>c m2. heap_pool_alloc m1 p = Some (c, m2) \<and>
      (if length live = unat (hpd_nrel ?d) then c = - ENOMEM else \<not> IS_ERR_OR_NULL c \<and> c \<notin> set live)"
  proof (cases fl)
    case Nil
    then show ?thesis using len pool_at_alloc_empty i(2) by simp
  next
    case (Cons k fl')
    then have k: "k < unat (hpd_nrel ?d)" "k \<notin> set il" using i(6,7) by auto
    then have "chunk_addr p ?d k \<notin> set live"
      using i(3,7,8) chunk_addr_inj [OF i(8), of k] by auto
    then show ?thesis
      using pool_at_alloc [of m1 p ?d k fl'] i(2) Cons len chunk_not_error [OF i(1,8) k(1)] by auto
  qed
  moreover have "heap_pool_free m1 p c \<noteq> None" if c: "c \<in> set live" for c
  proof -
    obtain j where "c = chunk_addr p ?d j" "j < unat (hpd_nrel ?d)" "j \<notin> set fl"
      using c i(3,6,7) by (rule held_index)
    then show ?thesis using pool_at_free [OF i(2)] by blast
  qed
  moreover have "store_bytes m1 c bs \<noteq> None" if c: "c \<in> set live" "length bs \<le> unat sz" for c bs
  proof -
    obtain j where "c = chunk_addr p ?d j" "j < unat (hpd_nrel ?d)"
      using c(1) i(3,6,7) by (rule held_index)
    then show ?thesis using pool_at_write [OF i(2), of j bs] c(2) f(1) by auto
  qed
  ultimately show ?thesis by (simp add: f(2))
qed

theorem client_progress_witness:
  "\<exists>m c m2. client_reach 65536 128 m (m, []) \<and> heap_pool_alloc m 65536 = Some (c, m2) \<and>
    \<not> IS_ERR_OR_NULL c"
proof -
  obtain m where m: "heap_pool_create (\<lambda>_. None) 4096 (Some 65536) 10 128 0 = Some (65536, m)"
    by (rule example_pool)
  from client_progress [OF request_example example_map_ok m client_reach.start]
  obtain c m2 where "heap_pool_alloc m 65536 = Some (c, m2)" "\<not> IS_ERR_OR_NULL c"
    unfolding nrel_example by fastforce
  then show ?thesis using client_reach.start by fast
qed

text \<open>
  C3: for a request and a mapping as in client_safety, the contents of a chunk a client holds
  are changed neither by an allocation, nor by a release (its own included), nor by a write of
  at most size bytes into another held chunk.
\<close>

theorem client_isolation:
  assumes "request_ok pagesize nb sz a" "map_ok pagesize p (create_allocsize pagesize nb sz a)"
    and "heap_pool_create m pagesize (Some p) nb sz a = Some (p, m0)"
    and "client_reach p sz m0 (m1, live)" and "c \<in> set live"
  shows "(\<forall>x m2. heap_pool_alloc m1 p = Some (x, m2) \<longrightarrow>
        load_bytes m2 c (unat sz) = load_bytes m1 c (unat sz)) \<and>
    (\<forall>x\<in>set live. \<forall>m2. heap_pool_free m1 p x = Some m2 \<longrightarrow>
        load_bytes m2 c (unat sz) = load_bytes m1 c (unat sz)) \<and>
    (\<forall>x\<in>set live. \<forall>bs m2. x \<noteq> c \<longrightarrow> length bs \<le> unat sz \<longrightarrow> store_bytes m1 x bs = Some m2 \<longrightarrow>
        load_bytes m2 c (unat sz) = load_bytes m1 c (unat sz))"
proof -
  let ?d = "create_desc pagesize p nb sz a"
  have f: "hpd_szel ?d = sz" by (simp add: create_desc_def Let_def)
  from client_inv_created [OF assms(1-4)] obtain fl il where
    i: "user_range p ?d" "pool_at m1 p ?d fl" "live = map (chunk_addr p ?d) il"
      "set fl \<inter> set il = {}" "set fl \<union> set il = {..<unat (hpd_nrel ?d)}" "pool_geom ?d"
    by (rule client_invE)
  obtain k where k: "c = chunk_addr p ?d k" "k < unat (hpd_nrel ?d)"
    using assms(5) i(3-5) by (rule held_index)
  have same: "load_bytes m2 c (unat sz) = load_bytes m1 c (unat sz)" if "meta_frame p ?d m1 m2" for m2
    using meta_frame_chunk [OF that i(6) k(2)] f k(1) by simp
  have "load_bytes m2 c (unat sz) = load_bytes m1 c (unat sz)"
    if "heap_pool_alloc m1 p = Some (x, m2)" for x m2
  proof (cases fl)
    case Nil
    then show ?thesis using that i(2) pool_at_alloc_empty by simp
  next
    case (Cons j fl')
    then have "meta_frame p ?d m1 m2" using that i(2) pool_at_alloc [of m1 p ?d j fl'] by auto
    then show ?thesis by (rule same)
  qed
  moreover have "load_bytes m2 c (unat sz) = load_bytes m1 c (unat sz)"
    if x: "x \<in> set live" "heap_pool_free m1 p x = Some m2" for x m2
  proof -
    obtain j where "x = chunk_addr p ?d j" "j < unat (hpd_nrel ?d)" "j \<notin> set fl"
      using x(1) i(3-5) by (rule held_index)
    then have "meta_frame p ?d m1 m2" using pool_at_free [OF i(2), of j] x(2) by auto
    then show ?thesis by (rule same)
  qed
  moreover have "load_bytes m2 c (unat sz) = load_bytes m1 c (unat sz)"
    if x: "x \<in> set live" "x \<noteq> c" "length bs \<le> unat sz" "store_bytes m1 x bs = Some m2" for x bs m2
  proof -
    obtain j where j: "x = chunk_addr p ?d j" "j < unat (hpd_nrel ?d)"
      using x(1) i(3-5) by (rule held_index)
    then have "disjoint x (length bs) c (unat sz)"
      using x(2,3) j(2) k unfolding j(1) k(1) by (intro disjoint_chunk(4) [OF i(6)]) (auto simp: f)
    then show ?thesis using x(4) by (auto simp: store_bytes_def load_put_disj split: if_splits)
  qed
  ultimately show ?thesis by blast
qed

theorem client_isolation_witness:
  "\<exists>m m1 c m2. client_reach 65536 128 m (m1, [c]) \<and> heap_pool_free m1 65536 c = Some m2 \<and>
    load_bytes m2 c 128 = load_bytes m1 c 128"
proof -
  obtain m0 m1 c where m: "heap_pool_create (\<lambda>_. None) 4096 (Some 65536) 10 128 0 = Some (65536, m0)"
    "client_reach 65536 128 m0 (m1, [c])"
    by (rule example_client)
  have "client_inv 65536 example_desc (m1, [c])"
    by (rule client_inv_created [OF request_example example_map_ok m])
  then obtain fl il where i: "pool_at m1 65536 example_desc fl" "[c] = map (chunk_addr 65536 example_desc) il"
      "set fl \<inter> set il = {}" "set fl \<union> set il = {..<unat (hpd_nrel example_desc)}"
    by (rule client_invE)
  then obtain k where "c = chunk_addr 65536 example_desc k" "k < unat (hpd_nrel example_desc)" "k \<notin> set fl"
    by auto
  then obtain m2 where m2: "heap_pool_free m1 65536 c = Some m2" using pool_at_free [OF i(1)] by blast
  moreover have "load_bytes m2 c (unat (128 :: u64)) = load_bytes m1 c (unat (128 :: u64))"
    using client_isolation [OF request_example example_map_ok m, of c] m2 by auto
  ultimately show ?thesis using m(2) by auto
qed

section \<open>Exhaustion, reuse and the test program\<close>

lemma created_avail:
  assumes "request_ok pagesize nb sz a" "map_ok pagesize p (create_allocsize pagesize nb sz a)"
    and "heap_pool_create m pagesize (Some p) nb sz a = Some (p, m0)"
  shows "hp_avail m0 p (create_desc pagesize p nb sz a) m0
    (map (chunk_addr p (create_desc pagesize p nb sz a))
      [0..<unat (create_nrel (create_allocsize pagesize nb sz a) sz a)])"
proof -
  let ?d = "create_desc pagesize p nb sz a"
  have f: "hpd_allocsize ?d = create_allocsize pagesize nb sz a"
    "hpd_nrel ?d = create_nrel (create_allocsize pagesize nb sz a) sz a"
    by (simp_all add: create_desc_def Let_def)
  have "pool_inv m0 p ?d [0..<unat (hpd_nrel ?d)]"
    using heap_pool_create_run [OF assms(1,2), of m] assms(3) by auto
  then have "pool_at m0 p ?d [0..<unat (hpd_nrel ?d)]" by (rule pool_inv_pool_at)
  moreover have "user_range p ?d" using assms(2) by (simp add: user_range_def map_ok_def f)
  moreover have "meta_frame p ?d m0 m0" by (simp add: meta_frame_def)
  ultimately show ?thesis unfolding f(2) by (intro hp_availI) simp_all
qed

text \<open>
  C7: for a request and a mapping as in client_safety, allocating k times from the new pool
  yields the first min k hpd_nrel chunks in address order, with an error exactly when k
  exceeds hpd_nrel; releasing them all makes the number of free chunks hpd_nrel again.
\<close>

theorem heap_pool_exhaustion:
  assumes "request_ok pagesize nb sz a" "map_ok pagesize p (create_allocsize pagesize nb sz a)"
    and "heap_pool_create m pagesize (Some p) nb sz a = Some (p, m0)"
  shows "\<exists>e m1 m2. drain (\<lambda>m. heap_pool_alloc m p) IS_ERR_OR_NULL k m0 =
      Some (map (chunk_addr p (create_desc pagesize p nb sz a))
        [0..<min k (unat (create_nrel (create_allocsize pagesize nb sz a) sz a))], e, m1) \<and>
    (e = None \<longleftrightarrow> k \<le> unat (create_nrel (create_allocsize pagesize nb sz a) sz a)) \<and>
    release_all (\<lambda>m. heap_pool_free m p) (map (chunk_addr p (create_desc pagesize p nb sz a))
        [0..<min k (unat (create_nrel (create_allocsize pagesize nb sz a) sz a))]) m1 = Some m2 \<and>
    heap_pool_nb_free m2 p = Some (create_nrel (create_allocsize pagesize nb sz a) sz a)"
proof -
  let ?d = "create_desc pagesize p nb sz a" and ?N = "create_nrel (create_allocsize pagesize nb sz a) sz a"
  have t: "take k (map (chunk_addr p ?d) [0..<unat ?N]) = map (chunk_addr p ?d) [0..<min k (unat ?N)]"
    by (cases "k \<le> unat ?N") (simp_all add: take_map)
  obtain e m1 m2 where r: "drain (\<lambda>m. heap_pool_alloc m p) IS_ERR_OR_NULL k m0 =
      Some (map (chunk_addr p ?d) [0..<min k (unat ?N)], e, m1)" "e = None \<longleftrightarrow> k \<le> unat ?N"
    "release_all (\<lambda>m. heap_pool_free m p) (map (chunk_addr p ?d) [0..<min k (unat ?N)]) m1 = Some m2"
    "hp_avail m0 p ?d m2 (rev (map (chunk_addr p ?d) [0..<min k (unat ?N)]) @
       drop k (map (chunk_addr p ?d) [0..<unat ?N]))" (is "hp_avail _ _ _ _ ?cs")
    using hp.drain_release [OF created_avail [OF assms], of k] unfolding t by auto
  have "length ?cs = unat ?N" by simp
  with r(4) obtain fl where fl: "pool_at m2 p ?d fl" "length fl = unat ?N"
    by (metis hp_availD length_map)
  then obtain x n where "pool_inv m2 p (?d\<lparr>hpd_firstfree := x, hpd_nralloc := n\<rparr>) fl"
    by (auto simp: pool_at_def)
  then have "heap_pool_nb_free m2 p = Some ?N" using nb_free_inv fl(2) by fastforce
  with r(1-3) show ?thesis by blast
qed

theorem heap_pool_exhaustion_witness:
  "\<exists>m cs e m1. heap_pool_create (\<lambda>_. None) 4096 (Some 65536) 10 128 0 = Some (65536, m) \<and>
    drain (\<lambda>m. heap_pool_alloc m 65536) IS_ERR_OR_NULL 100 m = Some (cs, Some e, m1) \<and> length cs = 27"
proof -
  obtain m where m: "heap_pool_create (\<lambda>_. None) 4096 (Some 65536) 10 128 0 = Some (65536, m)"
    by (rule example_pool)
  from heap_pool_exhaustion [OF request_example example_map_ok m, of 100] m show ?thesis
    unfolding nrel_example by (auto 0 3 simp: min_def)
qed

text \<open>
  In every reachable state the chunk released last is the next one handed out, and the
  number of free chunks is then the one before the release.
\<close>

theorem heap_pool_free_alloc_same:
  assumes "request_ok pagesize nb sz a" "map_ok pagesize p (create_allocsize pagesize nb sz a)"
    and "heap_pool_create m pagesize (Some p) nb sz a = Some (p, m0)"
    and "client_reach p sz m0 (m1, live)" and "c \<in> set live"
  shows "\<exists>m2 m3. heap_pool_free m1 p c = Some m2 \<and> heap_pool_alloc m2 p = Some (c, m3) \<and>
    heap_pool_nb_free m3 p = heap_pool_nb_free m1 p"
proof -
  let ?d = "create_desc pagesize p nb sz a"
  from client_inv_created [OF assms(1-4)] obtain fl il where
    i: "user_range p ?d" "pool_at m1 p ?d fl" "live = map (chunk_addr p ?d) il"
      "set fl \<inter> set il = {}" "set fl \<union> set il = {..<unat (hpd_nrel ?d)}" "pool_geom ?d"
    by (rule client_invE)
  obtain k where k: "c = chunk_addr p ?d k" "k < unat (hpd_nrel ?d)" "k \<notin> set fl"
    using assms(5) i(3-5) by (rule held_index)
  obtain m2 where m2: "heap_pool_free m1 p c = Some m2" "pool_at m2 p ?d (k # fl)"
    using pool_at_free [OF i(2) k(2,3)] k(1) by blast
  obtain m3 where m3: "heap_pool_alloc m2 p = Some (c, m3)" "pool_at m3 p ?d fl"
    using pool_at_alloc [OF m2(2)] k(1) by blast
  have "heap_pool_nb_free m' p = Some (of_nat (length fl))" if "pool_at m' p ?d fl" for m'
    using that nb_free_inv by (auto simp: pool_at_def)
  then show ?thesis using m2(1) m3 i(2) by simp
qed

theorem heap_pool_free_alloc_same_witness:
  "\<exists>m m1 c m2 m3. client_reach 65536 128 m (m1, [c]) \<and> heap_pool_free m1 65536 c = Some m2 \<and>
    heap_pool_alloc m2 65536 = Some (c, m3)"
proof -
  obtain m0 m1 c where m: "heap_pool_create (\<lambda>_. None) 4096 (Some 65536) 10 128 0 = Some (65536, m0)"
    "client_reach 65536 128 m0 (m1, [c])"
    by (rule example_client)
  from heap_pool_free_alloc_same [OF request_example example_map_ok m, of c] m(2)
  show ?thesis by fastforce
qed

section \<open>The arithmetic\<close>

text \<open>
  C40: for an alignment that is a power of two and a value whose rounding does not wrap,
  __ALIGN computes the least multiple of the alignment that is not below the value.
\<close>

theorem ALIGN_rounds_up:
  assumes "k < 64" "unat x + 2 ^ k \<le> 2 ^ 64"
  shows "(2 :: nat) ^ k dvd unat (ALIGN x (2 ^ k)) \<and> unat x \<le> unat (ALIGN x (2 ^ k)) \<and>
    (\<forall>z. 2 ^ k dvd z \<longrightarrow> unat x \<le> z \<longrightarrow> unat (ALIGN x (2 ^ k)) \<le> z)"
  using unat_ALIGN [OF assms] by (simp add: round_up_ge round_up_least)

theorem ALIGN_rounds_up_witness: "unat (ALIGN 4097 (2 ^ 12)) = 8192"
proof -
  have a: "(12 :: nat) < 64" "unat (4097 :: u64) + 2 ^ 12 \<le> 2 ^ 64" by simp_all
  have d: "(4096 :: nat) dvd unat (ALIGN 4097 (2 ^ 12))" "4097 \<le> unat (ALIGN 4097 (2 ^ 12))"
    and l: "unat (ALIGN 4097 (2 ^ 12)) \<le> 8192"
    using ALIGN_rounds_up [OF a] by (auto dest: spec [of _ 8192])
  have "n = 8192" if "4096 dvd n" "4097 \<le> n" "n \<le> 8192" for n :: nat
    using that by (auto elim!: dvdE)
  from this [OF d l] show ?thesis .
qed

text \<open>
  The macro is_power_of_two holds exactly of the 64-bit powers of two and of zero.
\<close>

theorem is_power_of_two_correct: "is_power_of_two v \<longleftrightarrow> v = 0 \<or> (\<exists>k<64. v = 2 ^ k)"
proof (cases "v = 0")
  case True
  then show ?thesis by (simp add: is_power_of_two_def)
next
  case False
  then show ?thesis using is_power_of_two_only is_power_of_two_exp by blast
qed

text \<open>
  An alignment that is neither zero nor a power of two is refused with the error pointer
  -EINVAL before anything is mapped.
\<close>

theorem heap_pool_create_rejects:
  assumes "a \<noteq> 0" "\<forall>k<64. a \<noteq> 2 ^ k"
  shows "heap_pool_create m pagesize choice nb sz a = Some (- EINVAL, m) \<and> IS_ERR (- EINVAL)"
proof -
  have "\<not> is_power_of_two a" using assms is_power_of_two_only by blast
  then show ?thesis using assms(1) IS_ERR_ERR_PTR [of 22]
    by (simp add: heap_pool_create_def ERR_PTR_def EINVAL_def)
qed

theorem heap_pool_create_rejects_witness:
  "heap_pool_create (\<lambda>_. None) 4096 (Some 65536) 10 128 24 = Some (- EINVAL, \<lambda>_. None)"
proof -
  have "\<not> is_power_of_two 24" by (simp add: is_power_of_two_def)
  then have "\<forall>k<64. (24 :: u64) \<noteq> 2 ^ k" using is_power_of_two_exp by metis
  then show ?thesis using heap_pool_create_rejects [of 24] by simp
qed

text \<open>
  A pool created for one element of 4008 bytes with pages of 4096 bytes has no element:
  the first allocation returns -ENOMEM.
\<close>

theorem heap_pool_create_short:
  assumes "map_ok 4096 p 4096" "heap_pool_create m 4096 (Some p) 1 4008 0 = Some (p, m0)"
  shows "heap_pool_alloc m0 p = Some (- ENOMEM, m0)"
proof -
  have r: "request_ok 4096 1 4008 0" by (simp add: request_ok_def is_power_of_two_def)
  have n: "create_allocsize 4096 1 4008 0 = 4096" "create_nrel 4096 4008 0 = 0"
    by (simp_all add: create_allocsize_def create_nrel_def create_align_def create_holesize_def ALIGN_def)
  have "hpd_nrel (create_desc 4096 p 1 4008 0) = 0" by (simp add: create_desc_def n)
  then obtain d where "pool_inv m0 p d []"
    using heap_pool_create_run [OF r, of p m] assms by (auto simp: n)
  then show ?thesis by (rule heap_pool_alloc_empty)
qed

theorem heap_pool_create_short_witness:
  "\<exists>m. heap_pool_create (\<lambda>_. None) 4096 (Some 65536) 1 4008 0 = Some (65536, m) \<and>
    heap_pool_alloc m 65536 = Some (- ENOMEM, m)"
proof -
  have r: "request_ok 4096 1 4008 0" by (simp add: request_ok_def is_power_of_two_def)
  have m: "map_ok 4096 65536 (create_allocsize 4096 1 4008 0)" "map_ok 4096 65536 4096"
    by (simp_all add: map_ok_def create_allocsize_def create_align_def create_holesize_def ALIGN_def)
  obtain m0 where "heap_pool_create (\<lambda>_. None) 4096 (Some 65536) 1 4008 0 = Some (65536, m0)"
    using heap_pool_create_run [OF r m(1)] by blast
  with heap_pool_create_short [OF m(2) this] show ?thesis by blast
qed

section \<open>Opening a pool\<close>

text \<open>
  When the name exists, heap_pool_create_if_needed maps the shared object, and if its
  bytes are those of a pool then the result is that pool at the new address, with the same
  free list, although the address differs.
\<close>

theorem heap_pool_reopen:
  assumes "pool_inv m p d fl" "stat_path name = Some path"
    and "stat_size path = Some (hpd_allocsize d)" "shm name = Some content"
    and "\<forall>k<unat (hpd_allocsize d). m (p + of_nat k) = Some (content (of_nat k))"
  shows "\<exists>m'. heap_pool_create_if_needed m0 pagesize (Some q) stat_size shm name nb sz a = Some (q, m') \<and>
    pool_inv m' q d fl"
proof -
  let ?m = "\<lambda>x. if x - q < hpd_allocsize d then Some (content (x - q)) else m0 x"
  have "pool_inv ?m q d fl"
  proof (rule pool_inv_relocate [OF assms(1)])
    fix k assume k: "k < unat (hpd_allocsize d)"
    then have "(of_nat k :: u64) < hpd_allocsize d"
      using unsigned_less [of "hpd_allocsize d", where ?'a = nat]
      by (simp add: word_less_nat_alt unat_of_nat_less)
    then show "?m (q + of_nat k) = m (p + of_nat k)" using assms(5) k by simp
  qed
  then show ?thesis using assms(2-4)
    by (simp add: heap_pool_create_if_needed_def heap_pool_get_stat_def heap_pool_open_shm_def mmap_shared_def)
qed

theorem heap_pool_reopen_witness:
  "\<exists>shm m'. heap_pool_create_if_needed (\<lambda>_. None) 4096 (Some 131072) (\<lambda>_. Some 4096) shm ''/pool'' 10 128 0 =
    Some (131072, m') \<and> pool_inv m' 131072 example_desc [0..<27]"
proof -
  obtain m where m: "pool_inv m 65536 example_desc [0..<27]" by (rule example_pool)
  have p: "stat_path ''/pool'' = Some ''/dev/shm/pool''" by (simp add: stat_path_def PATH_MAX_def)
  have "m (65536 + of_nat k) = Some (the (m (65536 + of_nat k)))" if "k < 4096" for k
    using m that unfolding pool_inv_def mapped_def example_fields by auto
  then show ?thesis
    using heap_pool_reopen [OF m p, of "\<lambda>_. Some 4096" "\<lambda>_. Some (\<lambda>x. the (m (65536 + x)))"]
    by (fastforce simp: example_fields)
qed

text \<open>
  Without shared memory support the value heap_pool_open returns is not an error pointer
  in the sense of IS_ERR, only in that of IS_ERR_OR_NULL.
\<close>

theorem heap_pool_open_not_error: "\<not> IS_ERR (heap_pool_open name) \<and> IS_ERR_OR_NULL (heap_pool_open name)"
  by (simp add: heap_pool_open_def IS_ERR_def IS_ERR_VALUE_def IS_ERR_OR_NULL_def)

section \<open>An alignment above the page size\<close>

lemma load64_put64_apart:
  assumes "unat a + 8 \<le> unat b \<or> unat b + 8 \<le> unat a" "unat a < 2 ^ 63" "unat b < 2 ^ 63"
  shows "load64 (put64 m a v) (b :: u64) = load64 m b"
  using assms by (intro load64_put64_disjoint disjoint_offsets [of a 8 b 8 0, simplified]) auto

lemma put64_below: "unat a + 8 \<le> unat x \<Longrightarrow> put64 m a v x = m (x :: u64)"
  using put64_outside [of "unat a" "unat x" x 0 m v] by simp

text \<open>
  With pages of 4096 bytes, a pool for one element of 8184 bytes aligned to 8192 can be
  created and hands out a chunk whose upper half lies beyond the mapping.
\<close>

theorem heap_pool_overaligned:
  "\<exists>m0 m1. heap_pool_create (\<lambda>_. None) 4096 (Some 65536) 1 8184 8192 = Some (65536, m0) \<and>
    heap_pool_alloc m0 65536 = Some (81920, m1) \<and>
    m1 (81920 + 4095) = Some 0 \<and> m1 (81920 + 4096) = None \<and> \<not> mapped m1 81920 8184"
proof -
  have g: "create_align 8192 = 8192" "create_holesize 8184 8192 = 8"
    "create_allocsize 4096 1 8184 8192 = 20480" "create_nrel 20480 8184 8192 = 1"
    "is_power_of_two 8192" "ALIGN_PTR 73808 8192 = 81920"
    by (simp_all add: create_align_def create_holesize_def create_allocsize_def create_nrel_def
      compute_new_alignment_def ALIGN_def ALIGN_PTR_def is_power_of_two_def)
  let ?m0 = "\<lambda>x :: u64. if x - 65536 < 20480 then Some (0 :: byte) else None"
  have "mapped ?m0 65536 20480"
    using mmap_anon_mapped [of "\<lambda>_. None" 65536 20480] by (simp add: mmap_anon_def)
  then have mp: "mapped ?m0 (65536 + of_nat k) 8" if "k + 8 \<le> 20480" for k
    using that by (rule mapped_nat)
  note mps = mp [of 0] mp [of 8] mp [of 16] mp [of 24] mp [of 32] mp [of 40] mp [of 48] mp [of 56]
    mp [of 64] mp [of 72] mp [of 16376]
  define m9 where "m9 = put64 (put64 (put64 (put64 (put64 (put64 (put64 (put64 (put64 (put64 (put64 ?m0
    65536 0) 65544 8184) 65552 1) 65560 0) 65568 0) 65576 8192) 65584 8) 65592 20480) 65600 16384)
    65608 1) 81912 0"
  have c: "heap_pool_create (\<lambda>_. None) 4096 (Some 65536) 1 8184 8192 = Some (65536, m9)"
    using mps g
    by (simp add: heap_pool_create_def Let_def mmap_anon_def MAP_FAILED_def store64_def mapped_put64
      create_loop.simps m9_def)
  define m1 where "m1 = put64 (put64 m9 65568 1) 65560 1"
  have mp9: "mapped m9 (65536 + of_nat k) 8" if "k + 8 \<le> 20480" for k
    using mp [OF that] mps by (simp add: m9_def mapped_put64)
  have ld: "load64 m9 65552 = Some 1" "load64 m9 65560 = Some 0" "load64 m9 65568 = Some 0"
    "load64 m9 65608 = Some 1" "load64 m9 65600 = Some 16384" "load64 m9 65576 = Some 8192"
    by (simp_all add: m9_def load64_put64 load64_put64_apart)
  have a: "heap_pool_alloc m9 65536 = Some (81920, m1)"
    using ld mp9 [of 32] mp9 [of 24]
    by (simp add: heap_pool_alloc_def heap_pool_nb_free_def array_index_def store64_def
      HEAP_POOL_GET_NTH_CHUNK_def load64_put64_apart mapped_put64 m1_def)
  have out: "m1 x = ?m0 x" if "81920 \<le> unat x" for x
    using that by (simp add: m1_def m9_def put64_below)
  then have "m1 86015 = Some 0" "m1 86016 = None" by simp_all
  moreover have "\<not> mapped m1 81920 8184"
    using \<open>m1 86016 = None\<close> by (auto simp: mapped_def intro!: exI [of _ 4096])
  ultimately show ?thesis using c a by simp
qed

section \<open>Addresses\<close>

text \<open>
  Every chunk address of a pool satisfies HEAP_POOL_ADDR_IN_BNDS and is the one
  HEAP_POOL_GET_NTH_CHUNK computes, and heap_pool_raw_to_desc leads from the index array back
  to the descriptor.
\<close>

theorem chunk_in_bounds:
  assumes "pool_inv m p d fl" "user_range p d" "i < unat (hpd_nrel d)"
  shows "HEAP_POOL_ADDR_IN_BNDS m p (chunk_addr p d i) = Some True \<and>
    HEAP_POOL_GET_NTH_CHUNK m p (of_nat i) = Some (chunk_addr p d i) \<and>
    heap_pool_raw_to_desc (array_index p 0) = p"
proof -
  have g: "pool_geom d" and rd: "read_desc m p = Some d" using assms(1) by (simp_all add: pool_inv_def)
  have u: "unat (chunk_addr p d i) = unat p + chunk_off d i" using assms(2) g assms(3) by (rule unat_chunk_addr)
  have b: "80 \<le> chunk_off d i" "chunk_off d i < unat (hpd_allocsize d)"
    using chunk_off_bounds(1,3) [OF g assms(3)] by linarith+
  have "unat (p + hpd_allocsize d) = unat p + unat (hpd_allocsize d)"
    using assms(2) by (intro unat_add_no_wrap) (simp add: user_range_def)
  then have "p < chunk_addr p d i" "chunk_addr p d i < p + hpd_allocsize d"
    using u b by (simp_all add: word_less_nat_alt)
  then show ?thesis using rd
    by (simp add: HEAP_POOL_ADDR_IN_BNDS_def HEAP_POOL_GET_NTH_CHUNK_def read_desc_iff
      chunk_addr_code heap_pool_raw_to_desc_def array_index_def)
qed

theorem chunk_in_bounds_witness:
  "\<exists>m. heap_pool_create (\<lambda>_. None) 4096 (Some 65536) 10 128 0 = Some (65536, m) \<and>
    HEAP_POOL_ADDR_IN_BNDS m 65536 (chunk_addr 65536 example_desc 26) = Some True"
proof -
  obtain m where "heap_pool_create (\<lambda>_. None) 4096 (Some 65536) 10 128 0 = Some (65536, m)"
    "pool_inv m 65536 example_desc [0..<27]"
    by (rule example_pool)
  then show ?thesis using chunk_in_bounds [of m 65536 example_desc "[0..<27]" 26]
    by (simp add: user_range_def example_fields)
qed

end
