(* ===== verification/Heap_Looker.thy ===== *)
theory Heap_Looker
  imports Prelude
begin

text \<open>
  \<open>heap_looker/heap_looker.c\<close> (with \<open>HEAP_LOOKER_TRACEON\<close>): a preloaded library that stands before
  \<open>malloc\<close>, \<open>calloc\<close>, \<open>realloc\<close> and \<open>free\<close> and logs what they do. The allocator behind it is an
  argument, on a state of its own; \<open>dlsym\<close> says which of its functions the next object defines. A
  null pointer is \<open>None\<close>. The names of the call sites in the log are left out. Printing a line of the
  log may itself use the allocator, as \<open>vfprintf\<close> does for the buffer of its stream; what it does to
  the allocator is \<open>a_print\<close>, and the lines such a nested call would log are left out.
\<close>

section \<open>State\<close>

record 's allocator =
  a_malloc :: "'s \<Rightarrow> u64 \<Rightarrow> u64 option \<times> 's"
  a_calloc :: "'s \<Rightarrow> u64 \<Rightarrow> u64 \<Rightarrow> u64 option \<times> 's"
  a_realloc :: "'s \<Rightarrow> u64 option \<Rightarrow> u64 \<Rightarrow> u64 option \<times> 's"
  a_free :: "'s \<Rightarrow> u64 option \<Rightarrow> 's"
  a_print :: "'s \<Rightarrow> 's"

datatype hl_event = Alloc_ev u64 u64 | Free_ev "u64 option"

text \<open>Whether the stream is set and each static function pointer loaded, the log, the allocator.\<close>

record 's looker =
  hl_fp :: bool
  malloc_ptr :: bool
  calloc_ptr :: bool
  realloc_ptr :: bool
  free_ptr :: bool
  hl_log :: "hl_event list"
  hl_alloc :: 's

text \<open>A null argument stands for \<open>stdout\<close>, so the stream is set either way.\<close>

definition heap_looker_init :: "'s looker \<Rightarrow> 's looker" where
  "heap_looker_init st = st\<lparr> hl_fp := True \<rparr>"

definition heap_looker_exit :: "'s looker \<Rightarrow> 's looker" where
  "heap_looker_exit st = st"

section \<open>The four functions\<close>

text \<open>A function of the next object is looked up once, and again as long as it was not found.\<close>

definition load_func_if :: "(string \<Rightarrow> bool) \<Rightarrow> string \<Rightarrow> bool \<Rightarrow> bool" where
  "load_func_if dlsym name loaded = (if \<not> loaded then dlsym name else loaded)"

text \<open>A line is two calls of \<open>dbg_printf\<close>.\<close>

definition hl_print :: "'s allocator \<Rightarrow> hl_event \<Rightarrow> 's looker \<Rightarrow> 's looker" where
  "hl_print A ev st = st\<lparr> hl_log := hl_log st @ [ev], hl_alloc := a_print A (a_print A (hl_alloc st)) \<rparr>"

definition HEAP_LOOKER_WRITE_ALLOC :: "'s allocator \<Rightarrow> u64 option \<Rightarrow> u64 \<Rightarrow> 's looker \<Rightarrow> 's looker" where
  "HEAP_LOOKER_WRITE_ALLOC A ret len st = (case ret of
     Some addr \<Rightarrow> if hl_fp st then hl_print A (Alloc_ev addr len) st else st
   | None \<Rightarrow> st)"

definition HEAP_LOOKER_WRITE_FREE :: "'s allocator \<Rightarrow> u64 option \<Rightarrow> 's looker \<Rightarrow> 's looker" where
  "HEAP_LOOKER_WRITE_FREE A addr st = (if hl_fp st then hl_print A (Free_ev addr) st else st)"

definition looker_malloc ::
  "(string \<Rightarrow> bool) \<Rightarrow> 's allocator \<Rightarrow> u64 \<Rightarrow> 's looker \<Rightarrow> u64 option \<times> 's looker" where
  "looker_malloc dlsym A len st = (
     let st = st\<lparr> malloc_ptr := load_func_if dlsym ''malloc'' (malloc_ptr st) \<rparr>
     in if malloc_ptr st then
       (case a_malloc A (hl_alloc st) len of
          (ret, s) \<Rightarrow> (ret, HEAP_LOOKER_WRITE_ALLOC A ret len (st\<lparr> hl_alloc := s \<rparr>)))
     else (None, st))"

definition looker_calloc ::
  "(string \<Rightarrow> bool) \<Rightarrow> 's allocator \<Rightarrow> u64 \<Rightarrow> u64 \<Rightarrow> 's looker \<Rightarrow> u64 option \<times> 's looker" where
  "looker_calloc dlsym A a b st = (
     let st = st\<lparr> calloc_ptr := load_func_if dlsym ''calloc'' (calloc_ptr st) \<rparr>
     in if calloc_ptr st then
       (case a_calloc A (hl_alloc st) a b of
          (ret, s) \<Rightarrow> (ret, HEAP_LOOKER_WRITE_ALLOC A ret (a * b) (st\<lparr> hl_alloc := s \<rparr>)))
     else (None, st))"

definition looker_realloc ::
  "(string \<Rightarrow> bool) \<Rightarrow> 's allocator \<Rightarrow> u64 option \<Rightarrow> u64 \<Rightarrow> 's looker \<Rightarrow> u64 option \<times> 's looker" where
  "looker_realloc dlsym A base a st = (
     let st = st\<lparr> realloc_ptr := load_func_if dlsym ''realloc'' (realloc_ptr st) \<rparr>
     in if realloc_ptr st then
       (case a_realloc A (hl_alloc st) base a of
          (ret, s) \<Rightarrow> (ret, HEAP_LOOKER_WRITE_ALLOC A ret a (st\<lparr> hl_alloc := s \<rparr>)))
     else (None, st))"

definition looker_free ::
  "(string \<Rightarrow> bool) \<Rightarrow> 's allocator \<Rightarrow> u64 option \<Rightarrow> 's looker \<Rightarrow> 's looker" where
  "looker_free dlsym A base st = (
     let st = st\<lparr> free_ptr := load_func_if dlsym ''free'' (free_ptr st) \<rparr>
     in if free_ptr st then
       HEAP_LOOKER_WRITE_FREE A base (st\<lparr> hl_alloc := a_free A (hl_alloc st) base \<rparr>)
     else st)"

section \<open>Programs\<close>

text \<open>A program is a list of calls; run with the library before the allocator, or without it.\<close>

datatype hl_call = Malloc u64 | Calloc u64 u64 | Realloc "u64 option" u64 | Free "u64 option"

fun looker_call ::
  "(string \<Rightarrow> bool) \<Rightarrow> 's allocator \<Rightarrow> hl_call \<Rightarrow> 's looker \<Rightarrow> u64 option \<times> 's looker" where
  "looker_call D A (Malloc n) st = looker_malloc D A n st"
| "looker_call D A (Calloc a b) st = looker_calloc D A a b st"
| "looker_call D A (Realloc p n) st = looker_realloc D A p n st"
| "looker_call D A (Free p) st = (None, looker_free D A p st)"

fun direct_call :: "'s allocator \<Rightarrow> hl_call \<Rightarrow> 's \<Rightarrow> u64 option \<times> 's" where
  "direct_call A (Malloc n) s = a_malloc A s n"
| "direct_call A (Calloc a b) s = a_calloc A s a b"
| "direct_call A (Realloc p n) s = a_realloc A s p n"
| "direct_call A (Free p) s = (None, a_free A s p)"

fun looker_run ::
  "(string \<Rightarrow> bool) \<Rightarrow> 's allocator \<Rightarrow> hl_call list \<Rightarrow> 's looker \<Rightarrow> u64 option list \<times> 's looker" where
  "looker_run D A [] st = ([], st)"
| "looker_run D A (c # cs) st = (
     let (r, st) = looker_call D A c st; (rs, st) = looker_run D A cs st in (r # rs, st))"

fun direct_run :: "'s allocator \<Rightarrow> hl_call list \<Rightarrow> 's \<Rightarrow> u64 option list \<times> 's" where
  "direct_run A [] s = ([], s)"
| "direct_run A (c # cs) s = (
     let (r, s) = direct_call A c s; (rs, s) = direct_run A cs s in (r # rs, s))"

text \<open>What a call adds to the log.\<close>

fun logged :: "hl_call \<Rightarrow> u64 option \<Rightarrow> hl_event list" where
  "logged (Malloc n) (Some a) = [Alloc_ev a n]"
| "logged (Calloc x y) (Some a) = [Alloc_ev a (x * y)]"
| "logged (Realloc p n) (Some a) = [Alloc_ev a n]"
| "logged (Free p) r = [Free_ev p]"
| "logged _ None = []"

text \<open>Printing does not touch the allocator: the stream has its buffer, or needs none.\<close>

definition print_quiet :: "'s allocator \<Rightarrow> bool" where
  "print_quiet A \<longleftrightarrow> (\<forall>s. a_print A s = s)"

lemma looker_call_direct:
  assumes "D ''malloc''" "D ''calloc''" "D ''realloc''" "D ''free''" "print_quiet A" "hl_fp st"
    and "looker_call D A c st = (r, st')"
  shows "direct_call A c (hl_alloc st) = (r, hl_alloc st') \<and> hl_log st' = hl_log st @ logged c r \<and> hl_fp st'"
  using assms
  by (cases c) (auto simp: looker_malloc_def looker_calloc_def looker_realloc_def looker_free_def
    HEAP_LOOKER_WRITE_ALLOC_def HEAP_LOOKER_WRITE_FREE_def hl_print_def print_quiet_def load_func_if_def Let_def
    split: prod.splits if_splits option.splits)

lemma looker_run_direct:
  assumes "D ''malloc''" "D ''calloc''" "D ''realloc''" "D ''free''" "print_quiet A"
  shows "hl_fp st \<Longrightarrow> looker_run D A cs st = (rs, st') \<Longrightarrow>
    direct_run A cs (hl_alloc st) = (rs, hl_alloc st') \<and> length rs = length cs \<and>
    hl_log st' = hl_log st @ concat (map2 logged cs rs)"
proof (induction cs arbitrary: st rs)
  case Nil
  then show ?case by auto
next
  case (Cons c cs)
  obtain r st1 where c: "looker_call D A c st = (r, st1)" by (cases "looker_call D A c st")
  obtain rs' st2 where cs: "looker_run D A cs st1 = (rs', st2)" by (cases "looker_run D A cs st1")
  have eq: "rs = r # rs'" "st' = st2" using Cons.prems(2) c cs by simp_all
  note step = looker_call_direct [OF assms Cons.prems(1) c]
  have "direct_run A cs (hl_alloc st1) = (rs', hl_alloc st2) \<and> length rs' = length cs \<and>
      hl_log st2 = hl_log st1 @ concat (map2 logged cs rs')"
    using step cs Cons.IH [of st1 rs'] eq(2) by auto
  then show ?case using step eq by simp
qed

section \<open>The blocks a log shows as allocated\<close>

fun replay :: "u64 set \<Rightarrow> hl_event list \<Rightarrow> u64 set" where
  "replay L [] = L"
| "replay L (Alloc_ev a n # es) = replay (insert a L) es"
| "replay L (Free_ev p # es) = replay (L - set_option p) es"

text \<open>
  The blocks that are allocated: a successful \<open>realloc\<close> gives up the old one, and so does one of size
  0 that returns a null pointer, as that of the GNU C library.
\<close>

fun allocated :: "hl_call \<Rightarrow> u64 option \<Rightarrow> u64 set \<Rightarrow> u64 set" where
  "allocated (Realloc p n) (Some a) L = insert a (L - set_option p)"
| "allocated (Realloc p n) None L = (if n = 0 then L - set_option p else L)"
| "allocated (Free p) r L = L - set_option p"
| "allocated c r L = L \<union> set_option r"

fun allocated_run :: "hl_call list \<Rightarrow> u64 option list \<Rightarrow> u64 set \<Rightarrow> u64 set" where
  "allocated_run (c # cs) (r # rs) L = allocated_run cs rs (allocated c r L)"
| "allocated_run _ _ L = L"

text \<open>A \<open>realloc\<close> that gives up its block and logs no release of it.\<close>

definition drops_block :: "hl_call \<Rightarrow> u64 option \<Rightarrow> bool" where
  "drops_block c r \<longleftrightarrow> (case c of
     Realloc (Some b) n \<Rightarrow> (case r of Some a \<Rightarrow> a \<noteq> b | None \<Rightarrow> n = 0)
   | _ \<Rightarrow> False)"

lemma replay_append: "replay L (es @ es') = replay (replay L es) es'"
  by (induction L es rule: replay.induct) simp_all

lemma replay_logged:
  "\<not> drops_block c r \<Longrightarrow> replay L (logged c r) = allocated c r L"
  by (cases "(c, r)" rule: logged.cases) (auto simp: drops_block_def split: option.splits)

lemma allocated_le: "L \<subseteq> L' \<Longrightarrow> allocated c r L \<subseteq> replay L' (logged c r)"
  by (cases "(c, r)" rule: logged.cases) auto

lemma allocated_run_le:
  "length rs = length cs \<Longrightarrow> L \<subseteq> L' \<Longrightarrow> allocated_run cs rs L \<subseteq> replay L' (concat (map2 logged cs rs))"
proof (induction cs arbitrary: rs L L')
  case Nil
  then show ?case by simp
next
  case (Cons c cs)
  then obtain r rs' where "rs = r # rs'" by (cases rs) auto
  then show ?case using Cons allocated_le [of L L' c r] by (simp add: replay_append)
qed

lemma allocated_run_eq:
  "length rs = length cs \<Longrightarrow> \<forall>i<length cs. \<not> drops_block (cs ! i) (rs ! i) \<Longrightarrow>
   replay L (concat (map2 logged cs rs)) = allocated_run cs rs L"
proof (induction cs arbitrary: rs L)
  case Nil
  then show ?case by simp
next
  case (Cons c cs)
  then obtain r rs' where rs: "rs = r # rs'" by (cases rs) auto
  have "\<not> drops_block c r" using Cons.prems(2) rs by auto
  moreover have "\<forall>i<length cs. \<not> drops_block (cs ! i) (rs' ! i)" using Cons.prems(2) rs by auto
  ultimately show ?case using Cons rs by (simp add: replay_append replay_logged)
qed

section \<open>Properties\<close>

text \<open>
  C31: suppose dlsym finds the four functions of the next object and printing a line of the
  log does not itself touch the allocator (the stream has its buffer, or needs none). Then a
  program run with the library before the allocator gets the same results and leaves the same
  allocator state as without it. The blocks its log shows as allocated include every block
  that is (a realloc that succeeds gives up the old block, and one of size 0 that returns NULL
  frees it, as in the GNU C library), and are exactly those when no realloc moves a block or
  frees one by size 0: those releases are never logged.
\<close>

theorem heap_looker_transparent:
  assumes "D ''malloc''" "D ''calloc''" "D ''realloc''" "D ''free''" "print_quiet A"
    and "hl_log st = []" "looker_run D A cs (heap_looker_init st) = (rs, st')"
  shows "direct_run A cs (hl_alloc st) = (rs, hl_alloc st') \<and>
    allocated_run cs rs {} \<subseteq> replay {} (hl_log st') \<and>
    ((\<forall>i<length cs. \<not> drops_block (cs ! i) (rs ! i)) \<longrightarrow> replay {} (hl_log st') = allocated_run cs rs {})"
  using looker_run_direct [OF assms(1-5), of "heap_looker_init st" cs rs st'] assms(6,7)
    allocated_run_le [of rs cs "{}" "{}"] allocated_run_eq [of rs cs "{}"]
  by (simp add: heap_looker_init_def)

text \<open>
  For the witness: an allocator that counts, and never reuses a block; \<open>realloc\<close> of size 0 frees.
\<close>

definition bump :: "u64 allocator" where
  "bump = \<lparr> a_malloc = \<lambda>s n. (Some s, s + 16), a_calloc = \<lambda>s a b. (Some s, s + 16),
     a_realloc = \<lambda>s p n. if n = 0 then (None, s) else (Some s, s + 16), a_free = \<lambda>s p. s,
     a_print = \<lambda>s. s \<rparr>"

definition bump_looker :: "u64 looker" where
  "bump_looker = \<lparr> hl_fp = False, malloc_ptr = False, calloc_ptr = False, realloc_ptr = False,
     free_ptr = False, hl_log = [], hl_alloc = 16 \<rparr>"

theorem heap_looker_transparent_witness:
  "direct_run bump [Malloc 8, Realloc (Some 16) 9, Realloc (Some 32) 0] 16 = ([Some 16, Some 32, None], 48) \<and>
   {16, 32} \<subseteq> replay {} (hl_log (snd (looker_run (\<lambda>_. True) bump [Malloc 8, Realloc (Some 16) 9, Realloc (Some 32) 0]
     (heap_looker_init bump_looker)))) \<and>
   allocated_run [Malloc 8, Realloc (Some 16) 9, Realloc (Some 32) 0] [Some 16, Some 32, None] {} = {}"
proof -
  let ?cs = "[Malloc 8, Realloc (Some 16) 9, Realloc (Some 32) 0]"
  obtain st' where run: "looker_run (\<lambda>_. True) bump ?cs (heap_looker_init bump_looker) =
      ([Some 16, Some 32, None], st')" "hl_alloc st' = 48" "hl_log st' = [Alloc_ev 16 8, Alloc_ev 32 9]"
    by (simp add: heap_looker_init_def bump_looker_def bump_def looker_malloc_def looker_realloc_def
      load_func_if_def HEAP_LOOKER_WRITE_ALLOC_def hl_print_def)
  have "hl_log bump_looker = []" "hl_alloc bump_looker = 16" "print_quiet bump"
    by (simp_all add: bump_looker_def print_quiet_def bump_def)
  with heap_looker_transparent [OF _ _ _ _ _ _ run(1)] run show ?thesis by simp
qed

end
