(* ===== verification/Posix_Files.thy ===== *)
theory Posix_Files
  imports C_Memory
begin

text \<open>
  What the code asks of the operating system when it opens and maps files, and the resources it
  holds as a result. The system calls are not part of the repository: what they answer is the
  record \<open>kernel\<close>, an argument of every function that makes one. What they change of the process
  is the list of the resources it holds.
\<close>

section \<open>Resources\<close>

text \<open>Descriptors, mappings, \<open>FILE\<close> streams and loaded shared objects.\<close>

datatype 'p resource = Fd int | Mapping 'p nat | Stream nat | Dso nat

type_synonym 'p held = "'p resource list"

definition acquire :: "'r \<Rightarrow> 'r list \<Rightarrow> 'r list" where
  "acquire r held = r # held"

definition release :: "'r \<Rightarrow> 'r list \<Rightarrow> 'r list" where
  "release r held = remove1 r held"

lemma release_acquire [simp]: "release r (acquire r held) = held"
  by (simp add: acquire_def release_def)

lemma release_acquire_other [simp]:
  "r \<noteq> r' \<Longrightarrow> release r (acquire r' held) = acquire r' (release r held)"
  by (simp add: acquire_def release_def)

section \<open>System calls\<close>

text \<open>
  The answers of the kernel: for \<open>open\<close>, \<open>fstat\<close> and \<open>mmap\<close> an \<open>errno\<close> on the left, or the
  descriptor, the size of the file, the address of the mapping with the memory in which it is
  there; the size \<open>stat\<close> finds and the stream \<open>fopen\<close> returns, if any; the \<open>errno\<close> of a \<open>close\<close>
  that fails.
\<close>

record 'p kernel =
  k_open :: "string \<Rightarrow> int + int"
  k_fstat :: "int \<Rightarrow> int + nat"
  k_stat :: "string \<Rightarrow> nat option"
  k_mmap :: "int \<Rightarrow> nat \<Rightarrow> int + 'p \<times> ('p \<Rightarrow> byte option)"
  k_close :: "int \<Rightarrow> int option"
  k_fopen :: "string \<Rightarrow> nat option"

definition sys_open :: "'p kernel \<Rightarrow> string \<Rightarrow> 'p held \<Rightarrow> (int + int) \<times> 'p held" where
  "sys_open K path held = (case k_open K path of
     Inl e \<Rightarrow> (Inl e, held)
   | Inr fd \<Rightarrow> (Inr fd, acquire (Fd fd) held))"

text \<open>The value the C function returns: \<open>-1\<close> for an error.\<close>

definition c_int :: "int + int \<Rightarrow> int" where
  "c_int r = (case r of Inl e \<Rightarrow> - 1 | Inr n \<Rightarrow> n)"

definition sys_close :: "int \<Rightarrow> 'p held \<Rightarrow> 'p held" where
  "sys_close fd held = release (Fd fd) held"

definition sys_mmap :: "'p kernel \<Rightarrow> int \<Rightarrow> nat \<Rightarrow> 'p held \<Rightarrow> (int + 'p \<times> ('p \<Rightarrow> byte option)) \<times> 'p held" where
  "sys_mmap K fd len held = (case k_mmap K fd len of
     Inl e \<Rightarrow> (Inl e, held)
   | Inr (a, m) \<Rightarrow> (Inr (a, m), acquire (Mapping a len) held))"

definition sys_munmap :: "'p \<Rightarrow> nat \<Rightarrow> 'p held \<Rightarrow> 'p held" where
  "sys_munmap a len held = release (Mapping a len) held"

definition sys_fopen :: "'p kernel \<Rightarrow> string \<Rightarrow> 'p held \<Rightarrow> nat option \<times> 'p held" where
  "sys_fopen K path held = (case k_fopen K path of
     None \<Rightarrow> (None, held)
   | Some f \<Rightarrow> (Some f, acquire (Stream f) held))"

definition sys_fclose :: "nat \<Rightarrow> 'p held \<Rightarrow> 'p held" where
  "sys_fclose f held = release (Stream f) held"

lemmas sys_defs = sys_open_def sys_close_def sys_mmap_def sys_munmap_def sys_fopen_def sys_fclose_def

section \<open>Numbers in path names\<close>

text \<open>The conversions \<open>%d\<close>, \<open>%u\<close> and \<open>%hu\<close> of \<open>snprintf\<close>.\<close>

definition digit :: "nat \<Rightarrow> char" where
  "digit d = char_of (48 + d)"

fun decimal :: "nat \<Rightarrow> string" where
  "decimal n = (if n < 10 then [digit n] else decimal (n div 10) @ [digit (n mod 10)])"

declare decimal.simps [simp del]

definition decimal_int :: "int \<Rightarrow> string" where
  "decimal_int i = (if i < 0 then CHR ''-'' # decimal (nat (- i)) else decimal (nat i))"

text \<open>\<open>/proc/<pid>/<what>\<close>, the number already printed.\<close>

definition proc_file :: "string \<Rightarrow> string \<Rightarrow> string" where
  "proc_file pid what = ''/proc/'' @ pid @ ''/'' @ what"

lemma length_decimal: "0 < k \<Longrightarrow> n < 10 ^ k \<Longrightarrow> length (decimal n) \<le> k"
proof (induction k arbitrary: n)
  case 0
  then show ?case by simp
next
  case (Suc k)
  show ?case
  proof (cases "n < 10")
    case True
    then show ?thesis by (simp add: decimal.simps)
  next
    case False
    then have "0 < k" using Suc.prems by (cases k) auto
    moreover have "n div 10 < 10 ^ k" using Suc.prems by (simp add: less_mult_imp_div_less)
    ultimately have "length (decimal (n div 10)) \<le> k" by (rule Suc.IH)
    then show ?thesis using False by (subst decimal.simps) simp
  qed
qed

section \<open>Opening and closing\<close>

text \<open>
  The contract of a pair of functions that open and close something: an open that fails leaves the
  resources as it found them, and a close after a successful open gives back what it took. The
  predicate \<open>ok\<close> says which kernels the contract is for.
\<close>

locale open_close =
  fixes ok :: "'k \<Rightarrow> bool"
    and opn :: "'k \<Rightarrow> 'r list \<Rightarrow> ('d option \<times> 'r list) option"
    and cls :: "'d \<Rightarrow> 'r list \<Rightarrow> 'r list"
  assumes open_fails: "ok k \<Longrightarrow> opn k held = Some (None, held') \<Longrightarrow> held' = held"
    and close_open: "ok k \<Longrightarrow> opn k held = Some (Some d, held') \<Longrightarrow> cls d held' = held"
begin

text \<open>A client that opens, uses and closes once for each kernel of a list, whatever each answers.\<close>

primrec sessions :: "'k list \<Rightarrow> 'r list \<Rightarrow> 'r list option" where
  "sessions [] held = Some held"
| "sessions (k # ks) held = do {
     r \<leftarrow> opn k held;
     sessions ks (case fst r of None \<Rightarrow> snd r | Some d \<Rightarrow> cls d (snd r)) }"

lemma sessions_leak_nothing:
  "\<forall>k\<in>set ks. ok k \<Longrightarrow> sessions ks held = Some held' \<Longrightarrow> held' = held"
proof (induction ks arbitrary: held)
  case Nil
  then show ?case by simp
next
  case (Cons k ks)
  then obtain r where r: "opn k held = Some r"
    "sessions ks (case fst r of None \<Rightarrow> snd r | Some d \<Rightarrow> cls d (snd r)) = Some held'"
    by (auto simp: bind_simps)
  have "(case fst r of None \<Rightarrow> snd r | Some d \<Rightarrow> cls d (snd r)) = held"
    using open_fails [of k held] close_open [of k held] r(1) Cons.prems(1)
    by (cases r) (auto split: option.split)
  then show ?case using Cons r(2) by simp
qed

end

end
