(* ===== verification/Scanf.thy ===== *)
theory Scanf
  imports Posix_Files
begin

text \<open>
  The text the code takes apart with \<open>fgets\<close> and \<open>sscanf\<close>: reading a line into a buffer, the
  conversions the two format strings of the repository use, each with the variable it stores
  into and, for a string, the size of its buffer, and the numbers \<open>printf\<close> writes in base 16.
  Storing past the end of a buffer is a fault, the value \<open>None\<close>. Texts hold no NUL.
\<close>

section \<open>Lines\<close>

text \<open>
  \<open>fgets(line, n, fp)\<close> on a stream of which \<open>t\<close> is left: at most \<open>n - 1\<close> characters, up to the end
  of the line, which is kept; nothing at the end of the stream.
\<close>

fun up_to_newline :: "nat \<Rightarrow> string \<Rightarrow> string" where
  "up_to_newline 0 t = []"
| "up_to_newline (Suc n) [] = []"
| "up_to_newline (Suc n) (c # t) = (if c = CHR 0x0A then [c] else c # up_to_newline n t)"

definition fgets :: "nat \<Rightarrow> string \<Rightarrow> (string \<times> string) option" where
  "fgets n t = (if t = [] then None
     else let l = up_to_newline (n - 1) t in Some (l, drop (length l) t))"

lemma up_to_newline_line:
  "CHR 0x0A \<notin> set l \<Longrightarrow> length l < n \<Longrightarrow> up_to_newline n (l @ CHR 0x0A # t) = l @ [CHR 0x0A]"
proof (induction l arbitrary: n)
  case Nil
  then show ?case by (cases n) simp_all
next
  case (Cons c l)
  then show ?case by (cases n) auto
qed

lemma up_to_newline_nonempty: "0 < n \<Longrightarrow> t \<noteq> [] \<Longrightarrow> up_to_newline n t \<noteq> []"
  by (cases "(n, t)" rule: up_to_newline.cases) auto

text \<open>A line that fits is read whole.\<close>

lemma fgets_line:
  "CHR 0x0A \<notin> set l \<Longrightarrow> length l + 1 < n \<Longrightarrow>
   fgets n (l @ CHR 0x0A # t) = Some (l @ [CHR 0x0A], t)"
  by (simp add: fgets_def up_to_newline_line)

text \<open>Each call consumes a part of the stream, so a loop over \<open>fgets\<close> ends.\<close>

lemma fgets_shorter: "fgets n t = Some (l, t') \<Longrightarrow> 1 < n \<Longrightarrow> length t' < length t"
  using up_to_newline_nonempty [of "n - 1" t] by (auto simp: fgets_def Let_def split: if_split_asm)

section \<open>Conversions\<close>

definition isspace :: "char \<Rightarrow> bool" where
  "isspace c \<longleftrightarrow> c \<in> set [CHR '' '', CHR 0x09, CHR 0x0A, CHR 0x0B, CHR 0x0C, CHR 0x0D]"

definition skip_space :: "string \<Rightarrow> string" where
  "skip_space t = dropWhile isspace t"

text \<open>The value of a hexadecimal digit.\<close>

definition xdigit :: "char \<Rightarrow> nat option" where
  "xdigit c = (let n = of_char c :: nat in
     if 48 \<le> n \<and> n \<le> 57 then Some (n - 48)
     else if 97 \<le> n \<and> n \<le> 102 then Some (n - 87)
     else if 65 \<le> n \<and> n \<le> 70 then Some (n - 55)
     else None)"

definition isxdigit :: "char \<Rightarrow> bool" where
  "isxdigit c \<longleftrightarrow> xdigit c \<noteq> None"

definition of_xdigits :: "string \<Rightarrow> nat" where
  "of_xdigits ds = foldl (\<lambda>n c. 16 * n + the (xdigit c)) 0 ds"

text \<open>
  A number in base 16 after white space, with the optional sign and \<open>0x\<close>: as \<open>strtoul\<close> computes
  it, in 64 bits and clamped. \<open>None\<close> when there is no digit.
\<close>

definition split_sign :: "string \<Rightarrow> bool \<times> string" where
  "split_sign t = (case t of
     [] \<Rightarrow> (False, [])
   | c # t' \<Rightarrow> if c = CHR ''-'' then (True, t') else if c = CHR ''+'' then (False, t') else (False, t))"

definition skip_0x :: "string \<Rightarrow> string" where
  "skip_0x t = (case t of
     a # b # t' \<Rightarrow> if a = CHR ''0'' \<and> (b = CHR ''x'' \<or> b = CHR ''X'') then t' else t
   | _ \<Rightarrow> t)"

definition scan_hex :: "string \<Rightarrow> (u64 \<times> string) option" where
  "scan_hex t = (
     let (negative, u) = split_sign (skip_space t);
         u = skip_0x u;
         ds = takeWhile isxdigit u;
         n = of_xdigits ds
     in if ds = [] then None
     else Some (if 2 ^ 64 \<le> n then - 1 else if negative then - of_nat n else of_nat n,
                dropWhile isxdigit u))"

text \<open>
  The directives of the format strings, with a setter for the variable the argument points to:
  a space, an ordinary character, \<open>%p\<close>, \<open>%x\<close>, the scan set \<open>%[^c]\<close> and \<open>%s\<close>, the last two with the
  size of the buffer. \<open>%x\<close> keeps the low 32 bits of the number, as glibc does.
\<close>

datatype 'v directive =
    Space
  | Literal char
  | Pointer "u64 \<Rightarrow> 'v \<Rightarrow> 'v"
  | Hex "u32 \<Rightarrow> 'v \<Rightarrow> 'v"
  | Until char nat "string \<Rightarrow> 'v \<Rightarrow> 'v"
  | Nonspace nat "string \<Rightarrow> 'v \<Rightarrow> 'v"

datatype 'v outcome = Stop | Overrun | Next "'v" string

definition store_string :: "nat \<Rightarrow> (string \<Rightarrow> 'v \<Rightarrow> 'v) \<Rightarrow> string \<Rightarrow> string \<Rightarrow> 'v \<Rightarrow> 'v outcome" where
  "store_string n set_it s rest v = (
     if s = [] then Stop else if n < length s + 1 then Overrun else Next (set_it s v) rest)"

fun convert :: "'v directive \<Rightarrow> string \<Rightarrow> 'v \<Rightarrow> 'v outcome" where
  "convert Space t v = Next v (skip_space t)"
| "convert (Literal c) t v = (case t of [] \<Rightarrow> Stop | d # t' \<Rightarrow> if d = c then Next v t' else Stop)"
| "convert (Pointer set_it) t v = (case scan_hex t of
     None \<Rightarrow> Stop | Some (n, t') \<Rightarrow> Next (set_it n v) t')"
| "convert (Hex set_it) t v = (case scan_hex t of
     None \<Rightarrow> Stop | Some (n, t') \<Rightarrow> Next (set_it (ucast n) v) t')"
| "convert (Until c n set_it) t v =
     store_string n set_it (takeWhile (\<lambda>d. d \<noteq> c) t) (dropWhile (\<lambda>d. d \<noteq> c) t) v"
| "convert (Nonspace n set_it) t v = (
     let t = skip_space t
     in store_string n set_it (takeWhile (\<lambda>d. \<not> isspace d) t) (dropWhile (\<lambda>d. \<not> isspace d) t) v)"

text \<open>The first directive that does not match ends the scan; what was stored stays stored.\<close>

primrec sscanf :: "'v directive list \<Rightarrow> string \<Rightarrow> 'v \<Rightarrow> 'v option" where
  "sscanf [] t v = Some v"
| "sscanf (d # ds) t v = (case convert d t v of
     Stop \<Rightarrow> Some v
   | Overrun \<Rightarrow> None
   | Next v2 t2 \<Rightarrow> sscanf ds t2 v2)"

section \<open>Numbers in base 16\<close>

text \<open>The conversion \<open>%x\<close> of \<open>printf\<close>, and \<open>%08lx\<close>, which pads with zeros.\<close>

definition xdigit_char :: "nat \<Rightarrow> char" where
  "xdigit_char d = char_of (if d < 10 then 48 + d else 87 + d)"

fun hexadecimal :: "nat \<Rightarrow> string" where
  "hexadecimal n = (if n < 16 then [xdigit_char n] else hexadecimal (n div 16) @ [xdigit_char (n mod 16)])"

declare hexadecimal.simps [simp del]

definition padded8 :: "string \<Rightarrow> string" where
  "padded8 s = replicate (8 - length s) (CHR ''0'') @ s"

lemma xdigit_xdigit_char [simp]: "d < 16 \<Longrightarrow> xdigit (xdigit_char d) = Some d"
  by (auto simp: xdigit_def xdigit_char_def Let_def)

lemma xdigit_zero [simp]: "xdigit (CHR ''0'') = Some 0"
  by (simp add: xdigit_def)

lemma isxdigit_xdigit_char [simp]: "d < 16 \<Longrightarrow> isxdigit (xdigit_char d)" "isxdigit (CHR ''0'')"
  by (simp_all add: isxdigit_def)

lemma of_xdigits_snoc: "of_xdigits (ds @ [c]) = 16 * of_xdigits ds + the (xdigit c)"
  by (simp add: of_xdigits_def)

lemma of_xdigits_hexadecimal: "of_xdigits (hexadecimal n) = n"
proof (induction n rule: hexadecimal.induct)
  case (1 n)
  show ?case
  proof (cases "n < 16")
    case True
    then show ?thesis by (simp add: hexadecimal.simps of_xdigits_def)
  next
    case False
    then have "of_xdigits (hexadecimal (n div 16)) = n div 16" using 1 by simp
    then show ?thesis using False by (subst hexadecimal.simps) (simp add: of_xdigits_snoc)
  qed
qed

lemma of_xdigits_zeros: "of_xdigits (replicate k (CHR ''0'') @ ds) = of_xdigits ds"
  by (induction k) (simp_all add: of_xdigits_def)

lemma hexadecimal_xdigits: "c \<in> set (hexadecimal n) \<Longrightarrow> isxdigit c"
proof (induction n rule: hexadecimal.induct)
  case (1 n)
  show ?case
    using 1 by (subst (asm) (2) hexadecimal.simps) (auto split: if_split_asm)
qed

lemma padded8_xdigits: "c \<in> set (padded8 (hexadecimal n)) \<Longrightarrow> isxdigit c"
  by (auto simp: padded8_def dest: hexadecimal_xdigits)

lemma of_xdigits_padded8: "of_xdigits (padded8 (hexadecimal n)) = n"
  by (simp add: padded8_def of_xdigits_zeros of_xdigits_hexadecimal)

lemma isxdigit_not_special:
  "isxdigit c \<Longrightarrow> \<not> isspace c \<and> c \<notin> {CHR ''-'', CHR ''+'', CHR ''x'', CHR ''X'', CHR ''/''}"
  by (auto simp: isxdigit_def xdigit_def isspace_def)

text \<open>At least eight digits, none of them a sign or the \<open>x\<close> of a prefix.\<close>

lemma padded8_shape:
  obtains a b ds where "padded8 (hexadecimal n) = a # b # ds" "isxdigit a" "isxdigit b" "\<forall>c\<in>set ds. isxdigit c"
proof -
  have "2 \<le> length (padded8 (hexadecimal n))" by (simp add: padded8_def)
  then obtain a b ds where s: "padded8 (hexadecimal n) = a # b # ds"
    by (metis Suc_le_length_iff numeral_2_eq_2)
  show thesis
    using padded8_xdigits [of _ n] by (intro that [OF s]) (auto simp: s)
qed

text \<open>Reading back what \<open>printf\<close> wrote.\<close>

lemma scan_hex_padded8:
  assumes "\<not> isxdigit c"
  shows "scan_hex (padded8 (hexadecimal (unat w)) @ c # t) = Some (w :: u64, c # t)"
proof -
  obtain a b ds where s: "padded8 (hexadecimal (unat w)) = a # b # ds" "isxdigit a" "isxdigit b"
    "\<forall>c\<in>set ds. isxdigit c" by (rule padded8_shape)
  define z where "z = padded8 (hexadecimal (unat w)) @ c # t"
  have z: "z = a # b # ds @ c # t" by (simp add: z_def s)
  have pre: "skip_space z = z" "split_sign z = (False, z)" "skip_0x z = z"
    using isxdigit_not_special [OF s(2)] isxdigit_not_special [OF s(3)]
    by (auto simp: z skip_space_def split_sign_def skip_0x_def)
  have ds: "takeWhile isxdigit z = a # b # ds" "dropWhile isxdigit z = c # t"
    using s(2-4) assms by (auto simp: z takeWhile_append dropWhile_append)
  have n: "of_xdigits (a # b # ds) = unat w"
    using of_xdigits_padded8 [of "unat w"] by (simp only: s(1))
  have "unat w < 2 ^ 64" using unsigned_less [of w] by simp
  then show ?thesis
    unfolding z_def [symmetric] by (simp add: scan_hex_def pre ds n Let_def)
qed

end
