(* ===== verification/Dbg_Print.thy ===== *)
theory Dbg_Print
  imports Scanf
begin

text \<open>
  \<open>dbg_print/dbgprint.c\<close> and its test program, and what the programs hand to the output streams. The
  arguments of a \<open>printf\<close> are formatted where it is called: the model has the resulting text.
\<close>

section \<open>Output\<close>

datatype stream = Stdout | Stderr

type_synonym printed = "(stream \<times> string) list"

definition newline :: string where "newline = [CHR 0x0A]"

definition put_text :: "stream \<Rightarrow> string \<Rightarrow> printed \<Rightarrow> printed" where
  "put_text fp s out = out @ [(fp, s)]"

text \<open>The conversion \<open>%p\<close>, and \<open>%s\<close> of a buffer: a fault when no byte of it ends the string.\<close>

definition pointer_text :: "'a::len word \<Rightarrow> string" where
  "pointer_text a = (if a = 0 then ''(nil)'' else ''0x'' @ hexadecimal (unat a))"

definition string_of :: "byte list \<Rightarrow> string" where
  "string_of bs = map (\<lambda>b. char_of (unat b)) bs"

definition buffer_text :: "byte list \<Rightarrow> string option" where
  "buffer_text bs = (if 0 \<in> set bs then Some (string_of (takeWhile (\<lambda>b. b \<noteq> 0) bs)) else None)"

section \<open>Debug printing\<close>

text \<open>
  The two versions of \<open>dbg_printf\<close>: with \<open>DBG_PRINT_SHOW_TRACE\<close> the text goes to \<open>where\<close>, or to
  \<open>stdout\<close> for a null pointer, and the result is the number of characters; without it nothing is
  printed and the result is 0.
\<close>

definition dbg_printf_trace :: "stream option \<Rightarrow> string \<Rightarrow> printed \<Rightarrow> int \<times> printed" where
  "dbg_printf_trace where_to s out = (
     let fp = (case where_to of Some w \<Rightarrow> w | None \<Rightarrow> Stdout)
     in (int (length s), put_text fp s out))"

definition dbg_printf_quiet :: "stream option \<Rightarrow> string \<Rightarrow> printed \<Rightarrow> int \<times> printed" where
  "dbg_printf_quiet where_to s out = (0, out)"

definition dbg_printf :: "bool \<Rightarrow> stream option \<Rightarrow> string \<Rightarrow> printed \<Rightarrow> int \<times> printed" where
  "dbg_printf show_trace = (if show_trace then dbg_printf_trace else dbg_printf_quiet)"

text \<open>A call whose result is not used.\<close>

definition dbg_print :: "bool \<Rightarrow> stream \<Rightarrow> string \<Rightarrow> printed \<Rightarrow> printed" where
  "dbg_print show_trace fp s out = snd (dbg_printf show_trace (Some fp) s out)"

definition dbg_test_main :: "bool \<Rightarrow> printed" where
  "dbg_test_main show_trace = dbg_print show_trace Stdout (''hello '' @ ''plop'' @ newline) []"

lemma dbg_print_eq: "dbg_print show_trace fp s out = (if show_trace then out @ [(fp, s)] else out)"
  by (simp add: dbg_print_def dbg_printf_def dbg_printf_trace_def dbg_printf_quiet_def put_text_def)

end
