(* ===== verification/Timing.thy ===== *)
theory Timing
  imports Dbg_Print
begin

text \<open>
  The durations the test programs print: \<open>timersub\<close> of \<open>sys/time.h\<close> on the answers of
  \<open>gettimeofday\<close>.
\<close>

section \<open>Times\<close>

text \<open>\<open>timersub(a, b, result)\<close> of \<open>sys/time.h\<close>: \<open>a - b\<close>, with microseconds between 0 and a million.\<close>

record timeval =
  tv_sec :: int
  tv_usec :: int

definition timersub :: "timeval \<Rightarrow> timeval \<Rightarrow> timeval" where
  "timersub a b = (
     let sec = tv_sec a - tv_sec b; usec = tv_usec a - tv_usec b
     in if usec < 0 then \<lparr> tv_sec = sec - 1, tv_usec = usec + 1000000 \<rparr>
     else \<lparr> tv_sec = sec, tv_usec = usec \<rparr>)"

definition micros :: "timeval \<Rightarrow> int" where
  "micros t = tv_sec t * 1000000 + tv_usec t"

lemma micros_timersub: "micros (timersub a b) = micros a - micros b"
  by (simp add: micros_def timersub_def Let_def algebra_simps)

definition timeval_ok :: "timeval \<Rightarrow> bool" where
  "timeval_ok t \<longleftrightarrow> 0 \<le> tv_usec t \<and> tv_usec t < 1000000"

lemma timersub_ok: "timeval_ok a \<Longrightarrow> timeval_ok b \<Longrightarrow> timeval_ok (timersub a b)"
  by (auto simp: timeval_ok_def timersub_def Let_def)

text \<open>A duration printed with \<open>%lu %lu\<close>, which takes its two signed numbers for unsigned ones.\<close>

definition decimal_lu :: "int \<Rightarrow> string" where
  "decimal_lu x = decimal (nat (x mod 2 ^ 64))"

definition duration_line :: "timeval \<Rightarrow> timeval \<Rightarrow> string" where
  "duration_line t1 t2 = (
     let t2 = timersub t2 t1
     in decimal_lu (tv_sec t2) @ '' '' @ decimal_lu (tv_usec t2) @ newline)"

end
