(* ===== verification/Heap_Pool_Program.thy ===== *)
theory Heap_Pool_Program
  imports Heap_Pool_Properties Heap_Looker Timing
begin

text \<open>
  The test program \<open>heap_pool/main.c\<close>: it takes ten chunks from a pool, compares with ten calls of
  \<open>malloc\<close> and \<open>free\<close>, and prints how long each took. The allocator is the parameter of
  \<open>Heap_Looker\<close>; the blocks it gives are not written to. The time stamp counter is read but not used.
\<close>

section \<open>The program\<close>

text \<open>\<open>while (i < 10 && (pp[i++] = malloc(128)))\<close>: the entries of \<open>pp\<close> that are set.\<close>

primrec malloc_loop :: "'s allocator \<Rightarrow> nat \<Rightarrow> 's \<Rightarrow> u64 option list \<times> 's" where
  "malloc_loop A 0 s = ([], s)"
| "malloc_loop A (Suc n) s = (
     let (r, s) = a_malloc A s 128
     in (case r of
        None \<Rightarrow> ([None], s)
      | Some a \<Rightarrow> let (rs, s) = malloc_loop A n s in (Some a # rs, s)))"

text \<open>\<open>while (i--) free(pp[i])\<close>: the last entry first.\<close>

definition free_loop :: "'s allocator \<Rightarrow> u64 option list \<Rightarrow> 's \<Rightarrow> 's" where
  "free_loop A pp s = foldr (\<lambda>p s. a_free A s p) pp s"

text \<open>\<open>now k\<close> is the answer of the \<open>k\<close>-th call of \<open>gettimeofday\<close>.\<close>

definition heap_pool_main ::
  "mem \<Rightarrow> u64 \<Rightarrow> u64 option \<Rightarrow> 's allocator \<Rightarrow> 's \<Rightarrow> (nat \<Rightarrow> timeval) \<Rightarrow> (int \<times> mem \<times> 's \<times> printed) option" where
  "heap_pool_main m pagesize choice A s now = do {
     (p, m) \<leftarrow> heap_pool_create m pagesize choice 10 128 0;
     if IS_ERR_OR_NULL p then Some (-1, m, s, [])
     else do {
       (held, failed, m) \<leftarrow> drain (\<lambda>m. heap_pool_alloc m p) IS_ERR_OR_NULL 10 m;
       let tab = held @ (case failed of None \<Rightarrow> [] | Some e \<Rightarrow> [e]);
       let out = put_text Stdout (duration_line (now 0) (now 1)) [];
       let (pp, s) = malloc_loop A 10 s;
       let out = put_text Stdout (duration_line (now 2) (now 3)) out;
       let s = free_loop A pp s;
       let out = put_text Stdout (duration_line (now 4) (now 5)) out;
       m \<leftarrow> (if length tab < 10 then None
            else release_all (\<lambda>m. heap_pool_free m p) (take 10 tab) m);
       let out = put_text Stdout (duration_line (now 6) (now 7)) out;
       m \<leftarrow> heap_pool_destroy m p;
       Some (0, m, s, out) } }"

section \<open>What an allocator promises\<close>

text \<open>\<open>live s\<close> are the blocks in use.\<close>

definition allocator_ok :: "'s allocator \<Rightarrow> ('s \<Rightarrow> u64 set) \<Rightarrow> bool" where
  "allocator_ok A live \<longleftrightarrow>
     (\<forall>s n a s'. a_malloc A s n = (Some a, s') \<longrightarrow> a \<notin> live s \<and> live s' = insert a (live s)) \<and>
     (\<forall>s n s'. a_malloc A s n = (None, s') \<longrightarrow> live s' = live s) \<and>
     (\<forall>s a. a \<in> live s \<longrightarrow> live (a_free A s (Some a)) = live s - {a}) \<and>
     (\<forall>s. live (a_free A s None) = live s)"

lemma malloc_free_loop:
  assumes "allocator_ok A live"
  shows "malloc_loop A n s = (pp, s') \<Longrightarrow> live (free_loop A pp s') = live s"
proof (induction n arbitrary: s pp s')
  case 0
  then show ?case by (simp add: free_loop_def)
next
  case (Suc n)
  obtain r s1 where r: "a_malloc A s 128 = (r, s1)" by fastforce
  show ?case
  proof (cases r)
    case None
    then show ?thesis using Suc.prems r assms by (auto simp: free_loop_def allocator_ok_def)
  next
    case (Some a)
    obtain rs s2 where l: "malloc_loop A n s1 = (rs, s2)" by fastforce
    have "a \<notin> live s" "live s1 = insert a (live s)" using assms r Some by (auto simp: allocator_ok_def)
    moreover have "live (free_loop A rs s2) = live s1" by (rule Suc.IH [OF l])
    ultimately show ?thesis using Suc.prems r Some l assms by (auto simp: free_loop_def allocator_ok_def)
  qed
qed

section \<open>The run\<close>

text \<open>
  C8: when mmap succeeds and the allocator keeps its blocks apart, the test program runs
  without a fault, prints its four durations, returns 0, has released every block it took from
  malloc and leaves the memory as it found it, except that the pages it mapped are unmapped.
\<close>

theorem heap_pool_main_clean:
  assumes "map_ok 4096 p 4096" "p \<noteq> 0" "allocator_ok A live"
  shows "\<exists>m' s'. heap_pool_main m 4096 (Some p) A s now = Some (0, m', s',
      map (\<lambda>k. (Stdout, duration_line (now (2 * k)) (now (2 * k + 1)))) [0..<4]) \<and>
    (\<forall>x. m' x = (if x - p < 4096 then None else m x)) \<and> live s' = live s"
proof -
  let ?d = "create_desc 4096 p 10 128 0"
  have mo: "map_ok 4096 p (create_allocsize 4096 10 128 0)" using assms by (simp add: nrel_example)
  have d: "hpd_allocsize ?d = 4096" "hpd_nrel ?d = 27" by (simp_all add: create_desc_def nrel_example)
  obtain m1 where m1: "heap_pool_create m 4096 (Some p) 10 128 0 = Some (p, m1)"
    "\<forall>x. 4096 \<le> x - p \<longrightarrow> m1 x = m x"
    using heap_pool_create_run [OF request_example mo] d by auto
  let ?c = "map (chunk_addr p ?d) [0..<27]"
  have av: "hp_avail m1 p ?d m1 ?c" using created_avail [OF request_example mo m1(1)] by (simp add: nrel_example)
  obtain m2 m3 where m3: "drain (\<lambda>m. heap_pool_alloc m p) IS_ERR_OR_NULL 10 m1 = Some (take 10 ?c, None, m2)"
    "release_all (\<lambda>m. heap_pool_free m p) (take 10 ?c) m2 = Some m3"
    "hp_avail m1 p ?d m3 (rev (take 10 ?c) @ drop 10 ?c)"
    using hp.drain_release [OF av, of 10] by (auto simp del: take_upt drop_upt)
  then have g: "pool_geom ?d" "meta_frame p ?d m1 m3" and "load64 m3 (at_allocsize p) = Some 4096"
    by (auto elim!: hp_availD simp: pool_at_def pool_inv_def read_desc_iff d)
  moreover have "\<not> IS_ERR_OR_NULL p"
    using assms not_IS_ERR_iff [of p] by (auto simp: map_ok_def IS_ERR_OR_NULL_def IS_ERR_def)
  moreover obtain pp s1 where s1: "malloc_loop A 10 s = (pp, s1)" by fastforce
  moreover have "[0..<4] = [0, 1, 2, 3]" by (simp add: upt_rec)
  ultimately have "heap_pool_main m 4096 (Some p) A s now = Some (0, munmap m3 p 4096, free_loop A pp s1,
      map (\<lambda>k. (Stdout, duration_line (now (2 * k)) (now (2 * k + 1)))) [0..<4])"
    using m1(1) m3(1,2) by (simp add: heap_pool_main_def heap_pool_destroy_def put_text_def Let_def)
  moreover have "m3 x = m x" if "4096 \<le> x - p" for x
    using m1(2) that meta_frame_outside [OF g(2,1), of x] by (simp add: d)
  moreover have "live (free_loop A pp s1) = live s" by (rule malloc_free_loop [OF assms(3) s1])
  ultimately show ?thesis by (auto simp: munmap_def not_less)
qed

text \<open>An allocator that gives the next block of a row, unless it is in use.\<close>

definition row :: "(u64 \<times> u64 list) allocator" where
  "row = \<lparr> a_malloc = \<lambda>(a, bs) n. if a \<in> set bs then (None, (a, bs)) else (Some a, (a + 128, a # bs)),
     a_calloc = \<lambda>s x y. (None, s), a_realloc = \<lambda>s p n. (None, s),
     a_free = \<lambda>(a, bs) p. (a, case p of None \<Rightarrow> bs | Some b \<Rightarrow> removeAll b bs), a_print = \<lambda>s. s \<rparr>"

lemma row_ok: "allocator_ok row (\<lambda>(a, bs). set bs)"
  by (auto simp: allocator_ok_def row_def split: if_splits)

theorem heap_pool_main_clean_witness:
  "\<exists>m' s' out. heap_pool_main (\<lambda>_. None) 4096 (Some 65536) row (0, [4]) (\<lambda>k. \<lparr> tv_sec = int k, tv_usec = 0 \<rparr>) =
     Some (0, m', s', out) \<and> m' = (\<lambda>_. None) \<and> set (snd s') = {4} \<and> length out = 4"
  using heap_pool_main_clean [OF _ _ row_ok, of 65536 "\<lambda>_. None" "(0, [4])"]
  by (fastforce simp: map_ok_def fun_eq_iff split_beta)

end
