(* ===== verification/Linked_Walk.thy ===== *)
theory Linked_Walk
  imports Prelude
begin

text \<open>
  Walks along \<open>next\<close> pointers, shared by \<open>tad/s_list.h\<close> and \<open>tad/n_tree.h\<close>. A pointer is
  \<open>None\<close> for the null pointer or \<open>Some a\<close> for the object at address \<open>a\<close>; reading a field of an
  object that does not exist is a fault, the outer \<open>None\<close>. A walk over a cyclic list does not
  return; as the least fixpoint of its equation it is then \<open>None\<close> too.
\<close>

section \<open>The walk with a condition\<close>

type_synonym ptr = "nat option"

text \<open>
  The loop \<open>for (walk = start; walk && cond; walk = walk->next) pwalk = walk;\<close> from the pair
  \<open>walk\<close>, \<open>pwalk\<close>: the pair when it stops.
\<close>

partial_function (option) walk_while ::
  "(nat \<Rightarrow> ptr option) \<Rightarrow> (nat \<Rightarrow> bool) \<Rightarrow> ptr \<Rightarrow> ptr \<Rightarrow> (ptr \<times> ptr) option" where
  "walk_while nxt cond walk pwalk = (case walk of
     None \<Rightarrow> Some (None, pwalk)
   | Some a \<Rightarrow>
       if cond a then do { n \<leftarrow> nxt a; walk_while nxt cond n (Some a) }
       else Some (walk, pwalk))"

lemma walk_while_simps [simp]:
  "walk_while nxt cond None pw = Some (None, pw)"
  "walk_while nxt cond (Some a) pw =
     (if cond a then do { n \<leftarrow> nxt a; walk_while nxt cond n (Some a) } else Some (Some a, pw))"
  by (subst walk_while.simps, simp)+

text \<open>The list of objects a walk visits.\<close>

partial_function (option) walk_list :: "(nat \<Rightarrow> ptr option) \<Rightarrow> ptr \<Rightarrow> nat list option" where
  "walk_list nxt walk = (case walk of
     None \<Rightarrow> Some []
   | Some a \<Rightarrow> do { n \<leftarrow> nxt a; as \<leftarrow> walk_list nxt n; Some (a # as) })"

lemma walk_list_simps [simp]:
  "walk_list nxt None = Some []"
  "walk_list nxt (Some a) = do { n \<leftarrow> nxt a; as \<leftarrow> walk_list nxt n; Some (a # as) }"
  by (subst walk_list.simps, simp)+

section \<open>Segments\<close>

text \<open>\<open>seg nxt p as q\<close>: following \<open>nxt\<close> from \<open>p\<close> one meets the objects \<open>as\<close>, then \<open>q\<close>.\<close>

fun seg :: "(nat \<Rightarrow> ptr option) \<Rightarrow> ptr \<Rightarrow> nat list \<Rightarrow> ptr \<Rightarrow> bool" where
  "seg nxt p [] q \<longleftrightarrow> p = q"
| "seg nxt p (a # as) q \<longleftrightarrow> p = Some a \<and> (case nxt a of None \<Rightarrow> False | Some n \<Rightarrow> seg nxt n as q)"

definition head_or :: "nat list \<Rightarrow> ptr \<Rightarrow> ptr" where
  "head_or as q = (case as of [] \<Rightarrow> q | a # _ \<Rightarrow> Some a)"

definition last_or :: "nat list \<Rightarrow> ptr \<Rightarrow> ptr" where
  "last_or as q = (if as = [] then q else Some (last as))"

lemma head_or_simps [simp]: "head_or [] q = q" "head_or (a # as) q = Some a"
  by (simp_all add: head_or_def)

lemma last_or_simps [simp]: "last_or [] q = q" "last_or (as @ [a]) q = Some a"
  by (simp_all add: last_or_def)

lemma last_or_Cons: "last_or (a # as) q = last_or as (Some a)"
  by (simp add: last_or_def)

lemma seg_head: "seg nxt p as q \<Longrightarrow> p = head_or as q"
  by (cases as) auto

lemma seg_append:
  "seg nxt p (as @ bs) q \<longleftrightarrow> (\<exists>r. seg nxt p as r \<and> seg nxt r bs q)"
  by (induction as arbitrary: p) (auto split: option.splits)

lemma seg_cong: "(\<And>a. a \<in> set as \<Longrightarrow> nxt' a = nxt a) \<Longrightarrow> seg nxt' p as q = seg nxt p as q"
  by (induction as arbitrary: p) (auto split: option.splits)

lemma seg_fun: "seg nxt p as q \<Longrightarrow> seg nxt p bs None \<Longrightarrow> take (length as) bs = as"
proof (induction as arbitrary: p bs)
  case (Cons a as)
  then show ?case by (cases bs) (auto split: option.splits)
qed simp

lemma walk_list_seg: "seg nxt p as None \<Longrightarrow> walk_list nxt p = Some as"
  by (induction as arbitrary: p) (auto split: option.splits)

lemma walk_while_stops:
  "seg nxt p as q \<Longrightarrow> (\<And>a. a \<in> set as \<Longrightarrow> cond a) \<Longrightarrow> (\<And>a. q = Some a \<Longrightarrow> \<not> cond a) \<Longrightarrow>
   walk_while nxt cond p pw = Some (q, last_or as pw)"
proof (induction as arbitrary: p pw)
  case Nil
  then show ?case by (cases q) auto
next
  case (Cons a as)
  then obtain n where n: "p = Some a" "nxt a = Some n" "seg nxt n as q"
    by (auto split: option.splits)
  have "walk_while nxt cond n (Some a) = Some (q, last_or as (Some a))"
    using Cons.prems n by (intro Cons.IH) auto
  then show ?case using n Cons.prems by (simp add: last_or_Cons)
qed

text \<open>Where a walk over a whole list stops.\<close>

lemma walk_while_list:
  assumes "seg nxt p as None"
  shows "walk_while nxt cond p None =
    Some (head_or (dropWhile cond as) None, last_or (takeWhile cond as) None)"
proof -
  let ?t = "takeWhile cond as" and ?d = "dropWhile cond as"
  obtain r where r: "seg nxt p ?t r" "seg nxt r ?d None"
    using assms seg_append [of nxt p ?t ?d None] by auto
  have "r = head_or ?d None" using r(2) by (rule seg_head)
  moreover have "\<not> cond a" if "head_or ?d None = Some a" for a
    using that hd_dropWhile [of cond as] by (cases ?d) auto
  moreover have "cond a" if "a \<in> set ?t" for a using that by (auto dest: set_takeWhileD)
  ultimately show ?thesis using walk_while_stops [OF r(1)] by blast
qed

lemma takeWhile_stop: "\<forall>x\<in>set as. P x \<Longrightarrow> \<not> P y \<Longrightarrow> takeWhile P (as @ y # bs) = as"
  by (induction as) auto

lemma dropWhile_stop: "\<forall>x\<in>set as. P x \<Longrightarrow> \<not> P y \<Longrightarrow> dropWhile P (as @ y # bs) = y # bs"
  by (induction as) auto

section \<open>Splicing\<close>

text \<open>A list with the link after its first part redirected.\<close>

lemma seg_upd_notin [simp]: "a \<notin> set as \<Longrightarrow> seg (nxt(a := n)) p as q = seg nxt p as q"
  by (intro seg_cong) auto

lemma seg_redirect:
  assumes "seg nxt p (as @ [a]) q" "a \<notin> set as"
  shows "seg (nxt(a := Some r)) p (as @ [a]) r"
  using assms by (auto simp: seg_append split: option.splits)

lemma seg_splice_out:
  assumes "seg nxt p (as @ [a, b] @ bs) None" "distinct (as @ [a, b] @ bs)"
  shows "seg (nxt(a := nxt b)) p (as @ [a] @ bs) None"
  using assms by (auto simp: seg_append split: option.splits)

lemma seg_splice_in:
  assumes "seg nxt p (as @ [a] @ bs) None" "distinct (as @ [a, c] @ bs)"
  shows "seg (nxt(c := nxt a, a := Some (Some c))) p (as @ [a, c] @ bs) None"
  using assms by (auto simp: seg_append split: option.splits)

section \<open>Comparators\<close>

text \<open>
  What a comparison function in the style of \<open>strcmp\<close> promises: only the sign counts, exchanging
  the arguments exchanges it, and the order is transitive.
\<close>

locale comparison =
  fixes cmp :: "'a \<Rightarrow> 'a \<Rightarrow> int"
  assumes cmp_swap: "cmp x y < 0 \<longleftrightarrow> 0 < cmp y x"
    and cmp_trans: "cmp x y \<le> 0 \<Longrightarrow> cmp y z \<le> 0 \<Longrightarrow> cmp x z \<le> 0"
begin

lemma cmp_refl [simp]: "cmp x x = 0"
  using cmp_swap [of x x] by linarith

lemma cmp_flip: "cmp x y \<le> 0 \<longleftrightarrow> 0 \<le> cmp y x"
  using cmp_swap [of y x] by linarith

lemma cmp_total: "cmp x y \<le> 0 \<or> cmp y x \<le> 0"
  using cmp_flip [of x y] by linarith

lemma cmp_less_le: "cmp x y < 0 \<Longrightarrow> cmp y z \<le> 0 \<Longrightarrow> cmp x z \<le> 0"
  using cmp_trans by (metis less_imp_le)

lemma cmp_zero_sym: "cmp x y = 0 \<longleftrightarrow> cmp y x = 0"
  using cmp_swap [of x y] cmp_swap [of y x] by linarith

lemma cmp_zero_trans: "cmp x y = 0 \<Longrightarrow> cmp y z = 0 \<Longrightarrow> cmp x z = 0"
  by (metis cmp_flip cmp_trans cmp_zero_sym order.refl order_antisym)

definition sorted_by :: "'a list \<Rightarrow> bool" where
  "sorted_by xs = sorted_wrt (\<lambda>x y. cmp x y \<le> 0) xs"

text \<open>Insertion before the first element that is not smaller, and after the last not greater.\<close>

lemma sorted_insert_before:
  assumes "sorted_by xs"
  shows "sorted_by (takeWhile (\<lambda>y. cmp y x < 0) xs @ x # dropWhile (\<lambda>y. cmp y x < 0) xs)"
  using assms
proof (induction xs)
  case Nil
  then show ?case by (simp add: sorted_by_def)
next
  case (Cons y ys)
  show ?case
  proof (cases "cmp y x < 0")
    case True
    have "set (takeWhile (\<lambda>y. cmp y x < 0) ys @ x # dropWhile (\<lambda>y. cmp y x < 0) ys) = insert x (set ys)"
      by (metis (no_types, lifting) Un_insert_right list.simps(15) set_append takeWhile_dropWhile_id)
    then show ?thesis using True Cons unfolding sorted_by_def by simp
  next
    case False
    then have "cmp x y \<le> 0" using cmp_flip [of x y] by simp
    then show ?thesis using False Cons.prems cmp_trans unfolding sorted_by_def by auto
  qed
qed

lemma sorted_insert_after:
  assumes "sorted_by xs"
  shows "sorted_by (takeWhile (\<lambda>y. cmp y x \<le> 0) xs @ x # dropWhile (\<lambda>y. cmp y x \<le> 0) xs)"
  using assms
proof (induction xs)
  case Nil
  then show ?case by (simp add: sorted_by_def)
next
  case (Cons y ys)
  show ?case
  proof (cases "cmp y x \<le> 0")
    case True
    have "set (takeWhile (\<lambda>y. cmp y x \<le> 0) ys @ x # dropWhile (\<lambda>y. cmp y x \<le> 0) ys) = insert x (set ys)"
      by (metis (no_types, lifting) Un_insert_right list.simps(15) set_append takeWhile_dropWhile_id)
    then show ?thesis using True Cons unfolding sorted_by_def by simp
  next
    case False
    then have "cmp x y \<le> 0" using cmp_flip [of x y] by simp
    then show ?thesis using False Cons.prems cmp_trans unfolding sorted_by_def by auto
  qed
qed

lemma takeWhile_after_all:
  assumes "sorted_by xs" "y \<in> set (dropWhile (\<lambda>y. cmp y x \<le> 0) xs)"
  shows "0 < cmp y x"
proof -
  obtain z zs where z: "dropWhile (\<lambda>y. cmp y x \<le> 0) xs = z # zs"
    using assms(2) by (cases "dropWhile (\<lambda>y. cmp y x \<le> 0) xs") auto
  have "\<not> cmp z x \<le> 0" using z hd_dropWhile [of "\<lambda>y. cmp y x \<le> 0" xs] by auto
  moreover have "sorted_by (z # zs)"
    using assms(1) z unfolding sorted_by_def
    by (metis sorted_wrt_append takeWhile_dropWhile_id)
  then have "cmp z y \<le> 0" using assms(2) z by (auto simp: sorted_by_def)
  ultimately show ?thesis using cmp_trans [of z y x] by linarith
qed

end

end
