(* ===== verification/S_List.thy ===== *)
theory S_List
  imports Linked_Walk
begin

text \<open>
  The singly linked list of \<open>tad/s_list.h\<close>: the macros \<open>slist_elt_has_next\<close>,
  \<open>slist_remove_elt\<close>, \<open>slist_insert_elt\<close> and \<open>slist_foreach\<close> on a heap of elements. The
  macros cast their arguments to \<open>struct slist_elt_t *\<close>, so the model keeps the link only; the
  comparator a caller passes is a function on addresses.
\<close>

section \<open>The heap and the macros\<close>

record slist_elt_t =
  se_next :: ptr

type_synonym slist_heap = "nat \<Rightarrow> slist_elt_t option"

definition SLIST_ELT_INIT :: slist_elt_t where
  "SLIST_ELT_INIT = \<lparr>se_next = None\<rparr>"

definition slist_next :: "slist_heap \<Rightarrow> nat \<Rightarrow> ptr option" where
  "slist_next h a = map_option se_next (h a)"

definition slist_deref :: "slist_heap \<Rightarrow> ptr \<Rightarrow> ptr option" where
  "slist_deref h p = (case p of None \<Rightarrow> None | Some a \<Rightarrow> slist_next h a)"

definition slist_set_next :: "slist_heap \<Rightarrow> ptr \<Rightarrow> ptr \<Rightarrow> slist_heap option" where
  "slist_set_next h p n = (case p of
     None \<Rightarrow> None
   | Some a \<Rightarrow> do { e \<leftarrow> h a; Some (h(a \<mapsto> e\<lparr>se_next := n\<rparr>)) })"

definition slist_elt_has_next :: "slist_heap \<Rightarrow> ptr \<Rightarrow> bool option" where
  "slist_elt_has_next h elt = do { n \<leftarrow> slist_deref h elt; Some (n \<noteq> None) }"

definition slist_foreach_cond ::
  "slist_heap \<Rightarrow> ptr \<Rightarrow> (nat \<Rightarrow> bool) \<Rightarrow> (ptr \<times> ptr) option" where
  "slist_foreach_cond h start cond = walk_while (slist_next h) cond start None"

definition slist_foreach :: "slist_heap \<Rightarrow> ptr \<Rightarrow> nat list option" where
  "slist_foreach h start = walk_list (slist_next h) start"

definition slist_remove_elt :: "slist_heap \<Rightarrow> ptr \<Rightarrow> ptr \<Rightarrow> (ptr \<times> slist_heap) option" where
  "slist_remove_elt h root node = do {
     (walk, pwalk) \<leftarrow> slist_foreach_cond h root (\<lambda>walk. Some walk \<noteq> node);
     if walk = node then
       if pwalk = None then do { newr \<leftarrow> slist_deref h root; Some (newr, h) }
       else do {
         n \<leftarrow> slist_deref h walk;
         h \<leftarrow> slist_set_next h pwalk n;
         Some (root, h) }
     else Some (root, h) }"

definition slist_insert_elt ::
  "slist_heap \<Rightarrow> ptr \<Rightarrow> nat \<Rightarrow> (nat \<Rightarrow> nat \<Rightarrow> int) \<Rightarrow> (ptr \<times> slist_heap) option" where
  "slist_insert_elt h root link comparator = do {
     (walk, pwalk) \<leftarrow> slist_foreach_cond h root (\<lambda>walk. comparator walk link < 0);
     if pwalk = None then do {
       h \<leftarrow> slist_set_next h (Some link) root;
       Some (Some link, h) }
     else do {
       n \<leftarrow> slist_deref h pwalk;
       h \<leftarrow> slist_set_next h (Some link) n;
       h \<leftarrow> slist_set_next h pwalk (Some link);
       Some (root, h) } }"

section \<open>Lists in the heap\<close>

definition slist_at :: "slist_heap \<Rightarrow> ptr \<Rightarrow> nat list \<Rightarrow> bool" where
  "slist_at h p xs \<longleftrightarrow> seg (slist_next h) p xs None \<and> distinct xs"

lemma slist_next_upd: "slist_next (h(a \<mapsto> e)) = (slist_next h)(a := Some (se_next e))"
  by (auto simp: slist_next_def fun_eq_iff)

lemma slist_set_next_next:
  "h a = Some e \<Longrightarrow> slist_set_next h (Some a) n = Some (h(a \<mapsto> e\<lparr>se_next := n\<rparr>))"
  by (simp add: slist_set_next_def)

lemma seg_alloc: "seg (slist_next h) p xs q \<Longrightarrow> a \<in> set xs \<Longrightarrow> \<exists>e. h a = Some e"
  by (induction xs arbitrary: p) (auto simp: slist_next_def split: option.splits)

lemma slist_foreach_at: "slist_at h p xs \<Longrightarrow> slist_foreach h p = Some xs"
  by (simp add: slist_at_def slist_foreach_def walk_list_seg)

lemma slist_at_walk:
  "slist_at h p xs \<Longrightarrow> slist_foreach_cond h p cond =
     Some (head_or (dropWhile cond xs) None, last_or (takeWhile cond xs) None)"
  by (simp add: slist_at_def slist_foreach_cond_def walk_while_list)

lemma slist_at_head: "slist_at h p xs \<Longrightarrow> p = head_or xs None"
  by (auto simp: slist_at_def dest: seg_head)

lemma takeWhile_neq:
  assumes "x \<notin> set as"
  shows "takeWhile (\<lambda>y. Some y \<noteq> Some x) (as @ x # bs) = as"
    and "dropWhile (\<lambda>y. Some y \<noteq> Some x) (as @ x # bs) = x # bs"
  using assms by (induction as) auto

lemma dropWhile_all: "x \<notin> set xs \<Longrightarrow> dropWhile (\<lambda>y. Some y \<noteq> Some x) xs = []"
  by (induction xs) auto

lemma slist_remove_elt_at:
  assumes "slist_at h p (as @ x # bs)"
  shows "\<exists>p' h'. slist_remove_elt h p (Some x) = Some (p', h') \<and> slist_at h' p' (as @ bs) \<and>
    (\<forall>a. a \<notin> set as \<longrightarrow> h' a = h a)"
proof -
  have d: "distinct (as @ x # bs)" and s: "seg (slist_next h) p (as @ x # bs) None"
    using assms by (auto simp: slist_at_def)
  obtain e where e: "h x = Some e" using seg_alloc [OF s, of x] by auto
  have w: "slist_foreach_cond h p (\<lambda>y. Some y \<noteq> Some x) = Some (Some x, last_or as None)"
    unfolding slist_at_walk [OF assms] using takeWhile_neq [of x as bs] d by simp
  show ?thesis
  proof (cases as rule: rev_cases)
    case Nil
    then have "p = Some x" "seg (slist_next h) (se_next e) bs None"
      using s e by (auto simp: slist_next_def)
    then show ?thesis using Nil w d e
      by (auto simp: slist_remove_elt_def slist_deref_def slist_next_def slist_at_def)
  next
    case (snoc cs a)
    obtain f where f: "h a = Some f" using seg_alloc [OF s, of a] snoc by auto
    let ?h = "h(a \<mapsto> f\<lparr>se_next := se_next e\<rparr>)"
    have "slist_remove_elt h p (Some x) = Some (p, ?h)"
      using w snoc e f
      by (simp add: slist_remove_elt_def slist_deref_def slist_next_def slist_set_next_next)
    moreover have "slist_at ?h p (as @ bs)"
      using seg_splice_out [of "slist_next h" p cs a x bs] s d e snoc
      by (simp add: slist_at_def slist_next_upd) (simp add: slist_next_def)
    ultimately show ?thesis using d snoc by auto
  qed
qed

lemma slist_remove_elt_absent:
  assumes "slist_at h p xs" "x \<notin> set xs"
  shows "slist_remove_elt h p (Some x) = Some (p, h)"
  using slist_at_walk [OF assms(1)] dropWhile_all [OF assms(2)]
  by (simp only: slist_remove_elt_def) simp

lemma slist_insert_elt_at:
  assumes at: "slist_at h p xs" and link: "h link = Some l" "link \<notin> set xs"
  shows "\<exists>p' h'. slist_insert_elt h p link comparator = Some (p', h') \<and>
    slist_at h' p' (takeWhile (\<lambda>y. comparator y link < 0) xs @
      link # dropWhile (\<lambda>y. comparator y link < 0) xs) \<and>
    (\<forall>a. a \<noteq> link \<longrightarrow> a \<notin> set xs \<longrightarrow> h' a = h a)"
proof -
  let ?P = "\<lambda>y. comparator y link < 0"
  obtain as bs where ab: "as = takeWhile ?P xs" "bs = dropWhile ?P xs" by simp
  then have xs: "xs = as @ bs" by simp
  have s: "seg (slist_next h) p (as @ bs) None" and d: "distinct (as @ link # bs)"
    using at link(2) xs by (auto simp: slist_at_def)
  have w: "slist_foreach_cond h p ?P = Some (head_or bs None, last_or as None)"
    unfolding slist_at_walk [OF at] ab ..
  show ?thesis
  proof (cases as rule: rev_cases)
    case Nil
    let ?h = "h(link \<mapsto> l\<lparr>se_next := p\<rparr>)"
    have "slist_insert_elt h p link comparator = Some (Some link, ?h)"
      using w Nil link(1) by (simp add: slist_insert_elt_def slist_set_next_next)
    moreover have "slist_at ?h (Some link) (as @ link # bs)"
      using s d Nil by (simp add: slist_at_def slist_next_upd)
    ultimately show ?thesis unfolding ab [symmetric] by auto
  next
    case (snoc cs a)
    obtain e where e: "h a = Some e" using seg_alloc [OF s, of a] snoc by auto
    have ne: "a \<noteq> link" using d snoc by auto
    let ?h = "h(link \<mapsto> l\<lparr>se_next := se_next e\<rparr>, a \<mapsto> e\<lparr>se_next := Some link\<rparr>)"
    have "slist_insert_elt h p link comparator = Some (p, ?h)"
      using w snoc link(1) e ne
      by (simp add: slist_insert_elt_def slist_deref_def slist_next_def slist_set_next_next)
    moreover have "slist_at ?h p (as @ link # bs)"
      using seg_splice_in [of "slist_next h" p cs a bs link] s d e snoc
      by (simp add: slist_at_def slist_next_upd) (simp add: slist_next_def)
    moreover have "?h b = h b" if "b \<noteq> link" "b \<notin> set xs" for b using that xs snoc by auto
    ultimately show ?thesis unfolding ab [symmetric] by blast
  qed
qed

section \<open>Sorted lists\<close>

text \<open>
  A list whose elements are compared, by their addresses, with a function in the style of
  \<open>strcmp\<close>: insertion keeps it in order and puts the new element before those that compare
  equal.
\<close>

locale list_order = comparison cmp for cmp :: "nat \<Rightarrow> nat \<Rightarrow> int"
begin

lemma slist_insert_sorted:
  assumes "slist_at h p xs" "h link = Some l" "link \<notin> set xs" "sorted_by xs"
  shows "\<exists>p' h' as bs. slist_insert_elt h p link cmp = Some (p', h') \<and> xs = as @ bs \<and>
    slist_at h' p' (as @ link # bs) \<and> sorted_by (as @ link # bs) \<and> (\<forall>y\<in>set as. cmp y link < 0)"
proof -
  let ?P = "\<lambda>y. cmp y link < 0"
  have "xs = takeWhile ?P xs @ dropWhile ?P xs" "\<forall>y\<in>set (takeWhile ?P xs). cmp y link < 0"
    by (auto dest: set_takeWhileD)
  then show ?thesis
    using slist_insert_elt_at [OF assms(1-3), of cmp] sorted_insert_before [OF assms(4), of link]
    by blast
qed

end

end
