(* ===== verification/N_Tree.thy ===== *)
theory N_Tree
  imports Linked_Walk
begin

text \<open>
  The n-ary tree of \<open>tad/n_tree.h\<close>: nodes with a parent, a first child and a next sibling. The
  macros are modelled on a heap of nodes; \<open>tree_at\<close> relates the heap to a rose tree.
\<close>

section \<open>The heap and the macros\<close>

record ntree_node =
  nn_next :: ptr
  nn_parent :: ptr
  nn_child :: ptr

type_synonym ntree_heap = "nat \<Rightarrow> ntree_node option"

definition NTREE_ELT_INIT :: ntree_node where
  "NTREE_ELT_INIT = \<lparr>nn_next = None, nn_parent = None, nn_child = None\<rparr>"

definition ntree_next :: "ntree_heap \<Rightarrow> nat \<Rightarrow> ptr option" where
  "ntree_next h a = map_option nn_next (h a)"

definition ntree_parent :: "ntree_heap \<Rightarrow> nat \<Rightarrow> ptr option" where
  "ntree_parent h a = map_option nn_parent (h a)"

definition ntree_child :: "ntree_heap \<Rightarrow> nat \<Rightarrow> ptr option" where
  "ntree_child h a = map_option nn_child (h a)"

definition ntree_update :: "(ntree_node \<Rightarrow> ntree_node) \<Rightarrow> ntree_heap \<Rightarrow> nat \<Rightarrow> ntree_heap option" where
  "ntree_update f h a = do { nd \<leftarrow> h a; Some (h(a \<mapsto> f nd)) }"

abbreviation set_next :: "ntree_heap \<Rightarrow> nat \<Rightarrow> ptr \<Rightarrow> ntree_heap option" where
  "set_next h a p \<equiv> ntree_update (nn_next_update (\<lambda>_. p)) h a"

abbreviation set_parent :: "ntree_heap \<Rightarrow> nat \<Rightarrow> ptr \<Rightarrow> ntree_heap option" where
  "set_parent h a p \<equiv> ntree_update (nn_parent_update (\<lambda>_. p)) h a"

abbreviation set_child :: "ntree_heap \<Rightarrow> nat \<Rightarrow> ptr \<Rightarrow> ntree_heap option" where
  "set_child h a p \<equiv> ntree_update (nn_child_update (\<lambda>_. p)) h a"

definition ntree_elt_is_root :: "ntree_heap \<Rightarrow> nat \<Rightarrow> bool option" where
  "ntree_elt_is_root h elt = do { p \<leftarrow> ntree_parent h elt; Some (p = None) }"

definition ntree_elt_has_child :: "ntree_heap \<Rightarrow> nat \<Rightarrow> bool option" where
  "ntree_elt_has_child h elt = do { p \<leftarrow> ntree_child h elt; Some (p \<noteq> None) }"

definition ntree_elt_has_next :: "ntree_heap \<Rightarrow> nat \<Rightarrow> bool option" where
  "ntree_elt_has_next h elt = do { p \<leftarrow> ntree_next h elt; Some (p \<noteq> None) }"

definition ntree_foreach_child_cond ::
  "ntree_heap \<Rightarrow> nat \<Rightarrow> (nat \<Rightarrow> bool) \<Rightarrow> (ptr \<times> ptr) option" where
  "ntree_foreach_child_cond h starter cond = do {
     first \<leftarrow> ntree_child h starter;
     walk_while (ntree_next h) cond first None }"

definition ntree_foreach_child :: "ntree_heap \<Rightarrow> nat \<Rightarrow> nat list option" where
  "ntree_foreach_child h starter = do {
     first \<leftarrow> ntree_child h starter;
     walk_list (ntree_next h) first }"

definition ntree_foreach_ancestor :: "ntree_heap \<Rightarrow> nat \<Rightarrow> nat list option" where
  "ntree_foreach_ancestor h starter = do {
     first \<leftarrow> ntree_parent h starter;
     walk_list (ntree_parent h) first }"

definition ntree_prepend_child :: "ntree_heap \<Rightarrow> nat \<Rightarrow> nat \<Rightarrow> ntree_heap option" where
  "ntree_prepend_child h elt c = do {
     tmp \<leftarrow> ntree_child h elt;
     h \<leftarrow> set_parent h c (Some elt);
     h \<leftarrow> set_child h elt (Some c);
     set_next h c tmp }"

definition ntree_unlink :: "ntree_heap \<Rightarrow> nat \<Rightarrow> ptr \<Rightarrow> ptr \<Rightarrow> ntree_heap option" where
  "ntree_unlink h father walk pwalk = (case walk of
     None \<Rightarrow> Some h
   | Some w \<Rightarrow> (case pwalk of
       Some pw \<Rightarrow> do { n \<leftarrow> ntree_next h w; set_next h pw n }
     | None \<Rightarrow> do { n \<leftarrow> ntree_next h w; set_child h father n }))"

definition ntree_remove_child_if ::
  "ntree_heap \<Rightarrow> nat \<Rightarrow> (nat \<Rightarrow> bool) \<Rightarrow> ntree_heap option" where
  "ntree_remove_child_if h father condition = do {
     (walk, pwalk) \<leftarrow> ntree_foreach_child_cond h father condition;
     ntree_unlink h father walk pwalk }"

definition ntree_remove_child :: "ntree_heap \<Rightarrow> nat \<Rightarrow> nat \<Rightarrow> ntree_heap option" where
  "ntree_remove_child h father c = do {
     (walk, pwalk) \<leftarrow> ntree_foreach_child_cond h father (\<lambda>walk. walk \<noteq> c);
     ntree_unlink h father walk pwalk }"

definition ntree_insert_child ::
  "ntree_heap \<Rightarrow> nat \<Rightarrow> nat \<Rightarrow> (nat \<Rightarrow> nat \<Rightarrow> int) \<Rightarrow> ntree_heap option" where
  "ntree_insert_child h father c comparator = do {
     h \<leftarrow> set_parent h c (Some father);
     first \<leftarrow> ntree_child h father;
     if first = None then set_child h father (Some c)
     else do {
       (walk, pwalk) \<leftarrow> ntree_foreach_child_cond h father (\<lambda>walk. comparator walk c \<le> 0);
       case pwalk of
         None \<Rightarrow> do {
           n \<leftarrow> ntree_child h father;
           h \<leftarrow> set_next h c n;
           set_child h father (Some c) }
       | Some pw \<Rightarrow> do {
           n \<leftarrow> ntree_next h pw;
           h \<leftarrow> set_next h c n;
           set_next h pw (Some c) } } }"

section \<open>Trees in the heap\<close>

datatype ntree = NTree nat "ntree list"

fun root_of :: "ntree \<Rightarrow> nat" where
  "root_of (NTree a ts) = a"

fun subtrees_of :: "ntree \<Rightarrow> ntree list" where
  "subtrees_of (NTree a ts) = ts"

fun nodes :: "ntree list \<Rightarrow> nat list" where
  "nodes [] = []"
| "nodes (NTree a ts # us) = a # nodes ts @ nodes us"

text \<open>
  \<open>forest_at h par p ts\<close>: from \<open>p\<close> along the sibling links lie the roots of the trees \<open>ts\<close>,
  their parent is \<open>par\<close>, and the same holds of their children.
\<close>

fun forest_at :: "ntree_heap \<Rightarrow> ptr \<Rightarrow> ptr \<Rightarrow> ntree list \<Rightarrow> bool" where
  "forest_at h par p [] \<longleftrightarrow> p = None"
| "forest_at h par p (NTree a ts # us) \<longleftrightarrow> p = Some a \<and> (case h a of
     None \<Rightarrow> False
   | Some nd \<Rightarrow> nn_parent nd = par \<and> forest_at h (Some a) (nn_child nd) ts \<and>
       forest_at h par (nn_next nd) us)"

text \<open>A node with its descendants, whatever its siblings are.\<close>

definition tree_at :: "ntree_heap \<Rightarrow> ptr \<Rightarrow> ntree \<Rightarrow> bool" where
  "tree_at h par t \<longleftrightarrow> distinct (nodes [t]) \<and> (case h (root_of t) of
     None \<Rightarrow> False
   | Some nd \<Rightarrow> nn_parent nd = par \<and>
       forest_at h (Some (root_of t)) (nn_child nd) (subtrees_of t))"

lemma nodes_append [simp]: "nodes (ts @ us) = nodes ts @ nodes us"
  by (induction ts rule: nodes.induct) simp_all

lemma nodes_Cons: "nodes (t # us) = root_of t # nodes (subtrees_of t) @ nodes us"
  by (cases t) simp

lemma root_in_nodes: "t \<in> set ts \<Longrightarrow> root_of t \<in> set (nodes ts)"
  by (induction ts) (auto simp: nodes_Cons)

lemma forest_at_cong:
  "(\<And>a. a \<in> set (nodes ts) \<Longrightarrow> h' a = h a) \<Longrightarrow> forest_at h' par p ts = forest_at h par p ts"
  by (induction h par p ts rule: forest_at.induct) (auto split: option.splits)

lemma forest_at_upd [simp]:
  "a \<notin> set (nodes ts) \<Longrightarrow> forest_at (h(a := nd)) par p ts = forest_at h par p ts"
  by (rule forest_at_cong) auto

text \<open>The roots of a forest form a list; what else a forest is.\<close>

definition family :: "ntree_heap \<Rightarrow> ptr \<Rightarrow> ntree \<Rightarrow> bool" where
  "family h par t \<longleftrightarrow> (case h (root_of t) of
     None \<Rightarrow> False
   | Some nd \<Rightarrow> nn_parent nd = par \<and>
       forest_at h (Some (root_of t)) (nn_child nd) (subtrees_of t))"

lemma forest_at_iff:
  "forest_at h par p ts \<longleftrightarrow> seg (ntree_next h) p (map root_of ts) None \<and> (\<forall>t\<in>set ts. family h par t)"
proof (induction ts arbitrary: p)
  case Nil
  then show ?case by simp
next
  case (Cons t us)
  obtain a ts where t: "t = NTree a ts" by (cases t)
  show ?case unfolding t
    by (auto simp: Cons.IH family_def ntree_next_def split: option.splits)
qed

lemma tree_at_family: "tree_at h par t \<longleftrightarrow> distinct (nodes [t]) \<and> family h par t"
  by (simp add: tree_at_def family_def)

lemma family_cong:
  "(\<And>a. a \<in> set (nodes [t]) \<Longrightarrow> h' a = h a) \<Longrightarrow> family h' par t = family h par t"
  unfolding family_def
  by (subst forest_at_cong [of "subtrees_of t" h' h]) (auto simp: nodes_Cons split: option.splits)

lemma family_set_next:
  "h a = Some nd \<Longrightarrow> a \<notin> set (nodes (subtrees_of t)) \<Longrightarrow>
   family (h(a \<mapsto> nn_next_update f nd)) par t = family h par t"
  by (auto simp: family_def split: option.splits)

section \<open>The operations on trees\<close>

lemma ntree_update_Some: "h a = Some nd \<Longrightarrow> ntree_update f h a = Some (h(a \<mapsto> f nd))"
  by (simp add: ntree_update_def)

lemma ntree_next_upd: "ntree_next (h(a \<mapsto> nd)) = (ntree_next h)(a := Some (nn_next nd))"
  by (auto simp: ntree_next_def fun_eq_iff)

lemma tree_atD:
  assumes "tree_at h par (NTree f ts)"
  obtains nd where "h f = Some nd" "nn_parent nd = par" "f \<notin> set (nodes ts)" "distinct (nodes ts)"
    "seg (ntree_next h) (nn_child nd) (map root_of ts) None" "\<forall>t\<in>set ts. family h (Some f) t"
  using assms by (auto simp: tree_at_def forest_at_iff split: option.splits)

lemma tree_atI:
  assumes "h f = Some nd" "nn_parent nd = par" "f \<notin> set (nodes ts)" "distinct (nodes ts)"
    "seg (ntree_next h) (nn_child nd) (map root_of ts) None" "\<forall>t\<in>set ts. family h (Some f) t"
  shows "tree_at h par (NTree f ts)"
  using assms by (auto simp: tree_at_def forest_at_iff)

lemma distinct_roots: "distinct (nodes ts) \<Longrightarrow> distinct (map root_of ts)"
  by (induction ts) (auto simp: nodes_Cons dest!: root_in_nodes)

lemma root_notin_subtrees: "distinct (nodes ts) \<Longrightarrow> t \<in> set ts \<Longrightarrow> u \<in> set ts \<Longrightarrow>
  root_of t \<notin> set (nodes (subtrees_of u))"
proof (induction ts)
  case (Cons v ts)
  then show ?case
    using root_in_nodes [of t ts] in_set_conv_decomp [of u ts] by (auto simp: nodes_Cons)
qed simp

lemma nodes_subtrees: "t \<in> set ts \<Longrightarrow> set (nodes (subtrees_of t)) \<subseteq> set (nodes ts)"
  by (induction ts) (auto simp: nodes_Cons)

text \<open>Changing sibling links of roots and the node of the father leaves the families alone.\<close>

lemma family_same_but_next:
  assumes "h' (root_of t) = map_option (nn_next_update g) (h (root_of t))"
    and "\<And>a. a \<in> set (nodes (subtrees_of t)) \<Longrightarrow> h' a = h a"
  shows "family h' par t = family h par t"
  using forest_at_cong [of "subtrees_of t" h' h] assms by (auto simp: family_def split: option.splits)

lemma ntree_walk:
  assumes "tree_at h par (NTree f ts)"
  shows "ntree_foreach_child_cond h f cond =
    Some (head_or (dropWhile cond (map root_of ts)) None, last_or (takeWhile cond (map root_of ts)) None)"
  using assms by (auto simp: ntree_foreach_child_cond_def ntree_child_def walk_while_list elim!: tree_atD)

lemma ntree_foreach_child_at:
  "tree_at h par (NTree f ts) \<Longrightarrow> ntree_foreach_child h f = Some (map root_of ts)"
  by (auto simp: ntree_foreach_child_def ntree_child_def walk_list_seg elim!: tree_atD)

lemma ntree_prepend_child_at:
  assumes f: "tree_at h par (NTree f ts)" and c: "tree_at h cpar (NTree c cs)"
    and d: "distinct (nodes [NTree f ts, NTree c cs])"
  shows "\<exists>h'. ntree_prepend_child h f c = Some h' \<and> tree_at h' par (NTree f (NTree c cs # ts)) \<and>
    ntree_next h' f = ntree_next h f \<and> (\<forall>a. a \<noteq> f \<longrightarrow> a \<noteq> c \<longrightarrow> h' a = h a)"
proof -
  obtain nf where nf: "h f = Some nf" "nn_parent nf = par"
    "seg (ntree_next h) (nn_child nf) (map root_of ts) None" "\<forall>t\<in>set ts. family h (Some f) t"
    using f by (rule tree_atD)
  obtain nc where nc: "h c = Some nc" "seg (ntree_next h) (nn_child nc) (map root_of cs) None"
    "\<forall>t\<in>set cs. family h (Some c) t"
    using c by (rule tree_atD)
  let ?h = "h(c \<mapsto> nc\<lparr>nn_parent := Some f, nn_next := nn_child nf\<rparr>, f \<mapsto> nf\<lparr>nn_child := Some c\<rparr>)"
  have ne: "f \<noteq> c" using d by auto
  have run: "ntree_prepend_child h f c = Some ?h"
    using nf(1) nc(1) ne by (simp add: ntree_prepend_child_def ntree_child_def ntree_update_Some fun_upd_twist)
  have cong: "family ?h q t = family h q t" if "t \<in> set ts \<union> set cs" for q t
  proof (rule family_cong)
    fix a assume "a \<in> set (nodes [t])"
    then have "a \<in> set (nodes ts) \<union> set (nodes cs)"
      using that nodes_subtrees [of t] root_in_nodes [of t] by (auto simp: nodes_Cons)
    then show "?h a = h a" using d by auto
  qed
  have roots: "x \<noteq> f \<and> x \<noteq> c" if "x \<in> set (map root_of ts) \<union> set (map root_of cs)" for x
    using that d root_in_nodes by auto
  have sg: "seg (ntree_next ?h) p (map root_of us) None = seg (ntree_next h) p (map root_of us) None"
    if "us = ts \<or> us = cs" for p us
    using roots that by (intro seg_cong) (auto simp: ntree_next_def)
  have fc: "family ?h (Some f) (NTree c cs)"
    using nc(2,3) ne sg cong by (simp add: family_def forest_at_iff)
  have "tree_at ?h par (NTree f (NTree c cs # ts))"
  proof (rule tree_atI)
    show "?h f = Some (nf\<lparr>nn_child := Some c\<rparr>)" by simp
    show "seg (ntree_next ?h) (nn_child (nf\<lparr>nn_child := Some c\<rparr>)) (map root_of (NTree c cs # ts)) None"
      using nf(3) ne sg by (simp add: ntree_next_upd)
    show "\<forall>t\<in>set (NTree c cs # ts). family ?h (Some f) t" using fc nf(4) cong by simp
  qed (use nf(2) d in auto)
  moreover have "ntree_next ?h f = ntree_next h f" using nf(1) by (simp add: ntree_next_def)
  ultimately show ?thesis using run by auto
qed

lemma ntree_unlink_at:
  assumes f: "tree_at h par (NTree f (as @ t # bs))"
  shows "\<exists>h'. ntree_unlink h f (Some (root_of t)) (last_or (map root_of as) None) = Some h' \<and>
    tree_at h' par (NTree f (as @ bs)) \<and> tree_at h' (Some f) t \<and> ntree_next h' f = ntree_next h f \<and>
    h' (root_of t) = h (root_of t) \<and> (\<forall>a. a \<noteq> f \<longrightarrow> a \<notin> set (map root_of as) \<longrightarrow> h' a = h a)"
proof -
  let ?ts = "as @ t # bs" and ?c = "root_of t"
  obtain nf where nf: "h f = Some nf" "nn_parent nf = par" "f \<notin> set (nodes ?ts)" "distinct (nodes ?ts)"
    and s: "seg (ntree_next h) (nn_child nf) (map root_of ?ts) None"
    and fam: "\<forall>t\<in>set ?ts. family h (Some f) t"
    using f by (rule tree_atD)
  have dr: "distinct (map root_of ?ts)" using nf(4) by (rule distinct_roots)
  obtain nc where nc: "h ?c = Some nc" using fam by (auto simp: family_def split: option.splits)
  have fr: "f \<noteq> root_of u" if "u \<in> set ?ts" for u using that nf(3) root_in_nodes by fastforce
  have ndt: "distinct (nodes (as @ bs))" "f \<notin> set (nodes (as @ bs))" "distinct (nodes [t])"
    using nf(3,4) by (auto simp: nodes_Cons)
  show ?thesis
  proof (cases as rule: rev_cases)
    case Nil
    let ?h = "h(f \<mapsto> nf\<lparr>nn_child := nn_next nc\<rparr>)"
    have cong: "family ?h q u = family h q u" if "u \<in> set ?ts" for q u
      using that nf(3) nodes_subtrees [OF that] root_in_nodes [OF that]
      by (intro family_cong) (auto simp: nodes_Cons)
    have "seg (ntree_next ?h) (nn_next nc) (map root_of bs) None"
      using s nc Nil fr by (subst seg_cong [of _ _ "ntree_next h"]) (auto simp: ntree_next_def)
    then have "tree_at ?h par (NTree f (as @ bs))"
      using nf ndt Nil cong fam by (intro tree_atI [of _ _ "nf\<lparr>nn_child := nn_next nc\<rparr>"]) auto
    moreover have "tree_at ?h (Some f) t"
      using cong [of t] fam ndt(3) by (simp add: tree_at_family)
    moreover have "ntree_unlink h f (Some ?c) (last_or (map root_of as) None) = Some ?h"
      using Nil nf(1) nc by (simp add: ntree_unlink_def ntree_next_def ntree_update_Some)
    moreover have "ntree_next ?h f = ntree_next h f" using nf(1) by (simp add: ntree_next_def)
    ultimately show ?thesis using fr [of t] by auto
  next
    case (snoc xs x)
    let ?a = "root_of x"
    obtain na where na: "h ?a = Some na" using fam snoc by (auto simp: family_def split: option.splits)
    let ?h = "h(?a \<mapsto> na\<lparr>nn_next := nn_next nc\<rparr>)"
    have cong: "family ?h q u = family h q u" if "u \<in> set ?ts" for q u
      using root_notin_subtrees [OF nf(4), of x u] that snoc na by (intro family_set_next) auto
    have "seg (ntree_next ?h) (nn_child nf) (map root_of (as @ bs)) None"
      using seg_splice_out [of "ntree_next h" "nn_child nf" "map root_of xs" ?a ?c "map root_of bs"]
        s dr snoc nc by (simp add: ntree_next_upd) (simp add: ntree_next_def)
    then have "tree_at ?h par (NTree f (as @ bs))"
      using nf ndt cong fam fr [of x] snoc by (intro tree_atI [of _ _ nf]) auto
    moreover have "tree_at ?h (Some f) t"
      using cong [of t] fam ndt(3) by (simp add: tree_at_family)
    moreover have "ntree_unlink h f (Some ?c) (last_or (map root_of as) None) = Some ?h"
      using snoc na nc by (simp add: ntree_unlink_def ntree_next_def ntree_update_Some)
    moreover have "ntree_next ?h f = ntree_next h f" using fr [of x] snoc by (simp add: ntree_next_def)
    moreover have "?a \<noteq> ?c" using dr snoc by auto
    ultimately show ?thesis using snoc by auto
  qed
qed

lemma ntree_remove_child_if_at:
  assumes "tree_at h par (NTree f (as @ t # bs))"
    and "\<forall>u\<in>set as. condition (root_of u)" "\<not> condition (root_of t)"
  shows "\<exists>h'. ntree_remove_child_if h f condition = Some h' \<and>
    tree_at h' par (NTree f (as @ bs)) \<and> tree_at h' (Some f) t \<and> ntree_next h' f = ntree_next h f \<and>
    h' (root_of t) = h (root_of t) \<and> (\<forall>a. a \<noteq> f \<longrightarrow> a \<notin> set (map root_of as) \<longrightarrow> h' a = h a)"
proof -
  have "takeWhile condition (map root_of (as @ t # bs)) = map root_of as"
    "dropWhile condition (map root_of (as @ t # bs)) = root_of t # map root_of bs"
    using assms(2,3) by (auto intro!: takeWhile_stop dropWhile_stop)
  then show ?thesis
    using ntree_walk [OF assms(1), of condition] ntree_unlink_at [OF assms(1)]
    by (simp add: ntree_remove_child_if_def)
qed

lemma ntree_remove_child_if_none:
  assumes "tree_at h par (NTree f ts)" "\<forall>u\<in>set ts. condition (root_of u)"
  shows "ntree_remove_child_if h f condition = Some h"
proof -
  have "dropWhile condition (map root_of ts) = []" using assms(2) by (induction ts) auto
  then show ?thesis
    by (simp only: ntree_remove_child_if_def ntree_walk [OF assms(1)]) (simp add: ntree_unlink_def)
qed

lemma ntree_remove_child_eq: "ntree_remove_child h f c = ntree_remove_child_if h f (\<lambda>walk. walk \<noteq> c)"
  by (simp add: ntree_remove_child_def ntree_remove_child_if_def)

lemma ntree_remove_child_at:
  assumes "tree_at h par (NTree f (as @ t # bs))"
  shows "\<exists>h'. ntree_remove_child h f (root_of t) = Some h' \<and>
    tree_at h' par (NTree f (as @ bs)) \<and> tree_at h' (Some f) t \<and> ntree_next h' f = ntree_next h f \<and>
    h' (root_of t) = h (root_of t) \<and> (\<forall>a. a \<noteq> f \<longrightarrow> a \<notin> set (map root_of as) \<longrightarrow> h' a = h a)"
proof -
  have "distinct (nodes (as @ t # bs))" using assms by (rule tree_atD)
  then have "distinct (map root_of (as @ t # bs))" by (rule distinct_roots)
  then have "root_of t \<notin> root_of ` set as" by simp
  then have "\<forall>u\<in>set as. root_of u \<noteq> root_of t" by (metis imageI)
  then show ?thesis
    unfolding ntree_remove_child_eq by (intro ntree_remove_child_if_at [OF assms]) auto
qed

lemma ntree_remove_child_absent:
  assumes "tree_at h par (NTree f ts)" "c \<notin> set (map root_of ts)"
  shows "ntree_remove_child h f c = Some h"
  unfolding ntree_remove_child_eq using assms(2) by (intro ntree_remove_child_if_none [OF assms(1)]) auto

text \<open>
  Insertion: after the last child, from the left, that does not compare greater. A father
  without children takes the child with the sibling link it has.
\<close>

lemma ntree_insert_child_at:
  fixes comparator :: "nat \<Rightarrow> nat \<Rightarrow> int" and c :: nat and ts :: "ntree list"
  defines "P \<equiv> \<lambda>u. comparator (root_of u) c \<le> 0"
  assumes f: "tree_at h par (NTree f ts)" and c: "tree_at h cpar (NTree c cs)"
    and d: "distinct (nodes [NTree f ts, NTree c cs])"
    and nx: "ts = [] \<Longrightarrow> ntree_next h c = Some None"
  shows "\<exists>h'. ntree_insert_child h f c comparator = Some h' \<and>
    tree_at h' par (NTree f (takeWhile P ts @ NTree c cs # dropWhile P ts)) \<and>
    ntree_next h' f = ntree_next h f \<and>
    (\<forall>a. a \<noteq> f \<longrightarrow> a \<noteq> c \<longrightarrow> a \<notin> set (map root_of ts) \<longrightarrow> h' a = h a)"
proof -
  obtain as bs where ab: "as = takeWhile P ts" "bs = dropWhile P ts" by simp
  then have ts: "ts = as @ bs" by simp
  have rts: "takeWhile (\<lambda>y. comparator y c \<le> 0) (map root_of ts) = map root_of as"
    "dropWhile (\<lambda>y. comparator y c \<le> 0) (map root_of ts) = map root_of bs"
    unfolding ab P_def by (simp_all add: takeWhile_map dropWhile_map comp_def)
  obtain nf where nf: "h f = Some nf" "nn_parent nf = par"
    "seg (ntree_next h) (nn_child nf) (map root_of ts) None" "\<forall>t\<in>set ts. family h (Some f) t"
    using f by (rule tree_atD)
  obtain nc where nc: "h c = Some nc" "seg (ntree_next h) (nn_child nc) (map root_of cs) None"
    "\<forall>t\<in>set cs. family h (Some c) t"
    using c by (rule tree_atD)
  have ne: "f \<noteq> c" and dn: "distinct (nodes ts)" using d by auto
  let ?h1 = "h(c \<mapsto> nc\<lparr>nn_parent := Some f\<rparr>)"
  have roots: "x \<noteq> f \<and> x \<noteq> c" if "x \<in> set (map root_of ts) \<union> set (map root_of cs)" for x
    using that d root_in_nodes by auto
  have cong1: "family ?h1 q t = family h q t" if "t \<in> set ts \<union> set cs" for q t
    using that d nodes_subtrees [of t ts] nodes_subtrees [of t cs] root_in_nodes [of t ts]
      root_in_nodes [of t cs]
    by (intro family_cong) (auto simp: nodes_Cons)
  have nx1: "ntree_next ?h1 = ntree_next h" using nc(1) by (auto simp: ntree_next_def fun_eq_iff)
  have f1: "tree_at ?h1 par (NTree f ts)"
    using nf d ne cong1 by (intro tree_atI [of _ _ nf]) (auto simp: nx1)
  have c1: "family ?h1 (Some f) (NTree c cs)"
    using nc cong1 by (simp add: family_def forest_at_iff nx1)
  have dist: "distinct (nodes (as @ NTree c cs # bs))" "f \<notin> set (nodes (as @ NTree c cs # bs))"
    using d ts by auto
  show ?thesis
  proof (cases "ts = []")
    case True
    let ?h = "?h1(f \<mapsto> nf\<lparr>nn_child := Some c\<rparr>)"
    have "ntree_insert_child h f c comparator = Some ?h"
      using True nf nc(1) ne by (simp add: ntree_insert_child_def ntree_update_Some ntree_child_def)
    moreover have "family ?h (Some f) (NTree c cs)"
      using c1 d by (subst family_cong [of _ _ ?h1]) auto
    then have "tree_at ?h par (NTree f (as @ NTree c cs # bs))"
      using True ts nf(2) dist nx nc(1) ne
      by (intro tree_atI [of _ _ "nf\<lparr>nn_child := Some c\<rparr>"]) (auto simp: ntree_next_def)
    ultimately show ?thesis using nf(1) unfolding ab [symmetric] by (auto simp: ntree_next_def)
  next
    case False
    then obtain y where ch: "nn_child nf = Some y" using nf(3) by (cases ts) auto
    note w = ntree_walk [OF f1, of "\<lambda>y. comparator y c \<le> 0", unfolded rts]
    show ?thesis
    proof (cases as rule: rev_cases)
      case Nil
      let ?h = "h(c \<mapsto> nc\<lparr>nn_parent := Some f, nn_next := nn_child nf\<rparr>, f \<mapsto> nf\<lparr>nn_child := Some c\<rparr>)"
      have "ntree_insert_child h f c comparator = Some ?h"
        using Nil ch w nf(1) nc(1) ne
        by (simp add: ntree_insert_child_def ntree_update_Some ntree_child_def)
      moreover have "ntree_prepend_child h f c = Some ?h"
        using nf(1) nc(1) ne
        by (simp add: ntree_prepend_child_def ntree_child_def ntree_update_Some fun_upd_twist)
      then have "tree_at ?h par (NTree f (NTree c cs # ts))"
        using ntree_prepend_child_at [OF f c d] by auto
      ultimately show ?thesis
        using nf(1) Nil ts unfolding ab [symmetric] by (auto simp: ntree_next_def)
    next
      case (snoc xs x)
      let ?a = "root_of x"
      have x: "x \<in> set ts" "?a \<noteq> f" "?a \<noteq> c" using snoc ts roots [of ?a] by auto
      obtain na where na: "h ?a = Some na" using nf(4) x(1) by (auto simp: family_def split: option.splits)
      let ?hc = "?h1(c \<mapsto> nc\<lparr>nn_parent := Some f, nn_next := nn_next na\<rparr>)"
      let ?h = "?hc(?a \<mapsto> na\<lparr>nn_next := Some c\<rparr>)"
      have "ntree_insert_child h f c comparator = Some ?h"
        using snoc ch w nf(1) nc(1) ne x na
        by (simp add: ntree_insert_child_def ntree_update_Some ntree_child_def ntree_next_def)
      moreover have "tree_at ?h par (NTree f (as @ NTree c cs # bs))"
      proof (rule tree_atI)
        have fresh: "u \<in> set ts \<union> {NTree c cs} \<Longrightarrow> c \<notin> set (nodes (subtrees_of u))"
          "u \<in> set ts \<union> {NTree c cs} \<Longrightarrow> ?a \<notin> set (nodes (subtrees_of u))" for u
          using d nodes_subtrees [of u ts] root_notin_subtrees [OF dn x(1)] root_in_nodes [OF x(1)]
          by auto
        have "family ?h (Some f) u = family ?h1 (Some f) u" if "u \<in> set ts \<union> {NTree c cs}" for u
        proof -
          have "family ?h (Some f) u = family ?hc (Some f) u"
            using na x fresh(2) [OF that] by (intro family_set_next) auto
          also have "\<dots> = family ?h1 (Some f) u"
            using family_set_next [of ?h1 c "nc\<lparr>nn_parent := Some f\<rparr>" u "\<lambda>_. nn_next na"] fresh(1) [OF that]
            by simp
          finally show ?thesis .
        qed
        then show "\<forall>u\<in>set (as @ NTree c cs # bs). family ?h (Some f) u"
          using c1 cong1 nf(4) ts by auto
        have "distinct (map root_of (as @ NTree c cs # bs))" using dist(1) by (rule distinct_roots)
        then show "seg (ntree_next ?h) (nn_child nf) (map root_of (as @ NTree c cs # bs)) None"
          using seg_splice_in [of "ntree_next h" "nn_child nf" "map root_of xs" ?a "map root_of bs" c]
            nf(3) ts snoc na
          by (simp add: ntree_next_upd fun_upd_idem_iff) (simp add: ntree_next_def)
        show "?h f = Some nf" using nf(1) x ne by simp
      qed (use nf(2) dist in auto)
      ultimately show ?thesis
        using x ne nf(1) unfolding ab [symmetric] by (auto simp: ntree_next_def)
    qed
  qed
qed

section \<open>Ancestors\<close>

fun ancestry :: "ntree list \<Rightarrow> nat \<Rightarrow> nat list option" where
  "ancestry [] a = None"
| "ancestry (NTree b ts # us) a =
     (if a = b then Some []
      else case ancestry ts a of Some as \<Rightarrow> Some (as @ [b]) | None \<Rightarrow> ancestry us a)"

lemma ancestors_of_forest:
  "forest_at h par p ts \<Longrightarrow> walk_list (ntree_parent h) par = Some ps \<Longrightarrow> ancestry ts a = Some as \<Longrightarrow>
   ntree_foreach_ancestor h a = Some (as @ ps)"
proof (induction ts a arbitrary: par p ps as rule: ancestry.induct)
  case (1 a)
  then show ?case by simp
next
  case (2 b ts us a)
  from 2(3) obtain nd where nd: "h b = Some nd" "nn_parent nd = par"
    "forest_at h (Some b) (nn_child nd) ts" "forest_at h par (nn_next nd) us"
    by (auto split: option.splits)
  show ?case
  proof (cases "a = b")
    case True
    then show ?thesis using 2(4,5) nd by (auto simp: ntree_foreach_ancestor_def ntree_parent_def [of h b])
  next
    case False
    have "walk_list (ntree_parent h) (Some b) = Some (b # ps)"
      using nd 2(4) by (simp add: ntree_parent_def [of h b])
    then show ?thesis using False 2 nd by (auto split: option.splits)
  qed
qed

section \<open>Children in order\<close>

context comparison
begin

lemma sorted_takeWhile_split:
  assumes "sorted_by (map v ts)"
  shows "sorted_by (map v (takeWhile (\<lambda>u. cmp (v u) x \<le> 0) ts) @ x #
    map v (dropWhile (\<lambda>u. cmp (v u) x \<le> 0) ts))"
    and "\<forall>u\<in>set (dropWhile (\<lambda>u. cmp (v u) x \<le> 0) ts). 0 < cmp (v u) x"
  using sorted_insert_after [OF assms, of x] takeWhile_after_all [OF assms, of _ x]
  by (auto simp: takeWhile_map dropWhile_map comp_def)

end

locale child_order = comparison cmp for cmp :: "nat \<Rightarrow> nat \<Rightarrow> int"
begin

lemma ntree_insert_child_sorted:
  assumes "tree_at h par (NTree f ts)" "tree_at h cpar (NTree c cs)"
    and "distinct (nodes [NTree f ts, NTree c cs])"
    and "ts = [] \<Longrightarrow> ntree_next h c = Some None" and "sorted_by (map root_of ts)"
  shows "\<exists>h' as bs. ntree_insert_child h f c cmp = Some h' \<and> ts = as @ bs \<and>
    tree_at h' par (NTree f (as @ NTree c cs # bs)) \<and>
    sorted_by (map root_of (as @ NTree c cs # bs)) \<and> (\<forall>u\<in>set bs. 0 < cmp (root_of u) c)"
proof -
  let ?P = "\<lambda>u. cmp (root_of u) c \<le> 0"
  have "ts = takeWhile ?P ts @ dropWhile ?P ts" by simp
  then show ?thesis
    using ntree_insert_child_at [OF assms(1-4), of cmp] sorted_takeWhile_split [OF assms(5), of c]
    by (metis (no_types, lifting) list.simps(9) map_append root_of.simps)
qed

end

end
