(* ===== verification/Ntree_Ex.thy ===== *)
theory Ntree_Ex
  imports N_Tree
begin

text \<open>
  The test program \<open>tad/ntree_ex.c\<close>: a tree of packages ordered by name. The address of
  \<open>package[i]\<close> is the number \<open>i\<close>; the text \<open>printf\<close> makes of an address is a parameter.
\<close>

section \<open>Comparing names\<close>

text \<open>The bytes of a \<open>char\<close> array up to the terminating zero, and \<open>strcmp\<close> on them.\<close>

definition c_string :: "string \<Rightarrow> string" where
  "c_string s = takeWhile (\<lambda>c. c \<noteq> CHR 0x00) s"

fun strcmp_bytes :: "string \<Rightarrow> string \<Rightarrow> int" where
  "strcmp_bytes [] [] = 0"
| "strcmp_bytes [] (d # ds) = - of_char d"
| "strcmp_bytes (c # cs) [] = of_char c"
| "strcmp_bytes (c # cs) (d # ds) = (if c = d then strcmp_bytes cs ds else of_char c - of_char d)"

definition strcmp :: "string \<Rightarrow> string \<Rightarrow> int" where
  "strcmp s t = strcmp_bytes (c_string s) (c_string t)"

lemma of_char_nonneg [simp]: "0 \<le> (of_char c :: int)"
  using of_nat_0_le_iff [of "of_char c :: nat", where ?'a = int] by (simp only: of_nat_of_char)

lemma of_char_pos: "c \<noteq> CHR 0x00 \<Longrightarrow> 0 < (of_char c :: int)"
proof -
  assume "c \<noteq> CHR 0x00"
  then have "(of_char c :: int) \<noteq> of_char (CHR 0x00)" by (simp only: of_char_eq_iff) simp
  then have "(of_char c :: int) \<noteq> 0" by simp
  then show ?thesis using of_char_nonneg [of c] by linarith
qed

lemma of_char_0_iff: "(of_char c :: int) = 0 \<longleftrightarrow> c = CHR 0x00"
  using of_char_pos [of c] by force

lemma strcmp_bytes_swap: "strcmp_bytes t s = - strcmp_bytes s t"
  by (induction s t rule: strcmp_bytes.induct) auto

lemma strcmp_bytes_trans:
  "strcmp_bytes s t \<le> 0 \<Longrightarrow> strcmp_bytes t u \<le> 0 \<Longrightarrow> CHR 0x00 \<notin> set s \<Longrightarrow> CHR 0x00 \<notin> set t \<Longrightarrow>
   CHR 0x00 \<notin> set u \<Longrightarrow> strcmp_bytes s u \<le> 0"
proof (induction s t arbitrary: u rule: strcmp_bytes.induct)
  case 1
  then show ?case by simp
next
  case (2 d ds)
  then show ?case by (cases u) auto
next
  case (3 c cs)
  then show ?case using of_char_pos [of c] by auto
next
  case (4 c cs d ds)
  show ?case
  proof (cases u)
    case Nil
    then show ?thesis using 4 of_char_pos [of d] by auto
  next
    case (Cons e es)
    show ?thesis using 4 Cons by (auto split: if_splits)
  qed
qed

lemma strcmp_bytes_0: "CHR 0x00 \<notin> set s \<Longrightarrow> CHR 0x00 \<notin> set t \<Longrightarrow> strcmp_bytes s t = 0 \<longleftrightarrow> s = t"
  by (induction s t rule: strcmp_bytes.induct) (auto simp: of_char_0_iff)

lemma c_string_no_zero: "CHR 0x00 \<notin> set (c_string s)"
  by (auto simp: c_string_def dest: set_takeWhileD)

lemma strcmp_0_iff: "strcmp s t = 0 \<longleftrightarrow> c_string s = c_string t"
  by (simp add: strcmp_def strcmp_bytes_0 c_string_no_zero)

lemma strcmp_comparison: "comparison (\<lambda>a b. strcmp (f a) (f b))"
proof (unfold_locales, goal_cases)
  case (1 x y)
  then show ?case using strcmp_bytes_swap [of "c_string (f y)"] by (simp add: strcmp_def)
next
  case (2 x y z)
  then show ?case unfolding strcmp_def by (rule strcmp_bytes_trans) (simp_all add: c_string_no_zero)
qed

section \<open>The program\<close>

record package_t =
  pk_name :: string
  pk_desc :: string

definition packages :: "package_t list" where
  "packages = [
     \<lparr>pk_name = ''devel'', pk_desc = ''developpement group''\<rparr>,
     \<lparr>pk_name = ''anjuta'', pk_desc = ''IDE''\<rparr>,
     \<lparr>pk_name = ''jeux'', pk_desc = ''game group''\<rparr>,
     \<lparr>pk_name = ''arcade'', pk_desc = ''arcade group''\<rparr>,
     \<lparr>pk_name = ''space'', pk_desc = ''space invader''\<rparr>,
     \<lparr>pk_name = ''sport'', pk_desc = ''sport group''\<rparr>,
     \<lparr>pk_name = ''fifa'', pk_desc = ''football''\<rparr>,
     \<lparr>pk_name = ''txtor'', pk_desc = ''fun game''\<rparr>,
     \<lparr>pk_name = ''sprint'', pk_desc = ''athle''\<rparr>,
     \<lparr>pk_name = ''ouet'', pk_desc = ''ouch''\<rparr>,
     \<lparr>pk_name = ''comprx'', pk_desc = ''compressor''\<rparr>,
     \<lparr>pk_name = ''list'', pk_desc = ''all''\<rparr>]"

definition package_cmp :: "nat \<Rightarrow> nat \<Rightarrow> int" where
  "package_cmp t1 t2 = strcmp (pk_name (packages ! t1)) (pk_name (packages ! t2))"

definition package_cond :: "nat option \<Rightarrow> string \<Rightarrow> bool" where
  "package_cond t1 p = (case t1 of None \<Rightarrow> False | Some t \<Rightarrow> strcmp (pk_name (packages ! t)) p = 0)"

interpretation pk: child_order package_cmp
  unfolding child_order_def package_cmp_def by (rule strcmp_comparison)

definition package_heap :: ntree_heap where
  "package_heap a = (if a < length packages then Some NTREE_ELT_INIT else None)"

definition package_line :: "nat \<Rightarrow> string" where
  "package_line a = pk_name (packages ! a) @ '' '' @ pk_desc (packages ! a)"

fun print_grandchildren :: "ntree_heap \<Rightarrow> nat list \<Rightarrow> string list option" where
  "print_grandchildren h [] = Some []"
| "print_grandchildren h (a # as) = do {
     bs \<leftarrow> ntree_foreach_child h a;
     out \<leftarrow> print_grandchildren h as;
     Some ((CHR 0x09 # package_line a) #
       map (\<lambda>b. CHR 0x09 # CHR 0x09 # package_line b) bs @ out) }"

definition print_children :: "ntree_heap \<Rightarrow> nat \<Rightarrow> string list option" where
  "print_children h a = do { as \<leftarrow> ntree_foreach_child h a; print_grandchildren h as }"

definition rule_line :: string where
  "rule_line = replicate 42 (CHR ''#'')"

definition ntree_ex_build :: "ntree_heap option" where
  "ntree_ex_build = do {
     h \<leftarrow> ntree_prepend_child package_heap 0 1;
     h \<leftarrow> ntree_prepend_child h 2 3;
     h \<leftarrow> ntree_prepend_child h 3 4;
     h \<leftarrow> ntree_insert_child h 3 5 package_cmp;
     h \<leftarrow> ntree_insert_child h 3 8 package_cmp;
     h \<leftarrow> ntree_insert_child h 3 9 package_cmp;
     h \<leftarrow> ntree_prepend_child h 5 6;
     h \<leftarrow> ntree_prepend_child h 11 0;
     ntree_prepend_child h 11 2 }"

definition ntree_ex_search :: "(nat \<Rightarrow> string) \<Rightarrow> ntree_heap \<Rightarrow> string list option" where
  "ntree_ex_search address h = do {
     let fifa = (\<lambda>a. strcmp (pk_name (packages ! a)) ''fifa'' = 0);
     visited \<leftarrow> ntree_foreach_child h 0;
     (search, pwalk) \<leftarrow> ntree_foreach_child_cond h 0 fifa;
     s \<leftarrow> search;
     Some (map (\<lambda>a. ''name = '' @ pk_name (packages ! a)) (takeWhile fifa visited) @
       [pk_name (packages ! s) @ '' '' @ address 3]) }"

definition ntree_ex_main :: "(nat \<Rightarrow> string) \<Rightarrow> (int \<times> string list) option" where
  "ntree_ex_main address = do {
     h \<leftarrow> ntree_ex_build;
     l0 \<leftarrow> ntree_ex_search address h;
     let l1 = [''child of ['' @ pk_name (packages ! 3) @ '', '' @ pk_desc (packages ! 3) @ '']''];
     l2 \<leftarrow> print_children h 3;
     h \<leftarrow> ntree_remove_child h 3 5;
     l3 \<leftarrow> print_children h 3;
     h \<leftarrow> ntree_remove_child h 3 8;
     l4 \<leftarrow> print_children h 3;
     h \<leftarrow> ntree_remove_child h 3 9;
     l5 \<leftarrow> print_children h 3;
     h \<leftarrow> ntree_remove_child h 3 4;
     l6 \<leftarrow> print_children h 3;
     Some (0, l0 @ l1 @ l2 @ [rule_line] @ l3 @ [rule_line] @ l4 @ [rule_line] @ l5 @
       [rule_line] @ l6 @ [rule_line]) }"

text \<open>How the operations compute on concrete heaps.\<close>

lemmas ntree_compute = ntree_prepend_child_def ntree_insert_child_def ntree_remove_child_def
  ntree_unlink_def ntree_update_def ntree_child_def ntree_next_def ntree_foreach_child_cond_def
  ntree_foreach_child_def NTREE_ELT_INIT_def

lemma package_cmp_values:
  "package_cmp 4 5 < 0" "package_cmp 4 8 < 0" "package_cmp 5 8 < 0" "0 < package_cmp 4 9"
  by (simp_all add: package_cmp_def packages_def strcmp_def c_string_def)

definition built_heap :: ntree_heap where
  "built_heap = package_heap(
     11 \<mapsto> \<lparr>nn_next = None, nn_parent = None, nn_child = Some 2\<rparr>,
     2 \<mapsto> \<lparr>nn_next = Some 0, nn_parent = Some 11, nn_child = Some 3\<rparr>,
     0 \<mapsto> \<lparr>nn_next = None, nn_parent = Some 11, nn_child = Some 1\<rparr>,
     1 \<mapsto> \<lparr>nn_next = None, nn_parent = Some 0, nn_child = None\<rparr>,
     3 \<mapsto> \<lparr>nn_next = None, nn_parent = Some 2, nn_child = Some 9\<rparr>,
     9 \<mapsto> \<lparr>nn_next = Some 4, nn_parent = Some 3, nn_child = None\<rparr>,
     4 \<mapsto> \<lparr>nn_next = Some 5, nn_parent = Some 3, nn_child = None\<rparr>,
     5 \<mapsto> \<lparr>nn_next = Some 8, nn_parent = Some 3, nn_child = Some 6\<rparr>,
     8 \<mapsto> \<lparr>nn_next = None, nn_parent = Some 3, nn_child = None\<rparr>,
     6 \<mapsto> \<lparr>nn_next = None, nn_parent = Some 5, nn_child = None\<rparr>)"

lemma ntree_ex_build_heap: "ntree_ex_build = Some built_heap"
proof -
  have h0: "a < 12 \<Longrightarrow> package_heap a = Some NTREE_ELT_INIT" for a
    by (simp add: package_heap_def packages_def)
  show ?thesis
    using package_cmp_values
    by (simp add: ntree_ex_build_def h0 ntree_compute built_heap_def fun_eq_iff)
qed

end
