(* ===== verification/Tad_Properties.thy ===== *)
theory Tad_Properties
  imports S_List Ntree_Ex
begin

text \<open>
  The properties of the intrusive list and tree of \<open>tad/\<close>, each with its witness on a small heap.
\<close>

section \<open>The list\<close>

interpretation pl: list_order package_cmp
  unfolding list_order_def package_cmp_def by (rule strcmp_comparison)

text \<open>Lists of packages ordered by name stay ordered; a package goes before those of its name.\<close>

lemma slist_insert_packages:
  assumes "slist_at h p xs" "h link = Some l" "link \<notin> set xs"
    and "sorted_wrt (\<lambda>a b. package_cmp a b \<le> 0) xs"
  shows "\<exists>p' h' as bs. slist_insert_elt h p link package_cmp = Some (p', h') \<and> xs = as @ bs \<and>
    slist_at h' p' (as @ link # bs) \<and> sorted_wrt (\<lambda>a b. package_cmp a b \<le> 0) (as @ link # bs) \<and>
    (\<forall>y\<in>set as. package_cmp y link < 0)"
  using pl.slist_insert_sorted [OF assms(1-3)] assms(4) unfolding pk.sorted_by_def by blast

text \<open>
  slist_remove_elt on a well-formed list returns a list of the same elements without the
  given one (the same list when it is not there), a traversal visits exactly these, and no
  other object changes.
\<close>

theorem slist_remove_correct:
  assumes "slist_at h p xs"
  shows "\<exists>p' h'. slist_remove_elt h p (Some x) = Some (p', h') \<and> slist_at h' p' (remove1 x xs) \<and>
    slist_foreach h' p' = Some (remove1 x xs) \<and> (\<forall>a. a \<notin> set xs \<longrightarrow> h' a = h a)"
proof (cases "x \<in> set xs")
  case True
  then obtain as bs where xs: "xs = as @ x # bs" "x \<notin> set as" by (auto dest: split_list_first)
  then have r: "remove1 x xs = as @ bs" by (simp add: remove1_append)
  obtain p' h' where "slist_remove_elt h p (Some x) = Some (p', h')" "slist_at h' p' (as @ bs)"
    "\<forall>a. a \<notin> set as \<longrightarrow> h' a = h a"
    using slist_remove_elt_at [OF assms [unfolded xs(1)]] by blast
  then show ?thesis using slist_foreach_at unfolding r by (auto simp: xs(1))
next
  case False
  then show ?thesis
    using slist_remove_elt_absent [OF assms False] slist_foreach_at [OF assms] assms
    by (simp add: remove1_idem)
qed

definition slist_example :: slist_heap where
  "slist_example = [1 \<mapsto> \<lparr>se_next = Some 2\<rparr>, 2 \<mapsto> \<lparr>se_next = Some 3\<rparr>, 3 \<mapsto> \<lparr>se_next = None\<rparr>,
     4 \<mapsto> SLIST_ELT_INIT]"

lemma slist_example_at: "slist_at slist_example (Some 1) [1, 2, 3]"
  by (simp add: slist_at_def slist_example_def slist_next_def)

theorem slist_remove_correct_witness:
  "\<exists>p' h'. slist_remove_elt slist_example (Some 1) (Some 2) = Some (p', h') \<and>
    slist_foreach h' p' = Some [1, 3]"
  using slist_remove_correct [OF slist_example_at, of 2] by fastforce

text \<open>
  C35: slist_insert_elt puts the new element before the first one the comparator does not
  place strictly before it, keeps the rest of the list and touches no other object.
\<close>

theorem slist_insert_correct:
  assumes "slist_at h p xs" "h link \<noteq> None" "link \<notin> set xs"
  shows "\<exists>p' h'. slist_insert_elt h p link comparator = Some (p', h') \<and>
    slist_at h' p' (takeWhile (\<lambda>y. comparator y link < 0) xs @
      link # dropWhile (\<lambda>y. comparator y link < 0) xs) \<and>
    (\<forall>a. a \<noteq> link \<longrightarrow> a \<notin> set xs \<longrightarrow> h' a = h a)"
  using slist_insert_elt_at [OF assms(1) _ assms(3)] assms(2) by fastforce

theorem slist_insert_correct_witness:
  "\<exists>p' h'. slist_insert_elt slist_example (Some 1) 4 (\<lambda>a b. int a - 3) = Some (p', h') \<and>
    slist_at h' p' [1, 2, 4, 3]"
proof -
  have "slist_example 4 \<noteq> None" by (simp add: slist_example_def)
  from slist_insert_correct [OF slist_example_at this, of "\<lambda>a b. int a - 3"] show ?thesis by auto
qed

text \<open>
  Inserting an element and removing it again gives the list of before, whatever the
  comparator.
\<close>

theorem slist_insert_remove:
  assumes "slist_at h p xs" "h link \<noteq> None" "link \<notin> set xs"
  shows "\<exists>p1 h1 p2 h2. slist_insert_elt h p link comparator = Some (p1, h1) \<and>
    slist_remove_elt h1 p1 (Some link) = Some (p2, h2) \<and> slist_at h2 p2 xs"
proof -
  let ?as = "takeWhile (\<lambda>y. comparator y link < 0) xs" and ?bs = "dropWhile (\<lambda>y. comparator y link < 0) xs"
  obtain l where "h link = Some l" using assms(2) by auto
  then obtain p1 h1 where "slist_insert_elt h p link comparator = Some (p1, h1)"
    "slist_at h1 p1 (?as @ link # ?bs)"
    using slist_insert_elt_at [OF assms(1) _ assms(3)] by blast
  then show ?thesis using slist_remove_elt_at [of h1 p1 ?as link ?bs] by auto
qed

theorem slist_insert_remove_witness:
  "\<exists>p1 h1 p2 h2. slist_insert_elt slist_example (Some 1) 4 (\<lambda>a b. -1) = Some (p1, h1) \<and>
    slist_remove_elt h1 p1 (Some 4) = Some (p2, h2) \<and> slist_at h2 p2 [1, 2, 3]"
proof -
  have "slist_example 4 \<noteq> None" by (simp add: slist_example_def)
  from slist_insert_remove [OF slist_example_at this, of "\<lambda>a b. -1"] show ?thesis by simp
qed

text \<open>
  Removing the null pointer from any well-formed list dereferences a null pointer.
\<close>

theorem slist_remove_null:
  assumes "slist_at h p xs"
  shows "slist_remove_elt h p None = None"
proof -
  have "dropWhile (\<lambda>y. Some y \<noteq> (None :: ptr)) xs = []" by (induction xs) auto
  then show ?thesis
    by (simp only: slist_remove_elt_def slist_at_walk [OF assms])
      (use slist_at_head [OF assms] in \<open>cases xs; auto simp: slist_deref_def last_or_def\<close>)
qed

theorem slist_remove_null_witness: "slist_remove_elt slist_example (Some 1) None = None"
  by (rule slist_remove_null [OF slist_example_at])

section \<open>The tree\<close>

text \<open>
  C34: let a father, with the subtrees of its children in name order, and a package to insert,
  with its own subtree, share no node; if the father has no child, let the package have no
  next sibling (a package that still points to one keeps it: n_tree.h:64,
  ntree_stale_sibling). Then ntree_insert_child runs without a fault and keeps the children in
  name order: the new child, with its whole subtree, comes after the children that compare
  less or equal and before those that compare greater.
\<close>

theorem ntree_insert_child_ordered:
  assumes "tree_at h par (NTree f ts)" "tree_at h cpar (NTree c cs)"
    and "distinct (nodes [NTree f ts, NTree c cs])"
    and "ts = [] \<longrightarrow> ntree_next h c = Some None"
    and "sorted_wrt (\<lambda>a b. package_cmp a b \<le> 0) (map root_of ts)"
  shows "\<exists>h' as bs. ntree_insert_child h f c package_cmp = Some h' \<and> ts = as @ bs \<and>
    tree_at h' par (NTree f (as @ NTree c cs # bs)) \<and>
    sorted_wrt (\<lambda>a b. package_cmp a b \<le> 0) (map root_of (as @ NTree c cs # bs)) \<and>
    (\<forall>u\<in>set bs. 0 < package_cmp (root_of u) c)"
  using pk.ntree_insert_child_sorted [OF assms(1-3)] assms(4,5) unfolding pk.sorted_by_def by blast

lemma built_trees:
  "tree_at built_heap (Some 2) (NTree 3 [NTree 9 [], NTree 4 [], NTree 5 [NTree 6 []], NTree 8 []])"
  "tree_at built_heap None (NTree 10 [])" "tree_at built_heap None (NTree 7 [])"
  "ntree_next built_heap 10 = Some None"
  by (simp_all add: tree_at_def built_heap_def package_heap_def packages_def NTREE_ELT_INIT_def
    ntree_next_def)

theorem ntree_insert_child_ordered_witness:
  "\<exists>h'. ntree_insert_child built_heap 3 10 package_cmp = Some h' \<and>
    tree_at h' (Some 2) (NTree 3 [NTree 10 [], NTree 9 [], NTree 4 [], NTree 5 [NTree 6 []], NTree 8 []])"
proof -
  let ?ts = "[NTree 9 [], NTree 4 [], NTree 5 [NTree 6 []], NTree 8 []]"
  have s: "sorted_wrt (\<lambda>a b. package_cmp a b \<le> 0) (map root_of ?ts)" and g: "0 < package_cmp 9 10"
    by (simp_all add: package_cmp_def packages_def strcmp_def c_string_def)
  obtain h' as bs where r: "ntree_insert_child built_heap 3 10 package_cmp = Some h'" "?ts = as @ bs"
    "tree_at h' (Some 2) (NTree 3 (as @ NTree 10 [] # bs))"
    "sorted_wrt (\<lambda>a b. package_cmp a b \<le> 0) (map root_of (as @ NTree 10 [] # bs))"
    using ntree_insert_child_ordered [OF built_trees(1,2) _ _ s] by auto
  have "as = []"
  proof (cases as)
    case (Cons a as')
    then have "package_cmp 9 10 \<le> 0" using r(2,4) by auto
    then show ?thesis using g by simp
  qed
  then show ?thesis using r by auto
qed

text \<open>
  C36: ntree_remove_child takes exactly the given child out of its father, leaves the subtree
  of the child intact (its parent link included) and changes only the father or the sibling
  before it.
\<close>

theorem ntree_remove_child_correct:
  assumes "tree_at h par (NTree f (as @ t # bs))"
  shows "\<exists>h'. ntree_remove_child h f (root_of t) = Some h' \<and>
    tree_at h' par (NTree f (as @ bs)) \<and> tree_at h' (Some f) t \<and>
    ntree_foreach_child h' f = Some (map root_of (as @ bs)) \<and>
    (\<forall>a. a \<noteq> f \<longrightarrow> a \<notin> set (map root_of as) \<longrightarrow> h' a = h a)"
  using ntree_remove_child_at [OF assms] ntree_foreach_child_at by blast

theorem ntree_remove_child_correct_witness:
  "\<exists>h'. ntree_remove_child built_heap 3 5 = Some h' \<and> ntree_foreach_child h' 3 = Some [9, 4, 8]"
  using ntree_remove_child_correct [of built_heap "Some 2" 3 "[NTree 9 [], NTree 4 []]"
      "NTree 5 [NTree 6 []]" "[NTree 8 []]"] built_trees(1) by auto

text \<open>
  ntree_remove_child_if removes the first child for which the condition is false, and no
  child when it is true of all.
\<close>

theorem ntree_remove_child_if_negated:
  assumes "tree_at h par (NTree f ts)"
  shows "\<exists>h'. ntree_remove_child_if h f condition = Some h' \<and>
    ntree_foreach_child h' f = Some (takeWhile condition (map root_of ts) @
      tl (dropWhile condition (map root_of ts)))"
proof (cases "\<forall>u\<in>set ts. condition (root_of u)")
  case True
  then have "takeWhile condition (map root_of ts) = map root_of ts"
    "dropWhile condition (map root_of ts) = []" by (simp_all add: takeWhile_eq_all_conv)
  then show ?thesis
    using ntree_remove_child_if_none [OF assms True] ntree_foreach_child_at [OF assms]
    by (simp only: append_Nil2 list.sel) simp
next
  case False
  then obtain as t bs where ts: "ts = as @ t # bs" "\<not> condition (root_of t)"
    "\<forall>u\<in>set as. condition (root_of u)"
    using split_list_first_prop [of ts "\<lambda>u. \<not> condition (root_of u)"] by blast
  then have "takeWhile condition (map root_of ts) = map root_of as"
    "dropWhile condition (map root_of ts) = root_of t # map root_of bs"
    by (auto intro!: takeWhile_stop dropWhile_stop)
  then show ?thesis
    using ntree_remove_child_if_at [OF assms [unfolded ts(1)] ts(3,2)] ntree_foreach_child_at by fastforce
qed

theorem ntree_remove_child_if_negated_witness:
  "\<exists>h'. ntree_remove_child_if built_heap 3 (\<lambda>a. a = 5) = Some h' \<and>
    ntree_foreach_child h' 3 = Some [4, 5, 8]"
  using ntree_remove_child_if_negated [OF built_trees(1), of "\<lambda>a. a = 5"] by simp

text \<open>
  A child removed from its father and inserted into a father without children brings its
  former right siblings along: the children of the second father are the child followed by
  them.
\<close>

theorem ntree_stale_sibling:
  assumes "tree_at h par (NTree f (as @ t # bs))" "tree_at h gpar (NTree g [])"
    and "g \<notin> set (nodes [NTree f (as @ t # bs)])"
  shows "\<exists>h1 h2. ntree_remove_child h f (root_of t) = Some h1 \<and>
    ntree_insert_child h1 g (root_of t) comparator = Some h2 \<and>
    ntree_foreach_child h2 g = Some (root_of t # map root_of bs)"
proof -
  let ?c = "root_of t"
  obtain h1 where h1: "ntree_remove_child h f ?c = Some h1" "tree_at h1 par (NTree f (as @ bs))"
    "tree_at h1 (Some f) t" "h1 ?c = h ?c" "\<forall>a. a \<noteq> f \<longrightarrow> a \<notin> set (map root_of as) \<longrightarrow> h1 a = h a"
    using ntree_remove_child_at [OF assms(1)] by blast
  obtain nf :: ntree_node where s: "seg (ntree_next h) (nn_child nf) (map root_of (as @ t # bs)) None"
    and d: "distinct (nodes (as @ t # bs))" "f \<notin> set (nodes (as @ t # bs))"
    using assms(1) by (rule tree_atD)
  have dr: "distinct (map root_of (as @ t # bs))" using d(1) by (rule distinct_roots)
  obtain nc where nc: "h ?c = Some nc" using h1(3,4) by (auto simp: tree_at_def split: option.splits)
  then have sb: "seg (ntree_next h) (nn_next nc) (map root_of bs) None"
    using s by (auto simp: seg_append ntree_next_def split: option.splits)
  have g: "g \<noteq> f" "g \<notin> set (map root_of (as @ t # bs))" "f \<notin> set (map root_of (as @ t # bs))"
    using assms(3) d(2) root_in_nodes by auto
  have "h1 g = h g" using h1(5) g by auto
  then obtain ng where ng: "h1 g = Some ng" "nn_child ng = None"
    using assms(2) by (auto elim!: tree_atD)
  let ?h2 = "h1(?c \<mapsto> nc\<lparr>nn_parent := Some g\<rparr>, g \<mapsto> ng\<lparr>nn_child := Some ?c\<rparr>)"
  have "ntree_insert_child h1 g ?c comparator = Some ?h2"
    using ng nc h1(4) g(2) by (simp add: ntree_insert_child_def ntree_update_Some ntree_child_def)
  moreover have "seg (ntree_next ?h2) (nn_next nc) (map root_of bs) None"
  proof (subst seg_cong)
    fix a assume "a \<in> set (map root_of bs)"
    then have "a \<noteq> ?c" "a \<noteq> g" "a \<noteq> f" "a \<notin> set (map root_of as)"
      using dr g unfolding map_append list.map distinct_append distinct.simps(2) set_append list.set by blast+
    then show "ntree_next ?h2 a = ntree_next h a" using h1(5) by (simp add: ntree_next_def)
  qed (rule sb)
  then have "ntree_foreach_child ?h2 g = Some (?c # map root_of bs)"
    using ng g(2) nc walk_list_seg [of "ntree_next ?h2" "nn_next nc" "map root_of bs"]
    by (simp add: ntree_foreach_child_def ntree_child_def) (simp add: ntree_next_def)
  ultimately show ?thesis using h1(1) by blast
qed

theorem ntree_stale_sibling_witness:
  "\<exists>h1 h2. ntree_remove_child built_heap 3 5 = Some h1 \<and>
    ntree_insert_child h1 10 5 package_cmp = Some h2 \<and> ntree_foreach_child h2 10 = Some [5, 8]"
  using ntree_stale_sibling [of built_heap "Some 2" 3 "[NTree 9 [], NTree 4 []]" "NTree 5 [NTree 6 []]"
      "[NTree 8 []]" None 10 package_cmp] built_trees(1,2) by simp

text \<open>
  ntree_prepend_child makes the child, with its subtree, the first child of the father
  and changes only these two nodes.
\<close>

theorem ntree_prepend_child_correct:
  assumes "tree_at h par (NTree f ts)" "tree_at h cpar (NTree c cs)"
    and "distinct (nodes [NTree f ts, NTree c cs])"
  shows "\<exists>h'. ntree_prepend_child h f c = Some h' \<and> tree_at h' par (NTree f (NTree c cs # ts)) \<and>
    ntree_foreach_child h' f = Some (c # map root_of ts) \<and>
    (\<forall>a. a \<noteq> f \<longrightarrow> a \<noteq> c \<longrightarrow> h' a = h a)"
  using ntree_prepend_child_at [OF assms] ntree_foreach_child_at by fastforce

theorem ntree_prepend_child_correct_witness:
  "\<exists>h'. ntree_prepend_child built_heap 3 10 = Some h' \<and>
    ntree_foreach_child h' 3 = Some [10, 9, 4, 5, 8]"
  using ntree_prepend_child_correct [OF built_trees(1,2)] by auto

text \<open>
  ntree_foreach_ancestor visits, from the inside out, exactly the nodes whose subtrees
  contain the given node.
\<close>

theorem ntree_ancestors_correct:
  assumes "tree_at h None (NTree r ts)" "ancestry [NTree r ts] a = Some as"
    and "ntree_next h r = Some None"
  shows "ntree_foreach_ancestor h a = Some as"
proof -
  have "forest_at h None (Some r) [NTree r ts]"
    using assms(1,3) by (auto simp: tree_at_def ntree_next_def split: option.splits)
  from ancestors_of_forest [OF this _ assms(2), of "[]"] show ?thesis by simp
qed

theorem ntree_ancestors_correct_witness: "ntree_foreach_ancestor built_heap 6 = Some [5, 3, 2, 11]"
  by (rule ntree_ancestors_correct [of _ 11 "[NTree 2 [NTree 3 [NTree 9 [], NTree 4 [],
        NTree 5 [NTree 6 []], NTree 8 []]], NTree 0 [NTree 1 []]]"])
    (simp_all add: tree_at_def built_heap_def ntree_next_def)

text \<open>
  The test program of the tree ends with status 0 without a fault and prints exactly the
  listed lines, the children of arcade in name order before and after each removal.
\<close>

theorem ntree_ex_main_output:
  "ntree_ex_main address = Some (0,
    [''anjuta '' @ address 3, ''child of [arcade, arcade group]'',
     CHR 0x09 # ''ouet ouch'', CHR 0x09 # ''space space invader'', CHR 0x09 # ''sport sport group'',
     CHR 0x09 # CHR 0x09 # ''fifa football'', CHR 0x09 # ''sprint athle'', rule_line,
     CHR 0x09 # ''ouet ouch'', CHR 0x09 # ''space space invader'', CHR 0x09 # ''sprint athle'', rule_line,
     CHR 0x09 # ''ouet ouch'', CHR 0x09 # ''space space invader'', rule_line,
     CHR 0x09 # ''space space invader'', rule_line, rule_line])"
proof -
  have s: "ntree_ex_search address built_heap = Some [''anjuta '' @ address 3]"
    by (simp add: ntree_ex_search_def built_heap_def ntree_compute packages_def strcmp_def c_string_def)
  show ?thesis
    by (simp add: ntree_ex_main_def ntree_ex_build_heap s)
      (simp add: built_heap_def ntree_compute print_children_def package_line_def packages_def)
qed

end
