(* ===== verification/Ioloop.thy ===== *)
theory Ioloop
  imports Linked_Walk
begin

text \<open>
  The event loop of \<open>ioloop/ioloop.c\<close>: registrations kept in a search tree ordered by file
  descriptor (\<open>tsearch\<close>, \<open>tfind\<close>, \<open>tdelete\<close> of the C library), each an \<open>epoll_event\<close> that points
  to a heap copy of the caller's descriptor. The state holds the manager, the two kinds of heap
  objects, and what the kernel knows: the open descriptors and the interest list of the epoll
  instance. Reading or freeing an object that is not allocated is a fault, the value \<open>None\<close>.
  The answers of \<open>calloc\<close>, \<open>epoll_ctl\<close>, \<open>tsearch\<close> and \<open>epoll_wait\<close> are arguments, and so are the
  callbacks.
\<close>

section \<open>State\<close>

record ioloop_event_desc =
  iol_fd :: int
  iol_ev :: u32
  iol_rev :: u32
  iol_ctx :: ptr
  iol_func :: "nat option"
  iol_clean :: "nat option"

definition IOLOOP_INITIALIZER :: ioloop_event_desc where
  "IOLOOP_INITIALIZER = \<lparr>iol_fd = -1, iol_ev = 0, iol_rev = 0, iol_ctx = None,
     iol_func = None, iol_clean = None\<rparr>"

record epoll_event =
  ep_events :: u32
  ep_data :: ptr

record iol_state =
  iol_root :: "nat list"
  iol_epfd :: int
  iol_quit :: int
  iol_evs :: "nat \<Rightarrow> epoll_event option"
  iol_descs :: "nat \<Rightarrow> ioloop_event_desc option"
  iol_open :: "int set"
  iol_interest :: "int \<Rightarrow> epoll_event option"

type_synonym iol_callbacks = "nat \<Rightarrow> int \<Rightarrow> nat \<Rightarrow> iol_state \<Rightarrow> (int \<times> iol_state) option"
type_synonym iol_cleanups = "nat \<Rightarrow> nat \<Rightarrow> iol_state \<Rightarrow> iol_state option"

section \<open>The kernel\<close>

definition epoll_ctl_add :: "iol_state \<Rightarrow> bool \<Rightarrow> int \<Rightarrow> epoll_event \<Rightarrow> int \<times> iol_state" where
  "epoll_ctl_add s ok fd ev =
     (if iol_epfd s < 0 \<or> fd \<notin> iol_open s \<or> iol_interest s fd \<noteq> None \<or> \<not> ok then (-1, s)
      else (0, s\<lparr>iol_interest := (iol_interest s)(fd \<mapsto> ev)\<rparr>))"

definition epoll_ctl_del :: "iol_state \<Rightarrow> int \<Rightarrow> int \<times> iol_state" where
  "epoll_ctl_del s fd =
     (if iol_epfd s < 0 \<or> iol_interest s fd = None then (-1, s)
      else (0, s\<lparr>iol_interest := (iol_interest s)(fd := None)\<rparr>))"

text \<open>Closing the last descriptor of a file removes it from the interest list.\<close>

definition close_fd :: "iol_state \<Rightarrow> int \<Rightarrow> iol_state" where
  "close_fd s fd = s\<lparr>iol_open := iol_open s - {fd}, iol_interest := (iol_interest s)(fd := None)\<rparr>"

definition open_fd :: "iol_state \<Rightarrow> int \<Rightarrow> iol_state" where
  "open_fd s fd = s\<lparr>iol_open := insert fd (iol_open s)\<rparr>"

section \<open>The search tree\<close>

text \<open>
  The comparison subtracts in \<open>int\<close>; a result out of range is undefined. The tree is the list of
  its nodes in order, and the three library functions compare their key with nodes until the
  comparison says that the key is there or cannot be further on.
\<close>

definition iol_cmp :: "int \<Rightarrow> int \<Rightarrow> int option" where
  "iol_cmp d1 d2 = (let r = d1 - d2 in if - (2 ^ 31) \<le> r \<and> r < 2 ^ 31 then Some r else None)"

definition iol_node_desc :: "iol_state \<Rightarrow> nat \<Rightarrow> ioloop_event_desc option" where
  "iol_node_desc s e = do { ev \<leftarrow> iol_evs s e; p \<leftarrow> ep_data ev; iol_descs s p }"

fun tfind :: "iol_state \<Rightarrow> int \<Rightarrow> nat list \<Rightarrow> nat option option" where
  "tfind s k [] = Some None"
| "tfind s k (e # es) = do {
     d \<leftarrow> iol_node_desc s e;
     c \<leftarrow> iol_cmp k (iol_fd d);
     if c = 0 then Some (Some e) else if c < 0 then Some None else tfind s k es }"

fun tsearch :: "iol_state \<Rightarrow> int \<Rightarrow> nat \<Rightarrow> nat list \<Rightarrow> nat list option" where
  "tsearch s k new [] = Some [new]"
| "tsearch s k new (e # es) = do {
     d \<leftarrow> iol_node_desc s e;
     c \<leftarrow> iol_cmp k (iol_fd d);
     if c = 0 then Some (e # es) else if c < 0 then Some (new # e # es)
     else do { es' \<leftarrow> tsearch s k new es; Some (e # es') } }"

fun tdelete :: "iol_state \<Rightarrow> int \<Rightarrow> nat list \<Rightarrow> nat list option" where
  "tdelete s k [] = Some []"
| "tdelete s k (e # es) = do {
     d \<leftarrow> iol_node_desc s e;
     c \<leftarrow> iol_cmp k (iol_fd d);
     if c = 0 then Some es else if c < 0 then Some (e # es)
     else do { es' \<leftarrow> tdelete s k es; Some (e # es') } }"

section \<open>The operations\<close>

definition free_ev :: "iol_state \<Rightarrow> nat \<Rightarrow> iol_state option" where
  "free_ev s e = (if iol_evs s e = None then None else Some (s\<lparr>iol_evs := (iol_evs s)(e := None)\<rparr>))"

definition free_desc :: "iol_state \<Rightarrow> ptr \<Rightarrow> iol_state option" where
  "free_desc s p = (case p of
     None \<Rightarrow> Some s
   | Some a \<Rightarrow> if iol_descs s a = None then None
       else Some (s\<lparr>iol_descs := (iol_descs s)(a := None)\<rparr>))"

definition iol_initlib :: "iol_state \<Rightarrow> int \<Rightarrow> iol_state" where
  "iol_initlib s epfd = s\<lparr>iol_epfd := epfd\<rparr>"

definition iol_free_node :: "iol_state \<Rightarrow> ptr \<Rightarrow> iol_state option" where
  "iol_free_node s p = (case p of
     None \<Rightarrow> Some s
   | Some e \<Rightarrow> do {
       ev \<leftarrow> iol_evs s e;
       dsc \<leftarrow> iol_node_desc s e;
       let s = snd (epoll_ctl_del s (iol_fd dsc));
       let s = close_fd s (iol_fd dsc);
       s \<leftarrow> free_desc s (ep_data ev);
       free_ev s e })"

fun tdestroy :: "iol_state \<Rightarrow> nat list \<Rightarrow> iol_state option" where
  "tdestroy s [] = Some s"
| "tdestroy s (e # es) = do { s \<leftarrow> iol_free_node s (Some e); tdestroy s es }"

definition iol_exitlib :: "iol_state \<Rightarrow> iol_state option" where
  "iol_exitlib s = tdestroy s (iol_root s)"

definition iol_stop_loop :: "iol_state \<Rightarrow> iol_state" where
  "iol_stop_loop s = s\<lparr>iol_quit := 1\<rparr>"

definition iol_del_internal_event ::
  "iol_cleanups \<Rightarrow> iol_state \<Rightarrow> int \<Rightarrow> ptr \<Rightarrow> (int \<times> iol_state) option" where
  "iol_del_internal_event clean s fd p = (case p of
     None \<Rightarrow> Some (-1, s)
   | Some e \<Rightarrow> do {
       ev \<leftarrow> iol_evs s e;
       k \<leftarrow> iol_node_desc s e;
       root \<leftarrow> tdelete s (iol_fd k) (iol_root s);
       let s = s\<lparr>iol_root := root\<rparr>;
       let s = snd (epoll_ctl_del s fd);
       s \<leftarrow> (case ep_data ev of
          None \<Rightarrow> Some s
        | Some a \<Rightarrow> do {
            d \<leftarrow> iol_descs s a;
            case iol_clean d of
              None \<Rightarrow> Some s
            | Some f \<Rightarrow> do {
                s \<leftarrow> clean f a s;
                s \<leftarrow> free_desc s (ep_data ev);
                Some (s\<lparr>iol_evs := (iol_evs s)(e \<mapsto> ev\<lparr>ep_data := None\<rparr>)\<rparr>) } });
       s \<leftarrow> free_ev s e;
       Some (0, s) })"

definition iol_del_event :: "iol_cleanups \<Rightarrow> iol_state \<Rightarrow> int \<Rightarrow> (int \<times> iol_state) option" where
  "iol_del_event clean s fd = do {
     ev \<leftarrow> tfind s fd (iol_root s);
     case ev of
       Some e \<Rightarrow> iol_del_internal_event clean s fd (Some e)
     | None \<Rightarrow> Some (-1, s) }"

text \<open>The answers of the environment to one \<open>iol_add_event\<close>.\<close>

record iol_answers =
  an_ev :: ptr
  an_desc :: ptr
  an_epoll :: bool
  an_tsearch :: bool

definition iol_add_event ::
  "iol_answers \<Rightarrow> iol_state \<Rightarrow> ioloop_event_desc option \<Rightarrow> (int \<times> iol_state) option" where
  "iol_add_event an s ref = (case ref of
     None \<Rightarrow> Some (-1, s)
   | Some ref \<Rightarrow>
     if iol_fd ref \<le> 0 then Some (-1, s)
     else (case an_ev an of
       None \<Rightarrow> Some (-1, s)
     | Some e \<Rightarrow>
       let s = s\<lparr>iol_evs := (iol_evs s)(e \<mapsto> \<lparr>ep_events = 0, ep_data = None\<rparr>)\<rparr>
       in (case an_desc an of
         None \<Rightarrow> do { s \<leftarrow> free_ev s e; Some (-1, s) }
       | Some a \<Rightarrow>
         let s = s\<lparr>iol_descs := (iol_descs s)(a \<mapsto> ref)\<rparr>;
             ev = \<lparr>ep_events = iol_ev ref, ep_data = Some a\<rparr>;
             s = s\<lparr>iol_evs := (iol_evs s)(e \<mapsto> ev)\<rparr>;
             (ret, s) = epoll_ctl_add s (an_epoll an) (iol_fd ref) ev
         in if ret \<noteq> 0 then do {
              s \<leftarrow> free_desc s (ep_data ev);
              s \<leftarrow> free_ev s e;
              Some (-1, s) }
            else if \<not> an_tsearch an then do {
              let s = snd (epoll_ctl_del s (iol_fd ref));
              s \<leftarrow> free_desc s (ep_data ev);
              s \<leftarrow> free_ev s e;
              Some (-1, s) }
            else do {
              root \<leftarrow> tsearch s (iol_fd ref) e (iol_root s);
              Some (0, s\<lparr>iol_root := root\<rparr>) })))"

text \<open>
  One round of the loop. \<open>ready\<close> is what \<open>epoll_wait\<close> wrote into \<open>vec\<close>: at most 1024 entries,
  \<open>None\<close> where it returned an error.
\<close>

definition IOLOOP_MAXEV :: nat where "IOLOOP_MAXEV = 1024"

fun iol_dispatch ::
  "iol_callbacks \<Rightarrow> iol_cleanups \<Rightarrow> iol_state \<Rightarrow> epoll_event list \<Rightarrow> iol_state option" where
  "iol_dispatch func clean s [] = Some s"
| "iol_dispatch func clean s (v # vec) = do {
     s \<leftarrow> (case ep_data v of
        None \<Rightarrow> Some s
      | Some cur \<Rightarrow> do {
          d \<leftarrow> iol_descs s cur;
          case iol_func d of
            None \<Rightarrow> Some s
          | Some f \<Rightarrow> do {
              let s = s\<lparr>iol_descs := (iol_descs s)(cur \<mapsto> d\<lparr>iol_rev := ep_events v\<rparr>)\<rparr>;
              (r, s) \<leftarrow> func f (iol_fd d) cur s;
              if r \<le> 0 then do {
                d \<leftarrow> iol_descs s cur;
                (r, s) \<leftarrow> iol_del_event clean s (iol_fd d);
                Some s }
              else Some s } });
     iol_dispatch func clean s vec }"

definition iol_main_loop ::
  "iol_callbacks \<Rightarrow> iol_cleanups \<Rightarrow> iol_state \<Rightarrow> epoll_event list option \<Rightarrow> (int \<times> iol_state) option" where
  "iol_main_loop func clean s ready = (case ready of
     None \<Rightarrow> Some (-1, s)
   | Some vec \<Rightarrow>
       if vec = [] then Some (-1, s)
       else do { s \<leftarrow> iol_dispatch func clean s vec; Some (int (length vec), s) })"

section \<open>Registrations\<close>

text \<open>
  \<open>iol_regs s rs\<close>: the tree holds, in order, the nodes of the registrations \<open>rs\<close>, a list of
  triples (file descriptor, event node, descriptor object); the kernel watches exactly these, with
  the same event data.
\<close>

type_synonym registration = "int \<times> nat \<times> nat"

definition reg_ok :: "iol_state \<Rightarrow> registration \<Rightarrow> bool" where
  "reg_ok s r = (case r of (f, e, p) \<Rightarrow>
     0 < f \<and> f < 2 ^ 31 \<and>
     (case iol_evs s e of None \<Rightarrow> False
      | Some ev \<Rightarrow> ep_data ev = Some p \<and> iol_interest s f = Some ev) \<and>
     (case iol_descs s p of None \<Rightarrow> False | Some d \<Rightarrow> iol_fd d = f))"

definition iol_regs :: "iol_state \<Rightarrow> registration list \<Rightarrow> bool" where
  "iol_regs s rs \<longleftrightarrow> iol_root s = map (fst \<circ> snd) rs \<and> (\<forall>r\<in>set rs. reg_ok s r) \<and>
     sorted_wrt (<) (map fst rs) \<and> distinct (map (fst \<circ> snd) rs) \<and> distinct (map (snd \<circ> snd) rs) \<and>
     dom (iol_interest s) = fst ` set rs \<and> 0 \<le> iol_epfd s"

definition iol_find :: "registration list \<Rightarrow> int \<Rightarrow> (nat \<times> nat) option" where
  "iol_find rs fd = map_of rs fd"

lemma reg_okE:
  assumes "reg_ok s (f, e, p)"
  obtains ev d where "0 < f" "f < 2 ^ 31" "iol_evs s e = Some ev" "ep_data ev = Some p"
    "iol_interest s f = Some ev" "iol_descs s p = Some d" "iol_fd d = f" "iol_node_desc s e = Some d"
  using assms by (auto simp: reg_ok_def iol_node_desc_def split: option.splits)

lemma iol_cmp_pos: "- (2 ^ 31) \<le> a - b \<Longrightarrow> a - b < 2 ^ 31 \<Longrightarrow> iol_cmp a b = Some (a - b)"
  by (simp add: iol_cmp_def)

lemma iol_cmp_regs:
  assumes "reg_ok s (f, e, p)" "0 \<le> k" "k < 2 ^ 31"
  shows "\<exists>d. iol_node_desc s e = Some d \<and> iol_cmp k (iol_fd d) = Some (k - f)"
  using assms(1)
proof (rule reg_okE)
  fix ev d assume "0 < f" "f < 2 ^ 31" "iol_fd d = f" "iol_node_desc s e = Some d"
  then show ?thesis using assms(2,3) by (intro exI [of _ d] conjI) (auto intro!: iol_cmp_pos)
qed

text \<open>The tree is ordered by the file descriptors, which compare as integers.\<close>

interpretation fd_order: comparison "\<lambda>a b :: int. a - b"
  by unfold_locales auto

lemma fd_order_sorted: "sorted_wrt (<) fs \<Longrightarrow> fd_order.sorted_by (fs :: int list)"
  unfolding fd_order.sorted_by_def by (rule sorted_wrt_mono_rel) auto

lemma tfind_regs:
  assumes "\<forall>r\<in>set rs. reg_ok s r" "sorted_wrt (<) (map fst rs)" "0 \<le> k" "k < 2 ^ 31"
  shows "tfind s k (map (fst \<circ> snd) rs) = Some (map_option fst (map_of rs k))"
  using assms(1,2)
proof (induction rs)
  case Nil
  then show ?case by simp
next
  case (Cons r rs)
  obtain f e p where r: "r = (f, e, p)" by (cases r)
  obtain d where "iol_node_desc s e = Some d" "iol_cmp k (iol_fd d) = Some (k - f)"
    using iol_cmp_regs [of s f e p k] Cons.prems assms(3,4) r by auto
  moreover have "map_of rs k = None" if "k < f"
    using Cons.prems that r by (auto simp: map_of_eq_None_iff)
  ultimately show ?case using Cons r by auto
qed

lemma tsearch_regs:
  assumes "\<forall>r\<in>set rs. reg_ok s r" "sorted_wrt (<) (map fst rs)" "0 \<le> k" "k < 2 ^ 31"
    and "k \<notin> fst ` set rs"
  shows "tsearch s k new (map (fst \<circ> snd) rs) =
    Some (map (fst \<circ> snd) (takeWhile (\<lambda>r. fst r - k \<le> 0) rs @
      (k, new, a) # dropWhile (\<lambda>r. fst r - k \<le> 0) rs))"
  using assms(1,2,5)
proof (induction rs)
  case Nil
  then show ?case by simp
next
  case (Cons r rs)
  obtain f e p where r: "r = (f, e, p)" by (cases r)
  obtain d where "iol_node_desc s e = Some d" "iol_cmp k (iol_fd d) = Some (k - f)"
    using iol_cmp_regs [of s f e p k] Cons.prems assms(3,4) r by auto
  then show ?case using Cons r by auto
qed

lemma tsearch_present:
  assumes "\<And>g x q. (g, x, q) \<in> set rs \<Longrightarrow>
      \<exists>d. iol_node_desc s x = Some d \<and> iol_fd d = g \<and> 0 < g \<and> g < 2 ^ 31"
    and "sorted_wrt (<) (map fst rs)" "(k, e, p) \<in> set rs"
  shows "tsearch s k new (map (fst \<circ> snd) rs) = Some (map (fst \<circ> snd) rs)"
proof -
  have k: "0 < k" "k < 2 ^ 31" using assms(1) [OF assms(3)] by auto
  show ?thesis
    using assms
  proof (induction rs)
    case Nil
    then show ?case by simp
  next
    case (Cons r rs)
    obtain g x q where r: "r = (g, x, q)" by (cases r)
    obtain d where d: "iol_node_desc s x = Some d" "iol_fd d = g" "0 < g" "g < 2 ^ 31"
      using Cons.prems(1) [of g x q] r by auto
    then have c: "iol_cmp k g = Some (k - g)" using k by (intro iol_cmp_pos) auto
    show ?case
    proof (cases "g = k")
      case True
      then show ?thesis using d c r by simp
    next
      case False
      then have i: "(k, e, p) \<in> set rs" using Cons.prems(3) r by auto
      then have "g < k" using Cons.prems(2) r by force
      moreover have "tsearch s k new (map (fst \<circ> snd) rs) = Some (map (fst \<circ> snd) rs)"
        using Cons.prems i by (intro Cons.IH) auto
      ultimately show ?thesis using d c r by (simp add: comp_def)
    qed
  qed
qed

lemma tdelete_regs:
  assumes "\<forall>r\<in>set rs. reg_ok s r" "sorted_wrt (<) (map fst rs)" "(k, e, p) \<in> set rs"
  shows "tdelete s k (map (fst \<circ> snd) rs) = Some (map (fst \<circ> snd) (remove1 (k, e, p) rs))"
proof -
  have k: "0 \<le> k" "k < 2 ^ 31" using assms by (auto simp: reg_ok_def)
  show ?thesis
    using assms
  proof (induction rs)
    case Nil
    then show ?case by simp
  next
    case (Cons r rs)
    obtain f e' p' where r: "r = (f, e', p')" by (cases r)
    obtain d where d: "iol_node_desc s e' = Some d" "iol_cmp k (iol_fd d) = Some (k - f)"
      using iol_cmp_regs [of s f e' p' k] Cons.prems k r by auto
    show ?case
    proof (cases "r = (k, e, p)")
      case True
      then show ?thesis using d r by simp
    next
      case False
      then have m: "(k, e, p) \<in> set rs" using Cons.prems by simp
      then have "f < k" using Cons.prems(2) r by force
      then show ?thesis using d r m False Cons by auto
    qed
  qed
qed

end
