(* ===== verification/Ioloop_Regs.thy ===== *)
theory Ioloop_Regs
  imports Ioloop
begin

text \<open>
  The operations of the event loop on its registrations: what each of them does to the list of
  registrations, the interest list of the kernel and the heap, on every branch.
\<close>

section \<open>Adding\<close>

lemma iol_regsD:
  assumes "iol_regs s rs"
  shows "iol_root s = map (fst \<circ> snd) rs" "\<forall>r\<in>set rs. reg_ok s r" "sorted_wrt (<) (map fst rs)"
    "distinct (map (fst \<circ> snd) rs)" "distinct (map (snd \<circ> snd) rs)"
    "dom (iol_interest s) = fst ` set rs" "0 \<le> iol_epfd s"
  using assms by (simp_all add: iol_regs_def)

lemma iol_regs_frame:
  assumes "iol_root s' = iol_root s" "iol_evs s' = iol_evs s" "iol_descs s' = iol_descs s"
    "iol_interest s' = iol_interest s" "iol_epfd s' = iol_epfd s"
  shows "iol_regs s' rs = iol_regs s rs"
proof -
  have "reg_ok s' = reg_ok s"
    using assms by (simp add: reg_ok_def fun_eq_iff split: option.splits)
  then show ?thesis using assms by (simp add: iol_regs_def)
qed

lemma reg_ok_in_dom: "reg_ok s (f, e, p) \<Longrightarrow> e \<in> dom (iol_evs s) \<and> p \<in> dom (iol_descs s)"
  by (auto elim: reg_okE)

definition iol_inserted :: "registration list \<Rightarrow> registration \<Rightarrow> registration list" where
  "iol_inserted rs r =
     takeWhile (\<lambda>r'. fst r' - fst r \<le> 0) rs @ r # dropWhile (\<lambda>r'. fst r' - fst r \<le> 0) rs"

lemma set_inserted [simp]: "set (iol_inserted rs r) = insert r (set rs)"
  unfolding iol_inserted_def
  by (metis Un_insert_right list.simps(15) set_append takeWhile_dropWhile_id)

lemma distinct_inserted:
  "distinct (map g (iol_inserted rs r)) \<longleftrightarrow> g r \<notin> g ` set rs \<and> distinct (map g rs)"
proof -
  have "distinct (map g (as @ r # bs)) \<longleftrightarrow> g r \<notin> g ` set (as @ bs) \<and> distinct (map g (as @ bs))" for as bs
    by auto
  then show ?thesis unfolding iol_inserted_def by (metis takeWhile_dropWhile_id)
qed

lemma sorted_inserted:
  assumes "sorted_wrt (<) (map fst rs)" "fst r \<notin> fst ` set rs"
  shows "sorted_wrt (<) (map fst (iol_inserted rs r))"
proof -
  have "fd_order.sorted_by (map fst (iol_inserted rs r))"
    using fd_order.sorted_insert_after [OF fd_order_sorted [OF assms(1)], of "fst r"]
    by (simp add: iol_inserted_def takeWhile_map dropWhile_map comp_def)
  then have "sorted (map fst (iol_inserted rs r))"
    by (simp add: fd_order.sorted_by_def sorted_wrt_iff_nth_less sorted_iff_nth_mono_less)
  moreover have "distinct (map fst (iol_inserted rs r))"
    using assms strict_sorted_iff by (auto simp: distinct_inserted)
  ultimately show ?thesis by (simp add: strict_sorted_iff)
qed

definition iol_added :: "iol_state \<Rightarrow> registration list \<Rightarrow> nat \<Rightarrow> nat \<Rightarrow> ioloop_event_desc \<Rightarrow> iol_state" where
  "iol_added s rs e a ref =
     (let ev = \<lparr>ep_events = iol_ev ref, ep_data = Some a\<rparr>
      in s\<lparr>iol_descs := (iol_descs s)(a \<mapsto> ref), iol_evs := (iol_evs s)(e \<mapsto> ev),
           iol_interest := (iol_interest s)(iol_fd ref \<mapsto> ev),
           iol_root := map (fst \<circ> snd) (iol_inserted rs (iol_fd ref, e, a))\<rparr>)"

lemma iol_add_event_ok:
  assumes inv: "iol_regs s rs" and f: "0 < iol_fd ref" "iol_fd ref < 2 ^ 31" "iol_fd ref \<notin> fst ` set rs"
    and an: "an_ev an = Some e" "an_desc an = Some a" "an_epoll an" "an_tsearch an"
    and fresh: "iol_evs s e = None" "iol_descs s a = None" and opn: "iol_fd ref \<in> iol_open s"
  shows "iol_add_event an s (Some ref) = Some (0, iol_added s rs e a ref)"
    and "iol_regs (iol_added s rs e a ref) (iol_inserted rs (iol_fd ref, e, a))"
proof -
  note d = iol_regsD [OF inv]
  let ?ev = "\<lparr>ep_events = iol_ev ref, ep_data = Some a\<rparr>" and ?r = "(iol_fd ref, e, a)"
  let ?s = "s\<lparr>iol_descs := (iol_descs s)(a \<mapsto> ref), iol_evs := (iol_evs s)(e \<mapsto> ?ev),
    iol_interest := (iol_interest s)(iol_fd ref \<mapsto> ?ev)\<rparr>"
  let ?root = "map (fst \<circ> snd) (iol_inserted rs ?r)"
  have ne: "e \<notin> (fst \<circ> snd) ` set rs" "a \<notin> (snd \<circ> snd) ` set rs"
    using d(2) fresh reg_ok_in_dom by fastforce+
  have other: "reg_ok (?s\<lparr>iol_root := x\<rparr>) r" if "r \<in> set rs" for r x
  proof -
    obtain f' e' p' where r: "r = (f', e', p')" by (cases r)
    then have "e' \<noteq> e" "p' \<noteq> a" "f' \<noteq> iol_fd ref" using that ne f(3) by force+
    moreover have "reg_ok s (f', e', p')" using d(2) that r by blast
    ultimately show ?thesis unfolding r by (auto simp: reg_ok_def split: option.splits)
  qed
  have new: "reg_ok (?s\<lparr>iol_root := x\<rparr>) ?r" for x using f by (simp add: reg_ok_def)
  have ni: "iol_interest s (iol_fd ref) = None" using d(6) f(3) by blast
  have ts: "tsearch ?s (iol_fd ref) e (iol_root s) = Some ?root"
    unfolding d(1) iol_inserted_def fst_conv using f d(3) other [where x = "iol_root s"]
    by (intro tsearch_regs) auto
  show "iol_add_event an s (Some ref) = Some (0, iol_added s rs e a ref)"
    using f an opn ni d(7) ts by (simp add: iol_add_event_def epoll_ctl_add_def iol_added_def Let_def)
  have "iol_regs (?s\<lparr>iol_root := ?root\<rparr>) (iol_inserted rs ?r)"
    unfolding iol_regs_def
    using other new d ne f(3) sorted_inserted [of rs ?r] by (auto simp: distinct_inserted)
  then show "iol_regs (iol_added s rs e a ref) (iol_inserted rs ?r)" by (simp add: iol_added_def Let_def)
qed

text \<open>Every failure leaves the state as it was: nothing stays allocated, watched or in the tree.\<close>

lemma iol_add_event_fails:
  assumes "iol_fd ref \<le> 0 \<or> an_ev an = None \<or> an_desc an = None \<or> \<not> an_epoll an \<or> \<not> an_tsearch an \<or>
      iol_fd ref \<notin> iol_open s \<or> iol_interest s (iol_fd ref) \<noteq> None \<or> iol_epfd s < 0"
    and "\<And>e. an_ev an = Some e \<Longrightarrow> iol_evs s e = None"
    and "\<And>a. an_desc an = Some a \<Longrightarrow> iol_descs s a = None"
  shows "iol_add_event an s (Some ref) = Some (-1, s)"
proof (cases "iol_fd ref \<le> 0")
  case True
  then show ?thesis by (simp add: iol_add_event_def)
next
  case pos: False
  show ?thesis
  proof (cases "an_ev an")
    case None
    then show ?thesis using pos by (simp add: iol_add_event_def)
  next
    case (Some e)
    then have e: "(iol_evs s)(e := None) = iol_evs s" using assms(2) by auto
    show ?thesis
    proof (cases "an_desc an")
      case None
      then show ?thesis using pos Some e by (simp add: iol_add_event_def free_ev_def)
    next
      case (Some a)
      then have a: "(iol_descs s)(a := None) = iol_descs s" using assms(3) by auto
      have i: "iol_interest s (iol_fd ref) = None \<Longrightarrow>
          (iol_interest s)(iol_fd ref := None) = iol_interest s" by auto
      show ?thesis
        using pos \<open>an_ev an = Some e\<close> Some e a i assms(1)
        by (auto simp: iol_add_event_def Let_def epoll_ctl_add_def epoll_ctl_del_def free_desc_def
          free_ev_def)
    qed
  qed
qed

section \<open>Deleting\<close>

text \<open>
  Clean-up functions that leave the loop alone. \<open>iol_del_event\<close> calls them when the kernel has
  stopped watching the descriptor; they may change the context and close their own descriptor,
  which they do when \<open>closes\<close> says so, as \<open>fcbk_clean\<close> of the test program does with \<open>pclose\<close>.
\<close>

type_synonym iol_closes = "nat \<Rightarrow> ioloop_event_desc \<Rightarrow> bool"

definition quiet_clean :: "iol_closes \<Rightarrow> iol_cleanups \<Rightarrow> bool" where
  "quiet_clean closes clean \<longleftrightarrow> (\<forall>f a s d. iol_descs s a = Some d \<longrightarrow> iol_interest s (iol_fd d) = None \<longrightarrow>
     (\<exists>c. clean f a s = Some ((if closes f d then close_fd s (iol_fd d) else s)
        \<lparr>iol_descs := (iol_descs s)(a \<mapsto> d\<lparr>iol_ctx := c\<rparr>)\<rparr>)))"

text \<open>Whether deleting the registration at \<open>p\<close> closes its descriptor.\<close>

definition closes_reg :: "iol_closes \<Rightarrow> ioloop_event_desc option \<Rightarrow> bool" where
  "closes_reg closes d \<longleftrightarrow> (case d of None \<Rightarrow> False | Some d \<Rightarrow>
     (case iol_clean d of None \<Rightarrow> False | Some g \<Rightarrow> closes g d))"

definition iol_deleted :: "iol_closes \<Rightarrow> iol_state \<Rightarrow> registration list \<Rightarrow> registration \<Rightarrow> iol_state" where
  "iol_deleted closes s rs r = (case r of (f, e, p) \<Rightarrow>
     s\<lparr>iol_root := map (fst \<circ> snd) (remove1 r rs), iol_evs := (iol_evs s)(e := None),
       iol_descs := (if map_option iol_clean (iol_descs s p) = Some None then iol_descs s
         else (iol_descs s)(p := None)),
       iol_open := (if closes_reg closes (iol_descs s p) then iol_open s - {f} else iol_open s),
       iol_interest := (iol_interest s)(f := None)\<rparr>)"

lemma iol_regs_unique:
  assumes "iol_regs s rs" "(f, e, p) \<in> set rs" "(f', e', p') \<in> set rs"
    and "f = f' \<or> e = e' \<or> p = p'"
  shows "(f', e', p') = (f, e, p)"
proof -
  have "distinct (map fst rs)" using iol_regsD(3) [OF assms(1)] strict_sorted_iff by blast
  then have "inj_on fst (set rs)" "inj_on (fst \<circ> snd) (set rs)" "inj_on (snd \<circ> snd) (set rs)"
    using iol_regsD(4,5) [OF assms(1)] by (auto simp: distinct_map)
  note i = this [THEN inj_onD, OF _ assms(3,2)]
  show ?thesis using assms(4)
  proof (elim disjE)
    assume "f = f'"
    then show ?thesis by (intro i(1)) simp
  next
    assume "e = e'"
    then show ?thesis by (intro i(2)) simp
  next
    assume "p = p'"
    then show ?thesis by (intro i(3)) simp
  qed
qed

lemma distinct_map_remove1: "distinct (map g xs) \<Longrightarrow> distinct (map g (remove1 x xs))"
  by (induction xs) (auto, metis imageI notin_set_remove1)

lemma sorted_map_remove1:
  "sorted_wrt (<) (map g xs) \<Longrightarrow> sorted_wrt (<) (map g (remove1 x xs) :: int list)"
  by (induction xs) (auto dest: notin_set_remove1)

lemma iol_regs_deleted:
  assumes inv: "iol_regs s rs" and r: "(f, e, p) \<in> set rs"
  shows "iol_regs (iol_deleted closes s rs (f, e, p)) (remove1 (f, e, p) rs)"
proof -
  note d = iol_regsD [OF inv]
  have dr: "distinct rs" using d(4) by (simp add: distinct_map)
  have rest: "set (remove1 (f, e, p) rs) = set rs - {(f, e, p)}" using dr by simp
  have ne: "f' \<noteq> f \<and> e' \<noteq> e \<and> p' \<noteq> p" if "(f', e', p') \<in> set (remove1 (f, e, p) rs)" for f' e' p'
    using that iol_regs_unique [OF inv r, of f' e' p'] unfolding rest by blast
  have "reg_ok (iol_deleted closes s rs (f, e, p)) r'" if r': "r' \<in> set (remove1 (f, e, p) rs)" for r'
  proof -
    obtain f' e' p' where eq: "r' = (f', e', p')" by (cases r')
    have "reg_ok s (f', e', p')" using d(2) r' rest eq by blast
    moreover have "f' \<noteq> f" "e' \<noteq> e" "p' \<noteq> p" using ne r' eq by blast+
    ultimately show ?thesis unfolding eq by (simp add: reg_ok_def iol_deleted_def split: option.splits)
  qed
  moreover have "f' \<noteq> f" if "(f', e', p') \<in> set (remove1 (f, e, p) rs)" for f' e' p'
    using ne [OF that] by blast
  then have "fst ` set (remove1 (f, e, p) rs) = fst ` set rs - {f}" unfolding rest by force
  ultimately show ?thesis
    using d distinct_map_remove1 [OF d(4)] distinct_map_remove1 [OF d(5)] sorted_map_remove1 [OF d(3)]
    by (auto simp: iol_regs_def iol_deleted_def)
qed

lemma iol_del_event_ok:
  assumes inv: "iol_regs s rs" and r: "(f, e, p) \<in> set rs" and q: "quiet_clean closes clean"
  shows "iol_del_event clean s f = Some (0, iol_deleted closes s rs (f, e, p))"
proof -
  note d = iol_regsD [OF inv]
  have ro: "reg_ok s (f, e, p)" using d(2) r by blast
  then obtain ev dd where o: "0 < f" "f < 2 ^ 31" "iol_evs s e = Some ev" "ep_data ev = Some p"
    "iol_interest s f = Some ev" "iol_descs s p = Some dd" "iol_fd dd = f" "iol_node_desc s e = Some dd"
    by (rule reg_okE)
  have "distinct (map fst rs)" using d(3) strict_sorted_iff by blast
  then have "map_of rs f = Some (e, p)" using r by simp
  then have "tfind s f (iol_root s) = Some (Some e)"
    using tfind_regs [OF d(2,3), of f] o d(1) by simp
  moreover have "tdelete s f (iol_root s) = Some (map (fst \<circ> snd) (remove1 (f, e, p) rs))"
    using tdelete_regs [OF d(2,3) r] d(1) by simp
  ultimately show ?thesis
  proof (cases "iol_clean dd")
    case None
    then show ?thesis
      using o d(7) \<open>tfind s f (iol_root s) = _\<close> \<open>tdelete s f (iol_root s) = _\<close>
      by (simp add: iol_del_event_def iol_del_internal_event_def epoll_ctl_del_def free_ev_def iol_deleted_def
        closes_reg_def)
  next
    case (Some g)
    let ?s = "s\<lparr>iol_root := map (fst \<circ> snd) (remove1 (f, e, p) rs), iol_interest := (iol_interest s)(f := None)\<rparr>"
    obtain c where "clean g p ?s = Some ((if closes g dd then close_fd ?s f else ?s)
        \<lparr>iol_descs := (iol_descs s)(p \<mapsto> dd\<lparr>iol_ctx := c\<rparr>)\<rparr>)"
      using q [unfolded quiet_clean_def, rule_format, of ?s p dd g] o(6,7) by auto
    then show ?thesis
      using o d(7) Some \<open>tfind s f (iol_root s) = _\<close> \<open>tdelete s f (iol_root s) = _\<close>
      by (simp add: iol_del_event_def iol_del_internal_event_def epoll_ctl_del_def free_ev_def
        free_desc_def iol_deleted_def closes_reg_def close_fd_def)
  qed
qed

lemma iol_del_event_unknown:
  assumes "iol_regs s rs" "f \<notin> fst ` set rs" "0 \<le> f" "f < 2 ^ 31"
  shows "iol_del_event clean s f = Some (-1, s)"
proof -
  note d = iol_regsD [OF assms(1)]
  have "map_of rs f = None" using assms(2) by (simp add: map_of_eq_None_iff)
  then have "tfind s f (iol_root s) = Some None" using tfind_regs [OF d(2,3) assms(3,4)] d(1) by simp
  then show ?thesis by (simp add: iol_del_event_def)
qed

section \<open>Dispatching\<close>

text \<open>
  A callback that leaves the loop alone: it answers \<open>res\<close> and may change its context. A
  descriptor is dropped when its callback answers a value that is not positive.
\<close>

definition quiet_func :: "(nat \<Rightarrow> ioloop_event_desc \<Rightarrow> int) \<Rightarrow> iol_callbacks \<Rightarrow> bool" where
  "quiet_func res func \<longleftrightarrow> (\<forall>f a s d. iol_descs s a = Some d \<longrightarrow>
     (\<exists>c. func f (iol_fd d) a s =
       Some (res f d, s\<lparr>iol_descs := (iol_descs s)(a \<mapsto> d\<lparr>iol_ctx := c\<rparr>)\<rparr>)))"

definition iol_drops :: "(nat \<Rightarrow> ioloop_event_desc \<Rightarrow> int) \<Rightarrow> (nat \<Rightarrow> ioloop_event_desc option) \<Rightarrow>
    epoll_event \<Rightarrow> nat \<Rightarrow> bool" where
  "iol_drops res descs v p \<longleftrightarrow> ep_data v = Some p \<and> (case descs p of None \<Rightarrow> False | Some d \<Rightarrow>
     (case iol_func d of None \<Rightarrow> False | Some f \<Rightarrow> res f (d\<lparr>iol_rev := ep_events v\<rparr>) \<le> 0))"

definition iol_kept :: "(nat \<Rightarrow> ioloop_event_desc \<Rightarrow> int) \<Rightarrow> (nat \<Rightarrow> ioloop_event_desc option) \<Rightarrow>
    epoll_event list \<Rightarrow> registration list \<Rightarrow> registration list" where
  "iol_kept res descs vec rs = filter (\<lambda>r. \<forall>v\<in>set vec. \<not> iol_drops res descs v (snd (snd r))) rs"

lemma iol_regs_descs:
  assumes "iol_regs s rs" "iol_descs s p = Some d" "iol_fd d' = iol_fd d"
  shows "iol_regs (s\<lparr>iol_descs := (iol_descs s)(p \<mapsto> d')\<rparr>) rs"
proof -
  have "reg_ok (s\<lparr>iol_descs := (iol_descs s)(p \<mapsto> d')\<rparr>) r" if "reg_ok s r" for r
    using that assms(2,3) by (cases r) (auto simp: reg_ok_def split: option.splits)
  then show ?thesis using assms(1) by (simp add: iol_regs_def)
qed

lemma iol_kept_cong:
  "(\<And>v p. v \<in> set vec \<Longrightarrow> ep_data v = Some p \<Longrightarrow> descs' p = descs p) \<Longrightarrow>
   iol_kept res descs' vec rs = iol_kept res descs vec rs"
  unfolding iol_kept_def iol_drops_def by (intro filter_cong) auto

lemma remove1_filter_reg:
  assumes "iol_regs s rs" "(f, e, p) \<in> set rs"
  shows "remove1 (f, e, p) rs = filter (\<lambda>r. snd (snd r) \<noteq> p) rs"
proof -
  have d: "distinct (map (snd \<circ> snd) rs)" by (rule iol_regsD(5) [OF assms(1)])
  show ?thesis using d assms(2)
  proof (induction rs)
    case Nil
    then show ?case by simp
  next
    case (Cons r rs)
    show ?case
    proof (cases "r = (f, e, p)")
      case True
      then have "filter (\<lambda>r. snd (snd r) \<noteq> p) rs = rs" using Cons.prems(1) by (auto simp: filter_id_conv)
      then show ?thesis using True by simp
    next
      case False
      then have "(f, e, p) \<in> set rs" using Cons.prems(2) by simp
      moreover from this have "p \<in> set (map (snd \<circ> snd) rs)" by force
      then have "snd (snd r) \<noteq> p" using Cons.prems(1) by auto
      ultimately show ?thesis using Cons False by simp
    qed
  qed
qed

text \<open>One ready entry.\<close>

lemma iol_dispatch_one:
  assumes inv: "iol_regs s rs" and r: "(f, e, p) \<in> set rs" and v: "ep_data v = Some p"
    and q: "quiet_func res func" "quiet_clean closes clean"
  shows "\<exists>s'. iol_dispatch func clean s [v] = Some s' \<and> iol_regs s' (iol_kept res (iol_descs s) [v] rs) \<and>
    (\<forall>p'. p' \<noteq> p \<longrightarrow> iol_descs s' p' = iol_descs s p') \<and>
    (\<forall>e'. e' \<noteq> e \<longrightarrow> iol_evs s' e' = iol_evs s e')"
proof -
  have "reg_ok s (f, e, p)" using iol_regsD(2) [OF inv] r by blast
  then obtain d where d: "iol_descs s p = Some d" "iol_fd d = f" by (rule reg_okE)
  have others: "iol_kept res (iol_descs s) [v] rs =
      (if iol_drops res (iol_descs s) v p then remove1 (f, e, p) rs else rs)"
    unfolding iol_kept_def remove1_filter_reg [OF inv r]
    using v by (auto simp: iol_drops_def intro!: filter_cong filter_True)
  show ?thesis
  proof (cases "iol_func d")
    case None
    then show ?thesis using d v inv others by (auto simp: iol_drops_def)
  next
    case (Some g)
    let ?d1 = "d\<lparr>iol_rev := ep_events v\<rparr>"
    let ?s1 = "s\<lparr>iol_descs := (iol_descs s)(p \<mapsto> ?d1)\<rparr>"
    obtain c where c: "func g (iol_fd d) p ?s1 =
        Some (res g ?d1, ?s1\<lparr>iol_descs := (iol_descs ?s1)(p \<mapsto> ?d1\<lparr>iol_ctx := c\<rparr>)\<rparr>)"
      using q(1) [unfolded quiet_func_def, rule_format, of ?s1 p ?d1 g] by auto
    let ?d2 = "?d1\<lparr>iol_ctx := c\<rparr>"
    let ?s2 = "s\<lparr>iol_descs := (iol_descs s)(p \<mapsto> ?d2)\<rparr>"
    have c2: "func g (iol_fd d) p ?s1 = Some (res g ?d1, ?s2)" using c by simp
    have inv2: "iol_regs ?s2 rs" using inv d(1) by (rule iol_regs_descs) simp
    show ?thesis
    proof (cases "res g ?d1 \<le> 0")
      case False
      then have "iol_dispatch func clean s [v] = Some ?s2" using d Some v c2 by simp
      then show ?thesis using inv2 others False Some d v by (auto simp: iol_drops_def)
    next
      case True
      have "iol_del_event clean ?s2 f = Some (0, iol_deleted closes ?s2 rs (f, e, p))"
        by (rule iol_del_event_ok [OF inv2 r q(2)])
      then have "iol_dispatch func clean s [v] = Some (iol_deleted closes ?s2 rs (f, e, p))"
        using d Some v c2 True by simp
      moreover have "iol_regs (iol_deleted closes ?s2 rs (f, e, p)) (remove1 (f, e, p) rs)"
        by (rule iol_regs_deleted [OF inv2 r])
      moreover have "iol_drops res (iol_descs s) v p" using True Some d v by (simp add: iol_drops_def)
      ultimately show ?thesis using others by (auto simp: iol_deleted_def)
    qed
  qed
qed

lemma iol_dispatch_append:
  "iol_dispatch func clean s (vs @ ws) = do { s \<leftarrow> iol_dispatch func clean s vs; iol_dispatch func clean s ws }"
  by (induction vs arbitrary: s) (simp_all add: Option.bind_assoc)

lemma iol_dispatch_ready:
  "iol_regs s rs \<Longrightarrow> quiet_func res func \<Longrightarrow> quiet_clean closes clean \<Longrightarrow> distinct (map ep_data vec) \<Longrightarrow>
   (\<And>v. v \<in> set vec \<Longrightarrow> \<exists>r\<in>set rs. ep_data v = Some (snd (snd r))) \<Longrightarrow>
   \<exists>s'. iol_dispatch func clean s vec = Some s' \<and> iol_regs s' (iol_kept res (iol_descs s) vec rs)"
proof (induction vec arbitrary: s rs)
  case Nil
  then show ?case by (simp add: iol_kept_def)
next
  case (Cons v vec)
  obtain f e p where r: "(f, e, p) \<in> set rs" "ep_data v = Some p"
    using Cons.prems(5) [of v] by auto
  obtain s1 where s1: "iol_dispatch func clean s [v] = Some s1"
    "iol_regs s1 (iol_kept res (iol_descs s) [v] rs)"
    "\<forall>p'. p' \<noteq> p \<longrightarrow> iol_descs s1 p' = iol_descs s p'"
    using iol_dispatch_one [OF Cons.prems(1) r Cons.prems(2,3)] by blast
  have ne: "ep_data w \<noteq> Some p" if "w \<in> set vec" for w using Cons.prems(4) that r(2) by force
  have "\<exists>r\<in>set (iol_kept res (iol_descs s) [v] rs). ep_data w = Some (snd (snd r))" if w: "w \<in> set vec" for w
  proof -
    obtain r' where "r' \<in> set rs" "ep_data w = Some (snd (snd r'))" using Cons.prems(5) [of w] w by (meson list.set_intros(2))
    then show ?thesis using ne [OF w] r(2) by (intro bexI [of _ r']) (auto simp: iol_kept_def iol_drops_def)
  qed
  then obtain s2 where s2: "iol_dispatch func clean s1 vec = Some s2"
    "iol_regs s2 (iol_kept res (iol_descs s1) vec (iol_kept res (iol_descs s) [v] rs))"
    using Cons.IH [OF s1(2) Cons.prems(2,3)] Cons.prems(4) by auto
  have "iol_kept res (iol_descs s1) vec (iol_kept res (iol_descs s) [v] rs) =
      iol_kept res (iol_descs s) vec (iol_kept res (iol_descs s) [v] rs)"
  proof (rule iol_kept_cong)
    fix w p' assume "w \<in> set vec" "ep_data w = Some p'"
    then have "p' \<noteq> p" using ne by auto
    then show "iol_descs s1 p' = iol_descs s p'" using s1(3) by simp
  qed
  moreover have "\<dots> = iol_kept res (iol_descs s) (v # vec) rs"
    by (simp add: iol_kept_def)
  moreover have "iol_dispatch func clean s (v # vec) = Some s2"
    using iol_dispatch_append [of func clean s "[v]" vec] s1(1) s2(1) by simp
  ultimately show ?case using s2(2) by simp
qed

lemma iol_main_loop_ready:
  assumes "iol_regs s rs" "quiet_func res func" "quiet_clean closes clean" "vec \<noteq> []" "distinct (map ep_data vec)"
    and "\<forall>v\<in>set vec. ep_data v \<in> Some ` (snd \<circ> snd) ` set rs"
  shows "\<exists>s'. iol_main_loop func clean s (Some vec) = Some (int (length vec), s') \<and>
    iol_regs s' (iol_kept res (iol_descs s) vec rs)"
  using iol_dispatch_ready [OF assms(1-3,5)] assms(4,6) by (fastforce simp: iol_main_loop_def)

section \<open>Leaving\<close>

lemma iol_free_node_ok:
  assumes "reg_ok s (f, e, p)" "0 \<le> iol_epfd s"
  shows "iol_free_node s (Some e) = Some (s\<lparr>iol_evs := (iol_evs s)(e := None),
    iol_descs := (iol_descs s)(p := None), iol_open := iol_open s - {f},
    iol_interest := (iol_interest s)(f := None)\<rparr>)"
  using assms(1)
proof (rule reg_okE)
  fix ev d
  assume "iol_evs s e = Some ev" "ep_data ev = Some p" "iol_interest s f = Some ev"
    "iol_descs s p = Some d" "iol_fd d = f" "iol_node_desc s e = Some d"
  then show ?thesis using assms(2)
    by (cases s) (simp add: iol_free_node_def epoll_ctl_del_def close_fd_def free_desc_def free_ev_def)
qed

lemma tdestroy_regs:
  "\<forall>r\<in>set rs. reg_ok s r \<Longrightarrow> distinct (map fst rs) \<Longrightarrow> distinct (map (fst \<circ> snd) rs) \<Longrightarrow>
   distinct (map (snd \<circ> snd) rs) \<Longrightarrow> 0 \<le> iol_epfd s \<Longrightarrow>
   tdestroy s (map (fst \<circ> snd) rs) = Some (s\<lparr>
     iol_evs := iol_evs s |` (- (fst \<circ> snd) ` set rs), iol_descs := iol_descs s |` (- (snd \<circ> snd) ` set rs),
     iol_open := iol_open s - fst ` set rs, iol_interest := iol_interest s |` (- fst ` set rs)\<rparr>)"
proof (induction rs arbitrary: s)
  case Nil
  then show ?case by (simp add: restrict_map_def)
next
  case (Cons r rs)
  obtain f e p where r: "r = (f, e, p)" by (cases r)
  let ?s = "s\<lparr>iol_evs := (iol_evs s)(e := None), iol_descs := (iol_descs s)(p := None),
    iol_open := iol_open s - {f}, iol_interest := (iol_interest s)(f := None)\<rparr>"
  have "reg_ok ?s r'" if r': "r' \<in> set rs" for r'
  proof -
    obtain f' e' p' where eq: "r' = (f', e', p')" by (cases r')
    have "f' \<noteq> f" "e' \<noteq> e" "p' \<noteq> p" using Cons.prems(2-4) r' eq r by force+
    moreover have "reg_ok s (f', e', p')" using Cons.prems(1) r' eq by simp
    ultimately show ?thesis unfolding eq by (auto simp: reg_ok_def split: option.splits)
  qed
  then have "tdestroy ?s (map (fst \<circ> snd) rs) = Some (?s\<lparr>
     iol_evs := iol_evs ?s |` (- (fst \<circ> snd) ` set rs), iol_descs := iol_descs ?s |` (- (snd \<circ> snd) ` set rs),
     iol_open := iol_open ?s - fst ` set rs, iol_interest := iol_interest ?s |` (- fst ` set rs)\<rparr>)"
    using Cons.prems by (intro Cons.IH) auto
  moreover have "iol_free_node s (Some e) = Some ?s"
    using Cons.prems r by (intro iol_free_node_ok) auto
  then have "tdestroy s (map (fst \<circ> snd) (r # rs)) = tdestroy ?s (map (fst \<circ> snd) rs)" by (simp add: r)
  moreover have "iol_evs ?s |` (- (fst \<circ> snd) ` set rs) = iol_evs s |` (- (fst \<circ> snd) ` set (r # rs))"
    "iol_descs ?s |` (- (snd \<circ> snd) ` set rs) = iol_descs s |` (- (snd \<circ> snd) ` set (r # rs))"
    "iol_open ?s - fst ` set rs = iol_open s - fst ` set (r # rs)"
    "iol_interest ?s |` (- fst ` set rs) = iol_interest s |` (- fst ` set (r # rs))"
    by (auto simp: r restrict_map_def fun_eq_iff)
  ultimately show ?case by (simp only:) simp
qed

section \<open>Reachable states\<close>

text \<open>
  What can happen to the loop: its operations, with answers of the environment that respect the
  contracts of \<open>calloc\<close> (fresh objects) and \<open>epoll_wait\<close> (each watched event at most once), and
  descriptors being opened and closed elsewhere, as long as no watched one is closed.
\<close>

inductive iol_step :: "iol_callbacks \<Rightarrow> iol_cleanups \<Rightarrow> iol_state \<Rightarrow> iol_state \<Rightarrow> bool"
  for func :: iol_callbacks and clean :: iol_cleanups where
  add: "(\<And>e. an_ev an = Some e \<Longrightarrow> iol_evs s e = None) \<Longrightarrow>
    (\<And>a. an_desc an = Some a \<Longrightarrow> iol_descs s a = None) \<Longrightarrow>
    (\<And>d. ref = Some d \<Longrightarrow> iol_fd d < 2 ^ 31) \<Longrightarrow>
    iol_add_event an s ref = Some (r, s') \<Longrightarrow> iol_step func clean s s'"
| del: "0 \<le> fd \<Longrightarrow> fd < 2 ^ 31 \<Longrightarrow> iol_del_event clean s fd = Some (r, s') \<Longrightarrow> iol_step func clean s s'"
| round: "length vec \<le> IOLOOP_MAXEV \<Longrightarrow> distinct (map ep_data vec) \<Longrightarrow>
    (\<And>v. v \<in> set vec \<Longrightarrow> \<exists>f ev. iol_interest s f = Some ev \<and> ep_data v = ep_data ev) \<Longrightarrow>
    iol_main_loop func clean s (Some vec) = Some (r, s') \<Longrightarrow> iol_step func clean s s'"
| stop: "iol_step func clean s (iol_stop_loop s)"
| opened: "iol_step func clean s (open_fd s fd)"
| closed: "iol_interest s fd = None \<Longrightarrow> iol_step func clean s (close_fd s fd)"

inductive_cases iol_stepE: "iol_step func clean s s'"

inductive iol_reach :: "iol_callbacks \<Rightarrow> iol_cleanups \<Rightarrow> iol_state \<Rightarrow> bool"
  for func :: iol_callbacks and clean :: iol_cleanups where
  init: "iol_root s = [] \<Longrightarrow> iol_interest s = (\<lambda>_. None) \<Longrightarrow> 0 \<le> epfd \<Longrightarrow>
    iol_reach func clean (iol_initlib s epfd)"
| step: "iol_reach func clean s \<Longrightarrow> iol_step func clean s s' \<Longrightarrow> iol_reach func clean s'"

lemma iol_regs_watched:
  assumes "iol_regs s rs" "iol_interest s f = Some ev"
  obtains e p where "(f, e, p) \<in> set rs" "iol_evs s e = Some ev" "ep_data ev = Some p"
proof -
  have "f \<in> fst ` set rs" using iol_regsD(6) [OF assms(1)] assms(2) by blast
  then obtain e p where r: "(f, e, p) \<in> set rs" by auto
  then have "reg_ok s (f, e, p)" using iol_regsD(2) [OF assms(1)] by blast
  then show thesis using r assms(2) that by (auto elim!: reg_okE)
qed

lemma iol_add_event_cases:
  assumes "iol_regs s rs" "iol_fd ref < 2 ^ 31"
    and "\<And>e. an_ev an = Some e \<Longrightarrow> iol_evs s e = None" "\<And>a. an_desc an = Some a \<Longrightarrow> iol_descs s a = None"
  shows "iol_add_event an s (Some ref) = Some (-1, s) \<or>
    (\<exists>e a. iol_add_event an s (Some ref) = Some (0, iol_added s rs e a ref) \<and>
       iol_regs (iol_added s rs e a ref) (iol_inserted rs (iol_fd ref, e, a)))"
proof (cases "iol_fd ref \<le> 0 \<or> an_ev an = None \<or> an_desc an = None \<or> \<not> an_epoll an \<or> \<not> an_tsearch an \<or>
      iol_fd ref \<notin> iol_open s \<or> iol_interest s (iol_fd ref) \<noteq> None \<or> iol_epfd s < 0")
  case True
  then show ?thesis using iol_add_event_fails [of ref an s] assms(3,4) by blast
next
  case False
  then obtain e a where "an_ev an = Some e" "an_desc an = Some a" by auto
  moreover have "iol_fd ref \<notin> fst ` set rs" using False iol_regsD(6) [OF assms(1)] by auto
  ultimately show ?thesis
    using False assms iol_add_event_ok [OF assms(1), of ref an e a] by auto
qed

lemma iol_regs_step:
  assumes "iol_regs s rs" "iol_step func clean s s'" "quiet_func res func" "quiet_clean closes clean"
  shows "\<exists>rs'. iol_regs s' rs'"
  using assms(2)
proof (rule iol_stepE)
  fix an ref r
  assume *: "\<And>e. an_ev an = Some e \<Longrightarrow> iol_evs s e = None" "\<And>a. an_desc an = Some a \<Longrightarrow> iol_descs s a = None"
    "\<And>d. ref = Some d \<Longrightarrow> iol_fd d < 2147483648" "iol_add_event an s ref = Some (r, s')"
  show ?thesis
  proof (cases ref)
    case None
    then show ?thesis using *(4) assms(1) by (auto simp: iol_add_event_def)
  next
    case (Some d)
    then show ?thesis using iol_add_event_cases [OF assms(1), of d an] * assms(1) by auto
  qed
next
  fix fd r assume *: "0 \<le> fd" "fd < 2147483648" "iol_del_event clean s fd = Some (r, s')"
  show ?thesis
  proof (cases "fd \<in> fst ` set rs")
    case True
    then obtain e p where "(fd, e, p) \<in> set rs" by auto
    then show ?thesis
      using iol_del_event_ok [OF assms(1) _ assms(4)] iol_regs_deleted [OF assms(1)] *(3) by fastforce
  next
    case False
    then show ?thesis using iol_del_event_unknown [OF assms(1) False *(1)] *(2,3) assms(1) by auto
  qed
next
  fix vec r
  assume *: "distinct (map ep_data vec)" "iol_main_loop func clean s (Some vec) = Some (r, s')"
    "\<And>v. v \<in> set vec \<Longrightarrow> \<exists>f ev. iol_interest s f = Some ev \<and> ep_data v = ep_data ev"
  show ?thesis
  proof (cases "vec = []")
    case True
    then show ?thesis using *(2) assms(1) by (auto simp: iol_main_loop_def)
  next
    case False
    have "ep_data v \<in> Some ` (snd \<circ> snd) ` set rs" if "v \<in> set vec" for v
      using *(3) [OF that] by (auto elim!: iol_regs_watched [OF assms(1)] intro!: rev_image_eqI)
    then show ?thesis
      using iol_main_loop_ready [OF assms(1,3,4) False *(1)] *(2) by auto
  qed
next
  assume "s' = iol_stop_loop s"
  then have "iol_regs s' rs" using assms(1) by (subst iol_regs_frame [of _ s]) (simp_all add: iol_stop_loop_def)
  then show ?thesis by blast
next
  fix fd assume "s' = open_fd s fd"
  then have "iol_regs s' rs" using assms(1) by (subst iol_regs_frame [of _ s]) (simp_all add: open_fd_def)
  then show ?thesis by blast
next
  fix fd assume "s' = close_fd s fd" "iol_interest s fd = None"
  then have "iol_regs s' rs"
    using assms(1) by (subst iol_regs_frame [of _ s]) (simp_all add: close_fd_def fun_upd_idem)
  then show ?thesis by blast
qed

lemma iol_reach_regs:
  "iol_reach func clean s \<Longrightarrow> quiet_func res func \<Longrightarrow> quiet_clean closes clean \<Longrightarrow> \<exists>rs. iol_regs s rs"
proof (induction rule: iol_reach.induct)
  case (init s epfd)
  then have "iol_regs (iol_initlib s epfd) []" by (simp add: iol_regs_def iol_initlib_def)
  then show ?case by blast
next
  case (step s s')
  then show ?case using iol_regs_step by blast
qed

end
