(* ===== verification/Ioloop_Properties.thy ===== *)
theory Ioloop_Properties
  imports Ioloop_Regs
begin

text \<open>
  The callbacks of the test program \<open>ioloop/test.c\<close> and the properties of the event loop, each
  with its witness on a loop with two registrations of that program.
\<close>

section \<open>The test program\<close>

definition EPOLLIN :: u32 where "EPOLLIN = 1"
definition EPOLLHUP :: u32 where "EPOLLHUP = 0x10"
definition EPOLLRDHUP :: u32 where "EPOLLRDHUP = 0x2000"

text \<open>The code addresses of \<open>f2cbk\<close> and \<open>fcbk_clean\<close>.\<close>

definition at_f2cbk :: nat where "at_f2cbk = 1"
definition at_fcbk_clean :: nat where "at_fcbk_clean = 2"

text \<open>\<open>nread\<close> is what \<open>read\<close> returns for a descriptor.\<close>

definition f2cbk :: "(int \<Rightarrow> int) \<Rightarrow> ioloop_event_desc \<Rightarrow> int" where
  "f2cbk nread d1 = (if iol_rev d1 = EPOLLIN then nread (iol_fd d1) else -1)"

text \<open>
  \<open>pclose\<close> closes the descriptor of the stream, which is \<open>iol_fd\<close>: \<open>f2\<close> sets the two together.
\<close>

definition fcbk_clean :: "nat \<Rightarrow> iol_state \<Rightarrow> iol_state option" where
  "fcbk_clean d s = do {
     d1 \<leftarrow> iol_descs s d;
     case iol_ctx d1 of
       None \<Rightarrow> Some s
     | Some fp \<Rightarrow>
         let s = close_fd s (iol_fd d1)
         in Some (s\<lparr>iol_descs := (iol_descs s)(d \<mapsto> d1\<lparr>iol_ctx := None\<rparr>)\<rparr>) }"

text \<open>The program registers no other functions, so the code address is not looked at.\<close>

definition test_func :: "(int \<Rightarrow> int) \<Rightarrow> iol_callbacks" where
  "test_func nread f fd data s = do { d1 \<leftarrow> iol_descs s data; Some (f2cbk nread d1, s) }"

definition test_clean :: iol_cleanups where
  "test_clean f d s = fcbk_clean d s"

definition f2_desc :: "ptr \<Rightarrow> int \<Rightarrow> ioloop_event_desc" where
  "f2_desc fp fd = IOLOOP_INITIALIZER\<lparr>iol_clean := Some at_fcbk_clean, iol_ev := EPOLLIN OR EPOLLRDHUP,
     iol_ctx := fp, iol_fd := fd, iol_func := Some at_f2cbk\<rparr>"

text \<open>
  \<open>f2\<close> after \<open>popen\<close> has returned \<open>fp\<close>, a stream on the open descriptor \<open>fd\<close> (\<open>fileno\<close> of a null
  pointer is a fault); the status \<open>exit\<close> is given is on the left.
\<close>

definition f2 :: "iol_answers \<Rightarrow> iol_state \<Rightarrow> ptr \<Rightarrow> int \<Rightarrow> (int + iol_state) option" where
  "f2 an s fp fd = do {
     fp \<leftarrow> fp;
     (ret, s) \<leftarrow> iol_add_event an s (Some (f2_desc (Some fp) fd));
     Some (if ret < 0 then Inl 1 else Inr s) }"

section \<open>Two registrations\<close>

definition an_of :: "nat \<Rightarrow> nat \<Rightarrow> iol_answers" where
  "an_of e a = \<lparr>an_ev = Some e, an_desc = Some a, an_epoll = True, an_tsearch = True\<rparr>"

definition start_state :: iol_state where
  "start_state = \<lparr>iol_root = [], iol_epfd = 3, iol_quit = 0, iol_evs = (\<lambda>_. None),
     iol_descs = (\<lambda>_. None), iol_open = {3, 4, 5}, iol_interest = (\<lambda>_. None)\<rparr>"

definition two_state :: iol_state where
  "two_state = \<lparr>iol_root = [10, 11], iol_epfd = 3, iol_quit = 0,
     iol_evs = [11 \<mapsto> \<lparr>ep_events = EPOLLIN OR EPOLLRDHUP, ep_data = Some 21\<rparr>,
                10 \<mapsto> \<lparr>ep_events = EPOLLIN OR EPOLLRDHUP, ep_data = Some 20\<rparr>],
     iol_descs = [21 \<mapsto> f2_desc (Some 31) 5, 20 \<mapsto> f2_desc (Some 30) 4], iol_open = {3, 4, 5},
     iol_interest = [5 \<mapsto> \<lparr>ep_events = EPOLLIN OR EPOLLRDHUP, ep_data = Some 21\<rparr>,
                     4 \<mapsto> \<lparr>ep_events = EPOLLIN OR EPOLLRDHUP, ep_data = Some 20\<rparr>]\<rparr>"

lemma two_state_run:
  "\<exists>s. f2 (an_of 11 21) start_state (Some 31) 5 = Some (Inr s) \<and> f2 (an_of 10 20) s (Some 30) 4 = Some (Inr two_state)"
  by (simp add: f2_def an_of_def start_state_def two_state_def iol_add_event_def f2_desc_def
    epoll_ctl_add_def IOLOOP_INITIALIZER_def iol_node_desc_def iol_cmp_def Let_def)

lemma two_state_regs: "iol_regs two_state [(4, 10, 20), (5, 11, 21)]"
  by (auto simp: iol_regs_def reg_ok_def two_state_def f2_desc_def split: if_splits)

text \<open>The clean-up closes the descriptor when the context still holds the stream.\<close>

definition test_closes :: iol_closes where
  "test_closes f d \<longleftrightarrow> iol_ctx d \<noteq> None"

lemma fcbk_clean_eq:
  "iol_descs s a = Some d \<Longrightarrow> fcbk_clean a s = Some ((if iol_ctx d = None then s else close_fd s (iol_fd d))
     \<lparr>iol_descs := (iol_descs s)(a \<mapsto> d\<lparr>iol_ctx := None\<rparr>)\<rparr>)"
  by (cases d; cases "iol_ctx d") (auto simp: fcbk_clean_def close_fd_def fun_upd_idem)

lemma test_quiet_clean: "quiet_clean test_closes test_clean"
  unfolding quiet_clean_def test_clean_def test_closes_def using fcbk_clean_eq by auto

lemma test_quiet_func: "quiet_func (\<lambda>_. f2cbk nread) (test_func nread)"
  unfolding quiet_func_def test_func_def
proof (intro allI impI)
  fix f a s d assume "iol_descs s a = Some d"
  then show "\<exists>c. do { d1 \<leftarrow> iol_descs s a; Some (f2cbk nread d1, s) } =
      Some (f2cbk nread d, s\<lparr>iol_descs := (iol_descs s)(a \<mapsto> d\<lparr>iol_ctx := c\<rparr>)\<rparr>)"
    by (intro exI [of _ "iol_ctx d"]) (simp add: fun_upd_idem)
qed

section \<open>Registrations\<close>

text \<open>What the loop promises: a table from watched descriptors to the copies it keeps.\<close>

definition iol_table :: "iol_state \<Rightarrow> int \<Rightarrow> ioloop_event_desc option" where
  "iol_table s fd = do { ev \<leftarrow> iol_interest s fd; p \<leftarrow> ep_data ev; iol_descs s p }"

lemma iol_table_regs:
  assumes "iol_regs s rs"
  shows "iol_table s fd = (case map_of rs fd of None \<Rightarrow> None | Some (e, p) \<Rightarrow> iol_descs s p)"
proof (cases "iol_interest s fd")
  case None
  then have "map_of rs fd = None" using iol_regsD(6) [OF assms] by (auto simp: map_of_eq_None_iff)
  then show ?thesis using None by (simp add: iol_table_def)
next
  case (Some ev)
  then obtain e p where r: "(fd, e, p) \<in> set rs" "ep_data ev = Some p"
    using iol_regs_watched [OF assms] by metis
  have "distinct (map fst rs)" using iol_regsD(3) [OF assms] strict_sorted_iff by blast
  then have "map_of rs fd = Some (e, p)" using r(1) by simp
  then show ?thesis using Some r(2) by (simp add: iol_table_def)
qed

lemma iol_exitlib_regs:
  assumes "iol_regs s rs"
  shows "iol_exitlib s \<noteq> None"
  using tdestroy_regs [of rs s] iol_regsD [OF assms] strict_sorted_iff [of "map fst rs"]
  by (simp add: iol_exitlib_def)

lemma iol_table_None_iff:
  assumes "iol_regs s rs"
  shows "iol_table s fd = None \<longleftrightarrow> fd \<notin> fst ` set rs"
proof
  assume "iol_table s fd = None"
  show "fd \<notin> fst ` set rs"
  proof
    assume "fd \<in> fst ` set rs"
    then obtain e p where "(fd, e, p) \<in> set rs" by auto
    then have "reg_ok s (fd, e, p)" using iol_regsD(2) [OF assms] by blast
    then show False using \<open>iol_table s fd = None\<close> by (auto elim!: reg_okE simp: iol_table_def)
  qed
next
  assume "fd \<notin> fst ` set rs"
  then have "iol_interest s fd = None" using iol_regsD(6) [OF assms] by blast
  then show "iol_table s fd = None" by (simp add: iol_table_def)
qed

lemma iol_table_deleted:
  assumes "iol_regs s rs" "(f, e, p) \<in> set rs"
  shows "iol_table (iol_deleted closes s rs (f, e, p)) = (iol_table s)(f := None)"
proof
  fix x
  show "iol_table (iol_deleted closes s rs (f, e, p)) x = ((iol_table s)(f := None)) x"
  proof (cases "x = f \<or> iol_interest s x = None")
    case True
    then show ?thesis by (auto simp: iol_table_def iol_deleted_def)
  next
    case False
    then obtain ev where "iol_interest s x = Some ev" by auto
    with assms(1) obtain e' p' where r: "(x, e', p') \<in> set rs" "ep_data ev = Some p'"
      by (rule iol_regs_watched)
    then have "p' \<noteq> p" using iol_regs_unique [OF assms(1,2) r(1)] False by blast
    then show ?thesis using False r(2) \<open>iol_interest s x = Some ev\<close>
      by (simp add: iol_table_def iol_deleted_def)
  qed
qed

lemma iol_table_added:
  assumes "iol_regs s rs" "iol_descs s a = None"
  shows "iol_table (iol_added s rs e a ref) = (iol_table s)(iol_fd ref \<mapsto> ref)"
proof
  fix x
  show "iol_table (iol_added s rs e a ref) x = ((iol_table s)(iol_fd ref \<mapsto> ref)) x"
  proof (cases "x = iol_fd ref \<or> iol_interest s x = None")
    case True
    then show ?thesis by (auto simp: iol_table_def iol_added_def Let_def)
  next
    case False
    then obtain ev where ev: "iol_interest s x = Some ev" by auto
    with assms(1) obtain e' p' where r: "(x, e', p') \<in> set rs" "ep_data ev = Some p'"
      by (rule iol_regs_watched)
    then have "reg_ok s (x, e', p')" using iol_regsD(2) [OF assms(1)] by blast
    then have "p' \<noteq> a" using reg_ok_in_dom assms(2) by blast
    then show ?thesis using False r(2) ev by (simp add: iol_table_def iol_added_def Let_def)
  qed
qed

text \<open>
  C13: take callbacks that leave the loop alone (they answer a value and change at most their
  own context; one that deletes another registration is the use after free of ioloop.c:85) and
  clean-up functions that change at most the context and close at most their own descriptor.
  In every state reached by adding, deleting, dispatching and stopping, with fresh objects
  from calloc, by descriptors being opened, and by descriptors that are not watched being
  closed elsewhere (closing a watched one and reusing its number breaks it:
  iol_add_reused_fd), the tree is strictly ordered by descriptor, its nodes and their copies
  are allocated and pairwise distinct, and the kernel watches exactly the descriptors of the
  tree with the event data of their nodes.
\<close>

theorem iol_reach_invariant:
  assumes "iol_reach func clean s" "quiet_func res func" "quiet_clean closes clean"
  shows "\<exists>rs. iol_root s = map (fst \<circ> snd) rs \<and> sorted_wrt (<) (map fst rs) \<and>
    distinct (map (fst \<circ> snd) rs) \<and> distinct (map (snd \<circ> snd) rs) \<and> dom (iol_interest s) = fst ` set rs \<and>
    (\<forall>(f, e, p)\<in>set rs. 0 < f \<and> (\<exists>ev d. iol_evs s e = Some ev \<and> ep_data ev = Some p \<and>
       iol_interest s f = Some ev \<and> iol_descs s p = Some d \<and> iol_fd d = f))"
proof -
  obtain rs where rs: "iol_regs s rs" using iol_reach_regs assms by blast
  have "0 < f \<and> (\<exists>ev d. iol_evs s e = Some ev \<and> ep_data ev = Some p \<and>
       iol_interest s f = Some ev \<and> iol_descs s p = Some d \<and> iol_fd d = f)" if "(f, e, p) \<in> set rs" for f e p
  proof -
    have "reg_ok s (f, e, p)" using iol_regsD(2) [OF rs] that by blast
    then show ?thesis by (rule reg_okE) blast
  qed
  then show ?thesis using iol_regsD [OF rs] by (intro exI [of _ rs]) auto
qed

lemma two_state_reach: "iol_reach (test_func nread) test_clean two_state"
proof -
  let ?s0 = "start_state"
  obtain s1 where s1: "f2 (an_of 11 21) start_state (Some 31) 5 = Some (Inr s1)"
    and s2: "f2 (an_of 10 20) s1 (Some 30) 4 = Some (Inr two_state)"
    using two_state_run by blast
  obtain r1 where r1: "iol_add_event (an_of 11 21) start_state (Some (f2_desc (Some 31) 5)) = Some (r1, s1)"
    using s1 by (auto simp: f2_def bind_simps split: if_splits)
  obtain r2 where r2: "iol_add_event (an_of 10 20) s1 (Some (f2_desc (Some 30) 4)) = Some (r2, two_state)"
    using s2 by (auto simp: f2_def bind_simps split: if_splits)
  have "iol_reach (test_func nread) test_clean (iol_initlib start_state 3)"
    by (rule iol_reach.init) (simp_all add: start_state_def)
  moreover have "iol_initlib start_state 3 = start_state" by (simp add: iol_initlib_def start_state_def)
  ultimately have "iol_reach (test_func nread) test_clean start_state" by simp
  then have "iol_reach (test_func nread) test_clean s1"
    by (rule iol_reach.step) (rule iol_step.add [OF _ _ _ r1], auto simp: start_state_def f2_desc_def)
  moreover have "iol_evs s1 10 = None" "iol_descs s1 20 = None"
    using r1 by (auto simp: iol_add_event_def an_of_def start_state_def f2_desc_def epoll_ctl_add_def
      IOLOOP_INITIALIZER_def Let_def)
  ultimately show ?thesis
    by (elim iol_reach.step) (rule iol_step.add [OF _ _ _ r2], auto simp: an_of_def f2_desc_def)
qed

theorem iol_reach_invariant_witness:
  "iol_reach (test_func (\<lambda>_. 0)) test_clean two_state \<and>
   (\<exists>rs :: registration list. iol_root two_state = map (fst \<circ> snd) rs \<and> dom (iol_interest two_state) = fst ` set rs)"
  using iol_reach_invariant [OF two_state_reach test_quiet_func test_quiet_clean]
    two_state_reach [of "\<lambda>_. 0"] by fast

text \<open>
  C14: in every state reached as in iol_reach_invariant, with the same callbacks (they leave
  the loop alone) and clean-ups (they change at most the context and close at most their own
  descriptor), deleting any descriptor that is not negative, adding any registration with
  fresh objects, dispatching any batch that has each watched event at most once, and leaving
  the program touch no freed object.
\<close>

theorem iol_no_fault:
  assumes "iol_reach func clean s" "quiet_func res func" "quiet_clean closes clean"
  shows "(\<forall>fd. 0 \<le> fd \<and> fd < 2 ^ 31 \<longrightarrow> iol_del_event clean s fd \<noteq> None) \<and>
    (\<forall>an ref. (\<forall>e. an_ev an = Some e \<longrightarrow> iol_evs s e = None) \<and>
       (\<forall>a. an_desc an = Some a \<longrightarrow> iol_descs s a = None) \<and> iol_fd ref < 2 ^ 31 \<longrightarrow>
       iol_add_event an s (Some ref) \<noteq> None) \<and>
    (\<forall>vec. distinct (map ep_data vec) \<and>
       (\<forall>v\<in>set vec. \<exists>f ev. iol_interest s f = Some ev \<and> ep_data v = ep_data ev) \<longrightarrow>
       iol_main_loop func clean s (Some vec) \<noteq> None) \<and>
    iol_exitlib s \<noteq> None"
proof -
  obtain rs where rs: "iol_regs s rs" using iol_reach_regs assms by blast
  have "iol_del_event clean s fd \<noteq> None" if "0 \<le> fd" "fd < 2 ^ 31" for fd
  proof (cases "fd \<in> fst ` set rs")
    case True
    then obtain e p where "(fd, e, p) \<in> set rs" by auto
    then show ?thesis using iol_del_event_ok [OF rs _ assms(3)] by simp
  next
    case False
    then show ?thesis using iol_del_event_unknown [OF rs False that] by simp
  qed
  moreover have "iol_add_event an s (Some ref) \<noteq> None"
    if "\<forall>e. an_ev an = Some e \<longrightarrow> iol_evs s e = None"
      "\<forall>a. an_desc an = Some a \<longrightarrow> iol_descs s a = None" "iol_fd ref < 2 ^ 31" for an ref
    using iol_add_event_cases [OF rs that(3), of an] that(1,2) by auto
  moreover have "iol_main_loop func clean s (Some vec) \<noteq> None"
    if "distinct (map ep_data vec)"
      and ready: "\<forall>v\<in>set vec. \<exists>f ev. iol_interest s f = Some ev \<and> ep_data v = ep_data ev" for vec
  proof (cases "vec = []")
    case True
    then show ?thesis by (simp add: iol_main_loop_def)
  next
    case False
    have "ep_data v \<in> Some ` (snd \<circ> snd) ` set rs" if v: "v \<in> set vec" for v
    proof -
      obtain f ev where ev: "iol_interest s f = Some ev" "ep_data v = ep_data ev"
        using ready v by blast
      from rs ev(1) obtain e p where r: "(f, e, p) \<in> set rs" "ep_data ev = Some p"
        by (rule iol_regs_watched)
      have "p \<in> (snd \<circ> snd) ` set rs" using r(1) by force
      then show ?thesis using ev(2) r(2) by simp
    qed
    then show ?thesis using iol_main_loop_ready [OF rs assms(2,3) False that(1)] by auto
  qed
  moreover have "iol_exitlib s \<noteq> None"
    by (rule iol_exitlib_regs [OF rs])
  ultimately show ?thesis by blast
qed

theorem iol_no_fault_witness:
  "iol_exitlib two_state \<noteq> None \<and> iol_del_event test_clean two_state 7 \<noteq> None"
  using iol_no_fault [OF two_state_reach test_quiet_func test_quiet_clean] by auto

text \<open>
  C15: from a state with the invariant of the loop, iol_add_event and iol_del_event implement
  a table from descriptors to registrations. Adding an open descriptor above 0, when both
  allocations, epoll_ctl and tsearch succeed with fresh objects, extends the table if it is
  absent, and fails and changes nothing if it is present. Deleting a present descriptor, whose
  clean-up function changes at most the context and closes at most its own descriptor, removes
  its entry; deleting an absent one that is not negative fails and changes nothing.
\<close>

theorem iol_table_refines:
  assumes "iol_regs s rs" "quiet_clean closes clean"
  shows "(0 \<le> fd \<and> fd < 2 ^ 31 \<longrightarrow> (if iol_table s fd = None
        then iol_del_event clean s fd = Some (-1, s)
        else \<exists>s'. iol_del_event clean s fd = Some (0, s') \<and> iol_table s' = (iol_table s)(fd := None))) \<and>
    (0 < iol_fd ref \<and> iol_fd ref < 2 ^ 31 \<and> iol_fd ref \<in> iol_open s \<and> an_ev an = Some e \<and>
        an_desc an = Some a \<and> an_epoll an \<and> an_tsearch an \<and> iol_evs s e = None \<and> iol_descs s a = None \<longrightarrow>
      (if iol_table s (iol_fd ref) \<noteq> None
       then iol_add_event an s (Some ref) = Some (-1, s)
       else \<exists>s'. iol_add_event an s (Some ref) = Some (0, s') \<and>
         iol_table s' = (iol_table s)(iol_fd ref \<mapsto> ref)))"
proof (intro conjI impI, goal_cases)
  case 1
  show ?case
  proof (cases "fd \<in> fst ` set rs")
    case True
    then obtain e p where r: "(fd, e, p) \<in> set rs" by auto
    then show ?thesis
      using iol_del_event_ok [OF assms(1) r assms(2)] iol_table_deleted [OF assms(1) r]
        iol_table_None_iff [OF assms(1)] True by simp
  next
    case False
    then show ?thesis
      using iol_del_event_unknown [OF assms(1) False] 1 iol_table_None_iff [OF assms(1)] by simp
  qed
next
  case 2
  show ?case
  proof (cases "iol_fd ref \<in> fst ` set rs")
    case True
    then have "iol_interest s (iol_fd ref) \<noteq> None" using iol_regsD(6) [OF assms(1)] by blast
    then show ?thesis
      using iol_add_event_fails [of ref an s] 2 iol_table_None_iff [OF assms(1)] True by auto
  next
    case False
    then show ?thesis
      using iol_add_event_ok [OF assms(1), of ref an e a] 2 iol_table_None_iff [OF assms(1)]
        iol_table_added [OF assms(1)] by auto
  qed
qed

theorem iol_table_refines_witness:
  "\<exists>s'. iol_del_event test_clean two_state 4 = Some (0, s') \<and>
    iol_table s' = (iol_table two_state)(4 := None)"
proof -
  have "iol_table two_state 4 \<noteq> None"
    using iol_table_None_iff [OF two_state_regs] by simp
  then show ?thesis
    using iol_table_refines [OF two_state_regs test_quiet_clean, of 4] by simp
qed

text \<open>
  C17: whenever an argument, an allocation, epoll_ctl or tsearch makes iol_add_event fail, it
  returns -1 and leaves the whole state as it was: nothing stays allocated, watched or in the
  tree.
\<close>

theorem iol_add_event_unchanged:
  assumes "an_ev an = Some e \<longrightarrow> iol_evs s e = None" "an_desc an = Some a \<longrightarrow> iol_descs s a = None"
    and "an_ev an \<in> {None, Some e}" "an_desc an \<in> {None, Some a}"
    and "iol_fd ref \<le> 0 \<or> an_ev an = None \<or> an_desc an = None \<or> \<not> an_epoll an \<or> \<not> an_tsearch an \<or>
      iol_fd ref \<notin> iol_open s \<or> iol_interest s (iol_fd ref) \<noteq> None \<or> iol_epfd s < 0"
  shows "iol_add_event an s (Some ref) = Some (-1, s) \<and> iol_add_event an s None = Some (-1, s)"
  using iol_add_event_fails [OF assms(5)] assms(1-4) by (auto simp: iol_add_event_def [of _ _ None])

theorem iol_add_event_unchanged_witness:
  "iol_add_event ((an_of 12 22)\<lparr>an_tsearch := False\<rparr>) two_state (Some (f2_desc None 3)) = Some (-1, two_state)"
  using iol_add_event_unchanged [of "(an_of 12 22)\<lparr>an_tsearch := False\<rparr>" 12 two_state 22 "f2_desc None 3"]
  by (simp add: an_of_def two_state_def)



text \<open>
  One round of the loop over a batch of ready events, with callbacks that leave the loop
  alone, returns their number and drops exactly the registrations whose callback answered a
  value that is not positive.
\<close>

theorem iol_main_loop_round:
  assumes "iol_regs s rs" "quiet_func res func" "quiet_clean closes clean" "vec \<noteq> []" "distinct (map ep_data vec)"
    and "\<forall>v\<in>set vec. \<exists>r\<in>set rs. ep_data v = Some (snd (snd r))"
  shows "\<exists>s'. iol_main_loop func clean s (Some vec) = Some (int (length vec), s') \<and>
    iol_root s' = map (fst \<circ> snd) (filter (\<lambda>r. \<forall>v\<in>set vec. \<not> iol_drops res (iol_descs s) v (snd (snd r))) rs) \<and>
    dom (iol_table s') = {f. \<exists>e p. (f, e, p) \<in> set rs \<and> (\<forall>v\<in>set vec. \<not> iol_drops res (iol_descs s) v p)}"
proof -
  have "\<forall>v\<in>set vec. ep_data v \<in> Some ` (snd \<circ> snd) ` set rs" using assms(6) by force
  then obtain s' where s': "iol_main_loop func clean s (Some vec) = Some (int (length vec), s')"
    "iol_regs s' (iol_kept res (iol_descs s) vec rs)"
    using iol_main_loop_ready [OF assms(1-5)] by blast
  have "dom (iol_table s') = fst ` set (iol_kept res (iol_descs s) vec rs)"
    by (intro set_eqI) (simp only: domIff iol_table_None_iff [OF s'(2)] not_not)
  also have "\<dots> = {f. \<exists>e p. (f, e, p) \<in> set rs \<and> (\<forall>v\<in>set vec. \<not> iol_drops res (iol_descs s) v p)}"
    unfolding iol_kept_def by force
  finally show ?thesis using s'(1) iol_regsD(1) [OF s'(2)] unfolding iol_kept_def by blast
qed

theorem iol_main_loop_round_witness:
  "\<exists>s'. iol_main_loop (test_func (\<lambda>_. 0)) test_clean two_state
      (Some [\<lparr>ep_events = EPOLLIN, ep_data = Some 20\<rparr>]) = Some (1, s') \<and> dom (iol_table s') = {5}"
proof -
  let ?v = "\<lparr>ep_events = EPOLLIN, ep_data = Some 20\<rparr>"
  have "iol_drops (\<lambda>_. f2cbk (\<lambda>_. 0)) (iol_descs two_state) ?v 20"
    "\<not> iol_drops (\<lambda>_. f2cbk (\<lambda>_. 0)) (iol_descs two_state) ?v 21"
    by (simp_all add: iol_drops_def two_state_def f2_desc_def f2cbk_def)
  then show ?thesis
    using iol_main_loop_round [OF two_state_regs test_quiet_func [of "\<lambda>_. 0"] test_quiet_clean, of "[?v]"]
    by auto
qed

text \<open>
  Stop
\<close>

theorem iol_stop_loop_ignored:
  assumes "iol_regs s rs" "quiet_func res func" "quiet_clean closes clean" "vec \<noteq> []" "distinct (map ep_data vec)"
    and "\<forall>v\<in>set vec. \<exists>r\<in>set rs. ep_data v = Some (snd (snd r))"
  shows "\<exists>s'. iol_main_loop func clean (iol_stop_loop s) (Some vec) = Some (int (length vec), s')"
proof -
  have "iol_regs (iol_stop_loop s) rs"
    using assms(1) by (subst iol_regs_frame [of _ s]) (simp_all add: iol_stop_loop_def)
  moreover have "\<forall>v\<in>set vec. ep_data v \<in> Some ` (snd \<circ> snd) ` set rs" using assms(6) by force
  ultimately show ?thesis using iol_main_loop_ready assms(2-5) by blast
qed

theorem iol_stop_loop_ignored_witness:
  "\<exists>s'. iol_main_loop (test_func (\<lambda>_. 1)) test_clean (iol_stop_loop two_state)
      (Some [\<lparr>ep_events = EPOLLIN, ep_data = Some 21\<rparr>]) = Some (1, s')"
  using iol_stop_loop_ignored [OF two_state_regs test_quiet_func [of "\<lambda>_. 1"] test_quiet_clean,
      of "[\<lparr>ep_events = EPOLLIN, ep_data = Some 21\<rparr>]"]
  by auto

text \<open>
  Exit
\<close>

theorem iol_exitlib_frees:
  assumes "iol_regs s rs"
  shows "\<exists>s'. iol_exitlib s = Some s' \<and> iol_evs s' = iol_evs s |` (- set (iol_root s)) \<and>
    iol_descs s' = iol_descs s |` (- (snd \<circ> snd) ` set rs) \<and>
    iol_open s' = iol_open s - dom (iol_interest s) \<and> iol_interest s' = (\<lambda>_. None) \<and>
    iol_root s' = iol_root s"
proof -
  note d = iol_regsD [OF assms]
  have "distinct (map fst rs)" using d(3) strict_sorted_iff by blast
  then have t: "tdestroy s (map (fst \<circ> snd) rs) = Some (s\<lparr>
     iol_evs := iol_evs s |` (- (fst \<circ> snd) ` set rs), iol_descs := iol_descs s |` (- (snd \<circ> snd) ` set rs),
     iol_open := iol_open s - fst ` set rs, iol_interest := iol_interest s |` (- fst ` set rs)\<rparr>)"
    using d by (intro tdestroy_regs)
  have "iol_interest s |` (- fst ` set rs) = (\<lambda>_. None)"
    unfolding d(6) [symmetric] by (auto simp: restrict_map_def fun_eq_iff)
  moreover have "set (iol_root s) = (fst \<circ> snd) ` set rs" by (simp add: d(1))
  ultimately show ?thesis using t d(1,6) by (simp add: iol_exitlib_def)
qed

theorem iol_exitlib_frees_witness:
  "\<exists>s'. iol_exitlib two_state = Some s' \<and> iol_open s' = {3} \<and> iol_root s' = [10, 11]"
  using iol_exitlib_frees [OF two_state_regs] by (auto simp: two_state_def)

section \<open>Where the loop goes wrong\<close>

text \<open>A callback that deletes the registration of descriptor 5.\<close>

definition deleting_func :: iol_callbacks where
  "deleting_func f fd data s = do { (r, s) \<leftarrow> iol_del_event test_clean s 5; Some (1, s) }"

text \<open>
  Use after free
\<close>

theorem iol_dispatch_use_after_free:
  "iol_regs two_state [(4, 10, 20), (5, 11, 21)] \<and>
   iol_main_loop deleting_func test_clean two_state
     (Some [\<lparr>ep_events = EPOLLIN, ep_data = Some 20\<rparr>, \<lparr>ep_events = EPOLLIN, ep_data = Some 21\<rparr>]) = None"
proof -
  let ?s = "two_state\<lparr>iol_descs := (iol_descs two_state)(20 \<mapsto> (f2_desc (Some 30) 4)\<lparr>iol_rev := EPOLLIN\<rparr>)\<rparr>"
  have "iol_regs ?s [(4, 10, 20), (5, 11, 21)]"
    by (rule iol_regs_descs [OF two_state_regs]) (auto simp: two_state_def f2_desc_def)
  then have del: "iol_del_event test_clean ?s 5 =
      Some (0, iol_deleted test_closes ?s [(4, 10, 20), (5, 11, 21)] (5, 11, 21))"
    using test_quiet_clean by (intro iol_del_event_ok) auto
  have d20: "iol_descs two_state 20 = Some (f2_desc (Some 30) 4)"
    "iol_func (f2_desc (Some 30) 4) = Some at_f2cbk"
    by (simp_all add: two_state_def f2_desc_def)
  have gone: "iol_descs (iol_deleted test_closes ?s [(4, 10, 20), (5, 11, 21)] (5, 11, 21)) 21 = None"
    by (simp add: iol_deleted_def two_state_def f2_desc_def)
  show ?thesis
    using two_state_regs del gone by (simp add: iol_main_loop_def deleting_func_def d20)
qed

text \<open>
  Reuse
\<close>

theorem iol_add_reused_fd:
  assumes "iol_regs s rs" "(f, e, p) \<in> set rs" "iol_fd ref = f"
    and "an_ev an = Some e'" "an_desc an = Some a" "an_epoll an" "an_tsearch an"
    and "iol_evs s e' = None" "iol_descs s a = None"
  shows "\<exists>s'. iol_add_event an (open_fd (close_fd s f) f) (Some ref) = Some (0, s') \<and>
    iol_root s' = iol_root s \<and> e' \<notin> set (iol_root s') \<and> iol_evs s' e' \<noteq> None \<and>
    iol_interest s' f = iol_evs s' e'"
proof -
  note d = iol_regsD [OF assms(1)]
  have ro: "reg_ok s (f, e, p)" using d(2) assms(2) by blast
  then have f: "0 < f" "f < 2 ^ 31" by (auto simp: reg_ok_def)
  have ne: "e' \<notin> (fst \<circ> snd) ` set rs" "a \<notin> (snd \<circ> snd) ` set rs"
    using d(2) assms(8,9) reg_ok_in_dom by fastforce+
  let ?ev = "\<lparr>ep_events = iol_ev ref, ep_data = Some a\<rparr>"
  let ?s = "(open_fd (close_fd s f) f)\<lparr>iol_descs := (iol_descs s)(a \<mapsto> ref), iol_evs := (iol_evs s)(e' \<mapsto> ?ev),
    iol_interest := (iol_interest s)(f \<mapsto> ?ev)\<rparr>"
  have nd: "\<exists>dd. iol_node_desc ?s x = Some dd \<and> iol_fd dd = g \<and> 0 < g \<and> g < 2 ^ 31"
    if "(g, x, q) \<in> set rs" for g x q
  proof -
    have "reg_ok s (g, x, q)" using d(2) that by blast
    moreover have "x \<noteq> e'" "q \<noteq> a" using ne that by force+
    ultimately show ?thesis by (auto elim!: reg_okE simp: iol_node_desc_def)
  qed
  have "tsearch ?s f e' (iol_root s) = Some (iol_root s)"
    unfolding d(1) using nd d(3) assms(2) by (rule tsearch_present)
  then have "iol_add_event an (open_fd (close_fd s f) f) (Some ref) = Some (0, ?s)"
    using f assms d(7) by (simp add: iol_add_event_def epoll_ctl_add_def Let_def open_fd_def close_fd_def)
  then show ?thesis using ne(1) d(1) by (simp add: open_fd_def close_fd_def)
qed

theorem iol_add_reused_fd_witness:
  "\<exists>s'. iol_add_event (an_of 12 22) (open_fd (close_fd two_state 5) 5) (Some (f2_desc (Some 32) 5)) = Some (0, s') \<and>
    12 \<notin> set (iol_root s') \<and> iol_evs s' 12 \<noteq> None"
proof -
  have "iol_evs two_state 12 = None" "iol_descs two_state 22 = None" by (simp_all add: two_state_def)
  then show ?thesis
    using iol_add_reused_fd [OF two_state_regs, of 5 11 21 "f2_desc (Some 32) 5" "an_of 12 22" 12 22]
    by (auto simp: an_of_def f2_desc_def)
qed

end
