(* ===== verification/Ioloop_Test.thy ===== *)
theory Ioloop_Test
  imports Ioloop_Properties
begin

text \<open>
  The test program \<open>ioloop/test.c\<close> as a whole: \<open>main\<close> registers three pipes and runs the loop for
  ever, while a thread it starts registers a fourth one. The two run in any order, a call of the
  library at a time; the library has no lock, so calls that overlap are outside the model. What the
  program prints is left out.
\<close>

section \<open>The threads\<close>














section \<open>Descriptors of \<open>f2\<close>\<close>









section \<open>Every order of steps\<close>









section \<open>The program\<close>




end
