(* ===== verification/Elf_Format.thy ===== *)
theory Elf_Format
  imports C_Memory
begin

text \<open>
  What the ELF readers of the repository share: fields of one, two and four bytes, C strings in
  memory, the walk over a table of fixed-size entries, and the layouts of \<open>elf.h\<close> the code reads.
  A file is the memory it is mapped in; reading outside the mapping is a fault, the value \<open>None\<close>.
\<close>

section \<open>Fields\<close>

definition load16 :: "'a::len memory \<Rightarrow> 'a word \<Rightarrow> u16 option" where
  "load16 m a = map_option of_le (load_bytes m a 2)"

definition load32 :: "'a::len memory \<Rightarrow> 'a word \<Rightarrow> u32 option" where
  "load32 m a = map_option of_le (load_bytes m a 4)"

text \<open>\<open>strcmp(s, t) == 0\<close> for the string \<open>t\<close> at an address and a string \<open>s\<close> given by its bytes.\<close>

fun str_at :: "'a::len memory \<Rightarrow> 'a word \<Rightarrow> byte list \<Rightarrow> bool option" where
  "str_at m a [] = do { b \<leftarrow> m a; Some (b = 0) }"
| "str_at m a (c # cs) = do { b \<leftarrow> m a; if b = c then str_at m (a + 1) cs else Some False }"

definition bytes_of :: "string \<Rightarrow> byte list" where
  "bytes_of s = map of_char s"

lemma str_at_True:
  "str_at m a cs = Some True \<longleftrightarrow> load_bytes m a (length cs) = Some cs \<and> m (a + of_nat (length cs)) = Some 0"
  by (induction cs arbitrary: a) (auto simp: bind_simps add.assoc)

section \<open>Tables\<close>

text \<open>
  \<open>for (i = 0; i < n; ++i, ++p) if (cond(p)) return p; return NULL;\<close> over a table of \<open>n\<close> entries
  of \<open>step\<close> bytes each, where the condition reads memory.
\<close>

primrec scan :: "nat \<Rightarrow> 'a::len word \<Rightarrow> ('a word \<Rightarrow> bool option) \<Rightarrow> 'a word \<Rightarrow> 'a word option option" where
  "scan 0 step cond p = Some None"
| "scan (Suc n) step cond p = do {
     b \<leftarrow> cond p;
     if b then Some (Some p) else scan n step cond (p + step) }"

lemma scan_numeral:
  "scan (numeral k) step cond p = do {
     b \<leftarrow> cond p;
     if b then Some (Some p) else scan (pred_numeral k) step cond (p + step) }"
  by (simp add: numeral_eq_Suc)

lemma all_less_numeral:
  "(\<forall>i<numeral k. P i) \<longleftrightarrow> P (pred_numeral k) \<and> (\<forall>i<pred_numeral k. P i)"
  by (auto simp: numeral_eq_Suc less_Suc_eq)

definition entry :: "'a::len word \<Rightarrow> 'a word \<Rightarrow> nat \<Rightarrow> 'a word" where
  "entry p step i = p + of_nat i * step"

lemma entry_0 [simp]: "entry p step 0 = p"
  by (simp add: entry_def)

lemma entry_shift: "entry (p + step) step i = entry p step (Suc i)"
  by (simp add: entry_def algebra_simps)

text \<open>The walk finds the first entry that satisfies the condition.\<close>

lemma scan_find:
  "(\<And>i. i < n \<Longrightarrow> cond (entry p step i) = Some (P i)) \<Longrightarrow>
   scan n step cond p = Some (map_option (entry p step) (find P [0..<n]))"
proof (induction n arbitrary: p P)
  case 0
  then show ?case by simp
next
  case (Suc n)
  have head: "cond p = Some (P 0)" using Suc.prems [of 0] by simp
  have "scan n step cond (p + step) =
      Some (map_option (entry (p + step) step) (find (\<lambda>i. P (Suc i)) [0..<n]))"
    using Suc.prems [of "Suc _"] by (intro Suc.IH) (simp add: entry_shift)
  moreover have "find P (map Suc [0..<n]) = map_option Suc (find (\<lambda>i. P (Suc i)) [0..<n])"
  proof -
    have "find P (map Suc is) = map_option Suc (find (\<lambda>i. P (Suc i)) is)" for "is"
      by (induction "is") auto
    then show ?thesis .
  qed
  moreover have "entry (p + step) step = (\<lambda>i. entry p step (Suc i))"
    by (rule ext) (rule entry_shift)
  ultimately show ?case
    using head by (simp add: upt_conv_Cons map_Suc_upt [symmetric] option.map_comp comp_def
      del: upt_Suc map_Suc_upt)
qed

lemma find_upt_Some:
  "find P [0..<n] = Some i \<longleftrightarrow> i < n \<and> P i \<and> (\<forall>j<i. \<not> P j)"
  by (auto simp: find_Some_iff)

lemma find_upt_None: "find P [0..<n] = None \<longleftrightarrow> (\<forall>i<n. \<not> P i)"
  by (auto simp: find_None_iff)

text \<open>A walk that returned something found the first match; what follows it was not read.\<close>

lemma scan_SomeD:
  "scan n step cond p = Some (Some q) \<Longrightarrow>
   \<exists>i<n. q = entry p step i \<and> cond q = Some True \<and> (\<forall>j<i. cond (entry p step j) = Some False)"
proof (induction n arbitrary: p)
  case 0
  then show ?case by simp
next
  case (Suc n)
  then obtain b where b: "cond p = Some b" by (auto simp: bind_simps)
  show ?case
  proof (cases b)
    case True
    then show ?thesis using Suc.prems b by (intro exI [of _ 0]) simp
  next
    case False
    then obtain i where i: "i < n" "q = entry (p + step) step i" "cond q = Some True"
      "\<forall>j<i. cond (entry (p + step) step j) = Some False"
      using Suc b by auto
    have "cond (entry p step j) = Some False" if "j < Suc i" for j
      using that i(4) b False by (cases j) (auto simp: entry_shift)
    then show ?thesis using i by (intro exI [of _ "Suc i"]) (auto simp: entry_shift)
  qed
qed

text \<open>A walk that found nothing read every entry, and one finds the first match.\<close>

lemma scan_NoneD: "scan n step cond p = Some None \<Longrightarrow> \<forall>i<n. cond (entry p step i) = Some False"
proof (induction n arbitrary: p)
  case 0
  then show ?case by simp
next
  case (Suc n)
  then have "cond p = Some False" "scan n step cond (p + step) = Some None"
    by (auto simp: bind_simps split: if_split_asm)
  then show ?case using Suc.IH [of "p + step"] by (auto simp: entry_shift less_Suc_eq_0_disj)
qed

lemma scan_first:
  "i < n \<Longrightarrow> cond (entry p step i) = Some True \<Longrightarrow> \<forall>j<i. cond (entry p step j) = Some False \<Longrightarrow>
   scan n step cond p = Some (Some (entry p step i))"
proof (induction n arbitrary: p i)
  case 0
  then show ?case by simp
next
  case (Suc n)
  show ?case
  proof (cases i)
    case 0
    then show ?thesis using Suc.prems by simp
  next
    case (Suc k)
    have "cond p = Some False" using Suc.prems(3) Suc by (metis entry_0 zero_less_Suc)
    moreover have "scan n step cond (p + step) = Some (Some (entry (p + step) step k))"
      using Suc.prems Suc by (intro Suc.IH) (auto simp: entry_shift)
    ultimately show ?thesis using Suc by (simp add: entry_shift)
  qed
qed

text \<open>A walk that returned, over a table with a match, returned a match not after it.\<close>

lemma scan_hits:
  "scan n step cond p = Some r \<Longrightarrow> i < n \<Longrightarrow> cond (entry p step i) = Some True \<Longrightarrow>
   \<exists>j\<le>i. r = Some (entry p step j) \<and> cond (entry p step j) = Some True"
proof (induction n arbitrary: p i)
  case 0
  then show ?case by simp
next
  case (Suc n)
  from Suc.prems(1) obtain b where b: "cond p = Some b" by (auto simp: bind_simps)
  show ?case
  proof (cases "b \<or> i = 0")
    case True
    then have "b" using b Suc.prems(3) by auto
    then show ?thesis using b Suc.prems(1) by (intro exI [of _ 0]) simp
  next
    case False
    then obtain i' where i: "i = Suc i'" by (cases i) auto
    have "scan n step cond (p + step) = Some r" using Suc.prems(1) b False by simp
    then obtain j where "j \<le> i'" "r = Some (entry (p + step) step j)"
      "cond (entry (p + step) step j) = Some True"
      using Suc.IH [of "p + step" i'] Suc.prems(2,3) i by (auto simp: entry_shift)
    then show ?thesis using i by (intro exI [of _ "Suc j"]) (simp add: entry_shift)
  qed
qed

text \<open>
  The same walk where each entry may yield a result: \<open>for (...) { if (r = f(p)) return r; }\<close>.
\<close>

primrec search :: "nat \<Rightarrow> 'a::len word \<Rightarrow> ('a word \<Rightarrow> 'b option option) \<Rightarrow> 'a word \<Rightarrow> 'b option option" where
  "search 0 step f p = Some None"
| "search (Suc n) step f p = do {
     r \<leftarrow> f p;
     (case r of Some x \<Rightarrow> Some (Some x) | None \<Rightarrow> search n step f (p + step)) }"

lemma search_numeral:
  "search (numeral k) step f p = do {
     r \<leftarrow> f p;
     (case r of Some x \<Rightarrow> Some (Some x) | None \<Rightarrow> search (pred_numeral k) step f (p + step)) }"
  by (simp add: numeral_eq_Suc)

definition first :: "'b list \<Rightarrow> 'b option" where
  "first xs = (case xs of [] \<Rightarrow> None | x # _ \<Rightarrow> Some x)"

lemma map_filter_upt_Suc:
  "List.map_filter g [0..<Suc n] =
   (case g 0 of None \<Rightarrow> [] | Some x \<Rightarrow> [x]) @ List.map_filter (\<lambda>i. g (Suc i)) [0..<n]"
proof -
  have "List.map_filter g (map Suc xs) = List.map_filter (\<lambda>i. g (Suc i)) xs" for xs
    by (induction xs) (auto simp: map_filter_simps split: option.split)
  then show ?thesis
    by (simp add: upt_conv_Cons map_Suc_upt [symmetric] map_filter_simps del: upt_Suc map_Suc_upt
      split: option.split)
qed

lemma search_first:
  "(\<And>i. i < n \<Longrightarrow> f (entry p step i) = Some (g i)) \<Longrightarrow>
   search n step f p = Some (first (List.map_filter g [0..<n]))"
proof (induction n arbitrary: p g)
  case 0
  then show ?case by (simp add: first_def map_filter_simps)
next
  case (Suc n)
  have "f p = Some (g 0)" using Suc.prems [of 0] by simp
  moreover have "search n step f (p + step) = Some (first (List.map_filter (\<lambda>i. g (Suc i)) [0..<n]))"
    using Suc.prems [of "Suc _"] by (intro Suc.IH) (simp add: entry_shift)
  ultimately show ?case
    by (simp add: map_filter_upt_Suc first_def del: upt_Suc split: option.split)
qed

section \<open>The 32-bit layout\<close>

type_synonym mem32 = "32 memory"

definition PT_LOAD :: u32 where "PT_LOAD = 1"
definition PF_X :: u32 where "PF_X = 1"
definition PF_W :: u32 where "PF_W = 2"
definition SHT_RELA :: u32 where "SHT_RELA = 4"
definition SHT_REL :: u32 where "SHT_REL = 9"
definition SHT_DYNSYM :: u32 where "SHT_DYNSYM = 11"
definition SHN_UNDEF :: u16 where "SHN_UNDEF = 0"

definition Elf32_e_phoff :: "mem32 \<Rightarrow> u32 \<Rightarrow> u32 option" where "Elf32_e_phoff m p = load32 m (p + 28)"
definition Elf32_e_shoff :: "mem32 \<Rightarrow> u32 \<Rightarrow> u32 option" where "Elf32_e_shoff m p = load32 m (p + 32)"
definition Elf32_e_phnum :: "mem32 \<Rightarrow> u32 \<Rightarrow> u16 option" where "Elf32_e_phnum m p = load16 m (p + 44)"
definition Elf32_e_shnum :: "mem32 \<Rightarrow> u32 \<Rightarrow> u16 option" where "Elf32_e_shnum m p = load16 m (p + 48)"
definition Elf32_e_shstrndx :: "mem32 \<Rightarrow> u32 \<Rightarrow> u16 option" where "Elf32_e_shstrndx m p = load16 m (p + 50)"

definition sizeof_Elf32_Phdr :: u32 where "sizeof_Elf32_Phdr = 32"
definition Elf32_p_type :: "mem32 \<Rightarrow> u32 \<Rightarrow> u32 option" where "Elf32_p_type m p = load32 m p"
definition Elf32_p_vaddr :: "mem32 \<Rightarrow> u32 \<Rightarrow> u32 option" where "Elf32_p_vaddr m p = load32 m (p + 8)"
definition Elf32_p_flags :: "mem32 \<Rightarrow> u32 \<Rightarrow> u32 option" where "Elf32_p_flags m p = load32 m (p + 24)"

definition sizeof_Elf32_Shdr :: u32 where "sizeof_Elf32_Shdr = 40"
definition Elf32_sh_name :: "mem32 \<Rightarrow> u32 \<Rightarrow> u32 option" where "Elf32_sh_name m p = load32 m p"
definition Elf32_sh_type :: "mem32 \<Rightarrow> u32 \<Rightarrow> u32 option" where "Elf32_sh_type m p = load32 m (p + 4)"
definition Elf32_sh_offset :: "mem32 \<Rightarrow> u32 \<Rightarrow> u32 option" where "Elf32_sh_offset m p = load32 m (p + 16)"
definition Elf32_sh_size :: "mem32 \<Rightarrow> u32 \<Rightarrow> u32 option" where "Elf32_sh_size m p = load32 m (p + 20)"
definition Elf32_sh_link :: "mem32 \<Rightarrow> u32 \<Rightarrow> u32 option" where "Elf32_sh_link m p = load32 m (p + 24)"

definition sizeof_Elf32_Sym :: u32 where "sizeof_Elf32_Sym = 16"
definition Elf32_st_name :: "mem32 \<Rightarrow> u32 \<Rightarrow> u32 option" where "Elf32_st_name m p = load32 m p"
definition Elf32_st_value :: "mem32 \<Rightarrow> u32 \<Rightarrow> u32 option" where "Elf32_st_value m p = load32 m (p + 4)"
definition Elf32_st_size :: "mem32 \<Rightarrow> u32 \<Rightarrow> u32 option" where "Elf32_st_size m p = load32 m (p + 8)"

definition Elf32_st_info :: "mem32 \<Rightarrow> u32 \<Rightarrow> u8 option" where "Elf32_st_info m p = m (p + 12)"
definition Elf32_st_other :: "mem32 \<Rightarrow> u32 \<Rightarrow> u8 option" where "Elf32_st_other m p = m (p + 13)"

definition sizeof_Elf32_Rel :: u32 where "sizeof_Elf32_Rel = 8"
definition Elf32_r_offset :: "mem32 \<Rightarrow> u32 \<Rightarrow> u32 option" where "Elf32_r_offset m p = load32 m p"
definition Elf32_r_info :: "mem32 \<Rightarrow> u32 \<Rightarrow> u32 option" where "Elf32_r_info m p = load32 m (p + 4)"
definition ELF32_R_SYM :: "u32 \<Rightarrow> u32" where "ELF32_R_SYM i = drop_bit 8 i"

section \<open>The 64-bit layout\<close>

type_synonym mem64 = "64 memory"

definition Elf64_e_shoff :: "mem64 \<Rightarrow> u64 \<Rightarrow> u64 option" where "Elf64_e_shoff m p = load64 m (p + 40)"
definition Elf64_e_shnum :: "mem64 \<Rightarrow> u64 \<Rightarrow> u16 option" where "Elf64_e_shnum m p = load16 m (p + 60)"
definition Elf64_e_shstrndx :: "mem64 \<Rightarrow> u64 \<Rightarrow> u16 option" where "Elf64_e_shstrndx m p = load16 m (p + 62)"

definition sizeof_Elf64_Shdr :: u64 where "sizeof_Elf64_Shdr = 64"
definition Elf64_sh_name :: "mem64 \<Rightarrow> u64 \<Rightarrow> u32 option" where "Elf64_sh_name m p = load32 m p"
definition Elf64_sh_type :: "mem64 \<Rightarrow> u64 \<Rightarrow> u32 option" where "Elf64_sh_type m p = load32 m (p + 4)"
definition Elf64_sh_offset :: "mem64 \<Rightarrow> u64 \<Rightarrow> u64 option" where "Elf64_sh_offset m p = load64 m (p + 24)"
definition Elf64_sh_size :: "mem64 \<Rightarrow> u64 \<Rightarrow> u64 option" where "Elf64_sh_size m p = load64 m (p + 32)"
definition Elf64_sh_link :: "mem64 \<Rightarrow> u64 \<Rightarrow> u32 option" where "Elf64_sh_link m p = load32 m (p + 40)"

definition sizeof_Elf64_Sym :: u64 where "sizeof_Elf64_Sym = 24"
definition Elf64_st_name :: "mem64 \<Rightarrow> u64 \<Rightarrow> u32 option" where "Elf64_st_name m p = load32 m p"
definition Elf64_st_info :: "mem64 \<Rightarrow> u64 \<Rightarrow> u8 option" where "Elf64_st_info m p = m (p + 4)"
definition ELF64_ST_BIND :: "u8 \<Rightarrow> u8" where "ELF64_ST_BIND i = drop_bit 4 i"
definition ELF64_ST_TYPE :: "u8 \<Rightarrow> u8" where "ELF64_ST_TYPE i = i AND 0xf"

definition sizeof_Elf64_Rel :: u64 where "sizeof_Elf64_Rel = 16"
definition sizeof_Elf64_Rela :: u64 where "sizeof_Elf64_Rela = 24"
definition Elf64_r_offset :: "mem64 \<Rightarrow> u64 \<Rightarrow> u64 option" where "Elf64_r_offset m p = load64 m p"
definition Elf64_r_info :: "mem64 \<Rightarrow> u64 \<Rightarrow> u64 option" where "Elf64_r_info m p = load64 m (p + 8)"
definition ELF64_R_SYM :: "u64 \<Rightarrow> u64" where "ELF64_R_SYM i = drop_bit 32 i"

lemmas Elf32_fields = Elf32_e_phoff_def Elf32_e_shoff_def Elf32_e_phnum_def Elf32_e_shnum_def
  Elf32_e_shstrndx_def Elf32_p_type_def Elf32_p_vaddr_def Elf32_p_flags_def Elf32_sh_name_def
  Elf32_sh_type_def Elf32_sh_offset_def Elf32_sh_size_def Elf32_sh_link_def Elf32_st_name_def
  Elf32_st_value_def Elf32_st_size_def Elf32_st_info_def Elf32_st_other_def Elf32_r_offset_def
  Elf32_r_info_def

lemmas Elf64_fields = Elf64_e_shoff_def Elf64_e_shnum_def Elf64_e_shstrndx_def Elf64_sh_name_def
  Elf64_sh_type_def Elf64_sh_offset_def Elf64_sh_size_def Elf64_sh_link_def Elf64_st_name_def
  Elf64_st_info_def Elf64_r_offset_def Elf64_r_info_def

section \<open>Small images\<close>

text \<open>For the witnesses: zeros everywhere but at the given addresses.\<close>

definition image :: "('a::len word \<times> byte) list \<Rightarrow> 'a memory" where
  "image bs = (\<lambda>_. Some 0) ++ map_of bs"

lemma image_simps [simp]:
  "image [] a = Some 0" "image ((b, v) # bs) a = (if a = b then Some v else image bs a)"
  by (simp_all add: image_def map_add_def)

lemma image_total: "image bs a \<noteq> None"
  by (cases "map_of bs a") (simp_all add: image_def map_add_def)

lemma load_compute [simp]:
  "load16 m a = do { b0 \<leftarrow> m a; b1 \<leftarrow> m (a + 1); Some (of_le [b0, b1]) }"
  "load32 m a = do { b0 \<leftarrow> m a; b1 \<leftarrow> m (a + 1); b2 \<leftarrow> m (a + 1 + 1); b3 \<leftarrow> m (a + 1 + 1 + 1);
     Some (of_le [b0, b1, b2, b3]) }"
  "load64 m a = do { b0 \<leftarrow> m a; b1 \<leftarrow> m (a + 1); b2 \<leftarrow> m (a + 1 + 1); b3 \<leftarrow> m (a + 1 + 1 + 1);
     b4 \<leftarrow> m (a + 1 + 1 + 1 + 1); b5 \<leftarrow> m (a + 1 + 1 + 1 + 1 + 1);
     b6 \<leftarrow> m (a + 1 + 1 + 1 + 1 + 1 + 1); b7 \<leftarrow> m (a + 1 + 1 + 1 + 1 + 1 + 1 + 1);
     Some (of_le [b0, b1, b2, b3, b4, b5, b6, b7]) }"
  by (simp_all add: load16_def load32_def load64_def numeral_2_eq_2 numeral_eq_Suc map_option_bind comp_def
    del: of_le.simps)

declare load_compute [simp del]

end
