(* ===== verification/Linux_Obj_Parser.thy ===== *)
theory Linux_Obj_Parser
  imports Elf_Format
begin

text \<open>
  \<open>got_modifier/linux_obj_parser.c\<close>: the segments, the dynamic symbols and their relocations of a
  32-bit ELF image mapped at \<open>base\<close>. The model reads the image from memory \<open>m\<close>, which the
  functions do not write; \<open>struct lop_info\<close>, which they do write, is a record passed along.
  A \<open>NULL\<close> result is \<open>None\<close>; \<open>die_now\<close> is the exit status on the left of a sum.
\<close>

section \<open>Data\<close>

definition LOP_MAX_DYNSYM :: nat where "LOP_MAX_DYNSYM = 128"

record lop_dynsym =
  lop_sym :: u32
  lop_rel :: "u32 option"
  lop_symname :: u32

record lop_info =
  lop_ehdr :: u32
  lop_phdr :: u32
  lop_shdr :: u32
  lop_textvaddr :: u32
  lop_datavaddr :: u32
  lop_gotoffset :: u32
  lop_plt :: "lop_dynsym list"
  lop_dynsym_count :: u8

text \<open>The result of \<open>memset(ptr, 0, sizeof *ptr)\<close>.\<close>

definition lop_info_zero :: lop_info where
  "lop_info_zero = \<lparr> lop_ehdr = 0, lop_phdr = 0, lop_shdr = 0, lop_textvaddr = 0, lop_datavaddr = 0,
     lop_gotoffset = 0,
     lop_plt = replicate LOP_MAX_DYNSYM \<lparr> lop_sym = 0, lop_rel = None, lop_symname = 0 \<rparr>,
     lop_dynsym_count = 0 \<rparr>"

section \<open>Segments\<close>

text \<open>The body of the loop over the program headers, on the counter \<open>nb_affect\<close> and the info.\<close>

definition lop_segment :: "mem32 \<Rightarrow> u32 \<Rightarrow> nat \<Rightarrow> lop_info \<Rightarrow> (nat \<times> lop_info) option" where
  "lop_segment m current nb_affect ptr = do {
     t \<leftarrow> Elf32_p_type m current;
     if t = PT_LOAD then do {
       f \<leftarrow> Elf32_p_flags m current;
       if f AND PF_X \<noteq> 0 then do {
         v \<leftarrow> Elf32_p_vaddr m current;
         Some (nb_affect + 1, ptr\<lparr> lop_textvaddr := v \<rparr>) }
       else if f AND PF_W \<noteq> 0 then do {
         v \<leftarrow> Elf32_p_vaddr m current;
         Some (nb_affect + 1, ptr\<lparr> lop_datavaddr := v \<rparr>) }
       else Some (nb_affect, ptr) }
     else Some (nb_affect, ptr) }"

text \<open>
  The loop index is a \<open>uint8_t\<close>, the number of headers a \<open>uint16_t\<close>: \<open>++i\<close> wraps at 256, so the
  loop may not end and is a partial function.
\<close>

partial_function (option) lop_segments ::
  "mem32 \<Rightarrow> u8 \<Rightarrow> u32 \<Rightarrow> nat \<Rightarrow> lop_info \<Rightarrow> (nat \<times> lop_info) option" where
  "lop_segments m i current nb_affect ptr = do {
     e_phnum \<leftarrow> Elf32_e_phnum m (lop_ehdr ptr);
     if unat i < unat e_phnum \<and> nb_affect < 2 then do {
       r \<leftarrow> lop_segment m current nb_affect ptr;
       lop_segments m (i + 1) (current + sizeof_Elf32_Phdr) (fst r) (snd r) }
     else Some (nb_affect, ptr) }"

definition lop_read_segment_info :: "mem32 \<Rightarrow> lop_info \<Rightarrow> (int \<times> lop_info) option" where
  "lop_read_segment_info m ptr = do {
     r \<leftarrow> lop_segments m 0 (lop_phdr ptr) 0 ptr;
     Some (if fst r = 2 then 0 else 1, snd r) }"

section \<open>Sections\<close>

definition lop_get_section_by_type :: "mem32 \<Rightarrow> u32 \<Rightarrow> u32 \<Rightarrow> u32 option option" where
  "lop_get_section_by_type m base type = do {
     e_shoff \<leftarrow> Elf32_e_shoff m base;
     e_shnum \<leftarrow> Elf32_e_shnum m base;
     scan (unat e_shnum) sizeof_Elf32_Shdr
       (\<lambda>current. do { t \<leftarrow> Elf32_sh_type m current; Some (type = t) }) (base + e_shoff) }"

definition lop_get_section_dynstr_tab :: "mem32 \<Rightarrow> u32 \<Rightarrow> u32 \<Rightarrow> u32 option" where
  "lop_get_section_dynstr_tab m base dyn = do {
     e_shoff \<leftarrow> Elf32_e_shoff m base;
     sh_link \<leftarrow> Elf32_sh_link m dyn;
     Some (base + e_shoff + sh_link * sizeof_Elf32_Shdr) }"

section \<open>Relocations\<close>

text \<open>The inner loop; its bound is computed from \<open>sh_offset\<close>, as the code does.\<close>

definition lop_find_rel_in :: "mem32 \<Rightarrow> lop_info \<Rightarrow> u32 \<Rightarrow> u32 \<Rightarrow> u32 option option" where
  "lop_find_rel_in m ptr iter ind = do {
     sh_offset \<leftarrow> Elf32_sh_offset m iter;
     scan (unat (sh_offset div sizeof_Elf32_Rel)) sizeof_Elf32_Rel
       (\<lambda>current. do { r_info \<leftarrow> Elf32_r_info m current; Some (ELF32_R_SYM r_info = ind) })
       (lop_ehdr ptr + sh_offset) }"

definition lop_find_rel_section ::
  "mem32 \<Rightarrow> lop_info \<Rightarrow> u32 \<Rightarrow> u32 \<Rightarrow> u32 \<Rightarrow> u32 option option" where
  "lop_find_rel_section m ptr sind ind iter = do {
     t \<leftarrow> Elf32_sh_type m iter;
     matches \<leftarrow> (if t = SHT_REL then do { l \<leftarrow> Elf32_sh_link m iter; Some (sind = l) } else Some False);
     (if matches then lop_find_rel_in m ptr iter ind else Some None) }"

definition lop_find_rel_by_sym :: "mem32 \<Rightarrow> lop_info \<Rightarrow> u32 \<Rightarrow> u32 \<Rightarrow> u32 option option" where
  "lop_find_rel_by_sym m ptr sind ind = do {
     numsec \<leftarrow> Elf32_e_shnum m (lop_ehdr ptr);
     search (unat numsec) sizeof_Elf32_Shdr (lop_find_rel_section m ptr sind ind) (lop_shdr ptr) }"

section \<open>The table of dynamic symbols\<close>

primrec lop_plt_loop ::
  "nat \<Rightarrow> nat \<Rightarrow> mem32 \<Rightarrow> u32 \<Rightarrow> u32 \<Rightarrow> u32 \<Rightarrow> lop_info \<Rightarrow> lop_info option" where
  "lop_plt_loop 0 i m sind name symbol ptr = Some ptr"
| "lop_plt_loop (Suc n) i m sind name symbol ptr = do {
     st_name \<leftarrow> Elf32_st_name m symbol;
     rel \<leftarrow> lop_find_rel_by_sym m ptr sind (of_nat i);
     lop_plt_loop n (Suc i) m sind name (symbol + sizeof_Elf32_Sym)
       (ptr\<lparr> lop_plt := (lop_plt ptr)[i :=
          \<lparr> lop_sym = symbol, lop_rel = rel, lop_symname = name + st_name \<rparr>] \<rparr>) }"

text \<open>
  \<open>dyn - ptr->lop_shdr\<close> is a difference of pointers into one table, hence a division by the size
  of an entry. The loop runs while \<open>i < num_sym && i < LOP_MAX_DYNSYM\<close>.
\<close>

definition lop_build_plt_table :: "mem32 \<Rightarrow> lop_info \<Rightarrow> u32 \<Rightarrow> u32 \<Rightarrow> (int \<times> lop_info) option" where
  "lop_build_plt_table m ptr dyn str = (
     let sind = (dyn - lop_shdr ptr) div sizeof_Elf32_Shdr in do {
     sh_size \<leftarrow> Elf32_sh_size m dyn;
     sh_offset \<leftarrow> Elf32_sh_offset m dyn;
     str_offset \<leftarrow> Elf32_sh_offset m str;
     let num_sym = unat (sh_size div sizeof_Elf32_Sym);
     let i = min num_sym LOP_MAX_DYNSYM;
     ptr' \<leftarrow> lop_plt_loop i 0 m sind (lop_ehdr ptr + str_offset) (lop_ehdr ptr + sh_offset) ptr;
     Some (if i = 0 then 1 else 0, ptr'\<lparr> lop_dynsym_count := of_nat i \<rparr>) })"

definition lop_read_dynsym_section :: "mem32 \<Rightarrow> lop_info \<Rightarrow> (int + int \<times> lop_info) option" where
  "lop_read_dynsym_section m ptr = do {
     dyn \<leftarrow> lop_get_section_by_type m (lop_ehdr ptr) SHT_DYNSYM;
     (case dyn of
        None \<Rightarrow> Some (Inl 1)
      | Some dyn \<Rightarrow> do {
          str \<leftarrow> lop_get_section_dynstr_tab m (lop_ehdr ptr) dyn;
          if str = 0 then Some (Inl 1)
          else do { r \<leftarrow> lop_build_plt_table m ptr dyn str; Some (Inr r) } }) }"

definition lop_init_info :: "mem32 \<Rightarrow> u32 \<Rightarrow> (int + int \<times> lop_info) option" where
  "lop_init_info m base = do {
     let ptr = lop_info_zero\<lparr> lop_ehdr := base \<rparr>;
     e_phoff \<leftarrow> Elf32_e_phoff m (lop_ehdr ptr);
     let ptr = ptr\<lparr> lop_phdr := base + e_phoff \<rparr>;
     e_shoff \<leftarrow> Elf32_e_shoff m (lop_ehdr ptr);
     let ptr = ptr\<lparr> lop_shdr := base + e_shoff \<rparr>;
     r \<leftarrow> lop_read_segment_info m ptr;
     (if fst r \<noteq> 0 then Some (Inl 1)
      else do {
        d \<leftarrow> lop_read_dynsym_section m (snd r);
        (case d of
           Inl e \<Rightarrow> Some (Inl e)
         | Inr (ret, ptr) \<Rightarrow> if ret \<noteq> 0 then Some (Inl 1) else Some (Inr (0, ptr))) }) }"

text \<open>
  \<open>(Elf32_Sym*) base + dyn->sh_offset\<close>: the cast binds first, so the offset counts symbols, not
  bytes.
\<close>

definition lop_get_dynsym_by_name :: "mem32 \<Rightarrow> u32 \<Rightarrow> byte list \<Rightarrow> u32 option option" where
  "lop_get_dynsym_by_name m base name = do {
     dyn \<leftarrow> lop_get_section_by_type m base SHT_DYNSYM;
     (case dyn of
        None \<Rightarrow> Some None
      | Some dyn \<Rightarrow> do {
          str \<leftarrow> lop_get_section_dynstr_tab m base dyn;
          if str = 0 then Some None
          else do {
            sh_offset \<leftarrow> Elf32_sh_offset m dyn;
            sh_size \<leftarrow> Elf32_sh_size m dyn;
            scan (unat (sh_size div sizeof_Elf32_Sym)) sizeof_Elf32_Sym
              (\<lambda>currsym. do {
                 str_offset \<leftarrow> Elf32_sh_offset m str;
                 st_name \<leftarrow> Elf32_st_name m currsym;
                 str_at m (base + str_offset + st_name) name })
              (base + sizeof_Elf32_Sym * sh_offset) } }) }"

section \<open>Display\<close>

text \<open>One constructor per \<open>printf\<close> of \<open>lop_display\<close>, with the values it prints.\<close>

datatype lop_line =
    Headers_addr u32 u32 u32
  | Segment_addr u32 u32
  | Dynsym_count u8
  | Plt_info "byte list" u8 u32 u8 u32

partial_function (option) c_string_at :: "'a::len memory \<Rightarrow> 'a word \<Rightarrow> byte list option" where
  "c_string_at m a = do {
     b \<leftarrow> m a;
     if b = 0 then Some [] else do { bs \<leftarrow> c_string_at m (a + 1); Some (b # bs) } }"

definition lop_display_entry :: "mem32 \<Rightarrow> lop_dynsym \<Rightarrow> lop_line option" where
  "lop_display_entry m d = do {
     name \<leftarrow> (if lop_symname d \<noteq> 0 then c_string_at m (lop_symname d) else Some []);
     st_info \<leftarrow> Elf32_st_info m (lop_sym d);
     st_value \<leftarrow> Elf32_st_value m (lop_sym d);
     st_other \<leftarrow> Elf32_st_other m (lop_sym d);
     r_offset \<leftarrow> (case lop_rel d of Some r \<Rightarrow> Elf32_r_offset m r | None \<Rightarrow> Some 0);
     Some (Plt_info name st_info st_value st_other r_offset) }"

primrec lop_display_from :: "nat \<Rightarrow> nat \<Rightarrow> mem32 \<Rightarrow> lop_info \<Rightarrow> lop_line list option" where
  "lop_display_from 0 i m ptr = Some []"
| "lop_display_from (Suc n) i m ptr = do {
     l \<leftarrow> (if i < length (lop_plt ptr) then lop_display_entry m (lop_plt ptr ! i) else None);
     ls \<leftarrow> lop_display_from n (Suc i) m ptr;
     Some (l # ls) }"

definition lop_display :: "mem32 \<Rightarrow> lop_info \<Rightarrow> lop_line list option" where
  "lop_display m ptr = do {
     ls \<leftarrow> lop_display_from (unat (lop_dynsym_count ptr)) 0 m ptr;
     Some (Headers_addr (lop_ehdr ptr) (lop_shdr ptr) (lop_phdr ptr)
       # Segment_addr (lop_textvaddr ptr) (lop_datavaddr ptr)
       # Dynsym_count (lop_dynsym_count ptr) # ls) }"


section \<open>What the segment loop computes\<close>

text \<open>A program header seen as what it contributes: an executable or a writable segment.\<close>

datatype segment_kind = Text | Data

definition segment_of :: "mem32 \<Rightarrow> u32 \<Rightarrow> (segment_kind \<times> u32) option option" where
  "segment_of m p = do {
     t \<leftarrow> Elf32_p_type m p;
     if t \<noteq> PT_LOAD then Some None
     else do {
       f \<leftarrow> Elf32_p_flags m p;
       if f AND PF_X \<noteq> 0 then map_option (\<lambda>v. Some (Text, v)) (Elf32_p_vaddr m p)
       else if f AND PF_W \<noteq> 0 then map_option (\<lambda>v. Some (Data, v)) (Elf32_p_vaddr m p)
       else Some None } }"

fun set_segment :: "segment_kind \<times> u32 \<Rightarrow> lop_info \<Rightarrow> lop_info" where
  "set_segment (Text, v) ptr = ptr\<lparr> lop_textvaddr := v \<rparr>"
| "set_segment (Data, v) ptr = ptr\<lparr> lop_datavaddr := v \<rparr>"

lemma set_segment_frame [simp]:
  "lop_ehdr (set_segment s ptr) = lop_ehdr ptr" "lop_phdr (set_segment s ptr) = lop_phdr ptr"
  "lop_shdr (set_segment s ptr) = lop_shdr ptr" "lop_plt (set_segment s ptr) = lop_plt ptr"
  by (cases "(s, ptr)" rule: set_segment.cases; simp)+

lemma fold_set_segment_frame [simp]:
  "lop_ehdr (fold set_segment ss ptr) = lop_ehdr ptr"
  "lop_phdr (fold set_segment ss ptr) = lop_phdr ptr"
  "lop_shdr (fold set_segment ss ptr) = lop_shdr ptr"
  "lop_plt (fold set_segment ss ptr) = lop_plt ptr"
  by (induction ss arbitrary: ptr) simp_all

lemma lop_segment_of:
  "lop_segment m p nb ptr =
   map_option (\<lambda>s. case s of None \<Rightarrow> (nb, ptr) | Some s \<Rightarrow> (nb + 1, set_segment s ptr)) (segment_of m p)"
  by (auto simp: lop_segment_def segment_of_def split: Option.bind_split)

text \<open>With at most 255 headers the walk ends and takes the first two segments of the table.\<close>

lemma lop_segments_table:
  assumes n: "Elf32_e_phnum m ehdr = Some n" "unat n \<le> 255"
    and segs: "\<And>k. k < unat n \<Longrightarrow> segment_of m (entry p sizeof_Elf32_Phdr k) = Some (seg k)"
  shows "i \<le> unat n \<Longrightarrow> nb \<le> 2 \<Longrightarrow> lop_ehdr ptr = ehdr \<Longrightarrow>
    lop_segments m (of_nat i) (entry p sizeof_Elf32_Phdr i) nb ptr =
    (let hs = take (2 - nb) (List.map_filter seg [i..<unat n])
     in Some (nb + length hs, fold set_segment hs ptr))"
proof (induction "unat n - i" arbitrary: i nb ptr)
  case 0
  then have i: "i = unat n" by simp
  have "unat (of_nat i :: u8) = i" using n(2) i by (intro unat_of_nat_less) simp
  then show ?case
    using 0 n i by (subst lop_segments.simps) (simp add: map_filter_def del: of_nat_unat)
next
  case (Suc d)
  then have i: "i < unat n" by simp
  then have ui: "unat (of_nat i :: u8) = i" using n(2) by (intro unat_of_nat_less) simp
  have next_i: "(of_nat i :: u8) + 1 = of_nat (Suc i)"
    "entry p sizeof_Elf32_Phdr i + sizeof_Elf32_Phdr = entry p sizeof_Elf32_Phdr (Suc i)"
    by (simp_all add: entry_def algebra_simps)
  have upt: "[i..<unat n] = i # [Suc i..<unat n]" using i by (simp add: upt_conv_Cons)
  show ?case
  proof (cases "nb = 2")
    case True
    then show ?thesis using Suc.prems n by (subst lop_segments.simps) simp
  next
    case False
    then have nb: "nb < 2" using Suc.prems by simp
    have IH: "lop_segments m (of_nat (Suc i)) (entry p sizeof_Elf32_Phdr (Suc i)) nb' ptr' =
       (let hs = take (2 - nb') (List.map_filter seg [Suc i..<unat n])
        in Some (nb' + length hs, fold set_segment hs ptr'))"
      if "nb' \<le> 2" "lop_ehdr ptr' = ehdr" for nb' ptr'
      using Suc.hyps i that by (intro Suc.hyps(1)) auto
    show ?thesis
    proof (cases "seg i")
      case None
      then show ?thesis
        using Suc.prems n nb i ui segs [OF i] IH [of nb ptr]
        by (subst lop_segments.simps) (simp add: lop_segment_of next_i upt map_filter_simps)
    next
      case (Some s)
      then show ?thesis
        using Suc.prems n nb i ui segs [OF i] IH [of "nb + 1" "set_segment s ptr"]
        by (subst lop_segments.simps)
          (simp add: lop_segment_of next_i upt map_filter_simps Let_def take_Cons' numeral_2_eq_2)
    qed
  qed
qed

text \<open>With more headers the index wraps, and the walk ends only once it has counted two segments.\<close>

lemma lop_segment_inv:
  "lop_segment m p nb ptr = Some r \<Longrightarrow> lop_ehdr (snd r) = lop_ehdr ptr \<and> fst r \<le> nb + 1"
  by (auto simp: lop_segment_of split: option.splits)

lemma lop_segments_many:
  "lop_segments m i p nb ptr = Some r \<Longrightarrow> Elf32_e_phnum m (lop_ehdr ptr) = Some n \<Longrightarrow>
   255 < unat n \<Longrightarrow> nb \<le> 2 \<Longrightarrow> fst r = 2"
proof (induction rule: lop_segments.raw_induct [rotated, consumes 1, case_names 1])
  case (1 rec m i p nb ptr r)
  have "unat i < unat n" using unsigned_less [of i, where 'a = nat] "1.prems" by simp
  show ?case
  proof (cases "nb < 2")
    case False
    then show ?thesis using 1 by auto
  next
    case True
    with 1 \<open>unat i < unat n\<close> obtain s where s: "lop_segment m p nb ptr = Some s"
      "rec m (i + 1) (p + sizeof_Elf32_Phdr) (fst s) (snd s) = Some r"
      by (auto simp: bind_eq_Some_conv)
    show ?thesis
      using lop_segment_inv [OF s(1)] "1.prems" True by (intro "1.IH" [OF s(2)]) auto
  qed
qed

lemma lop_read_segment_info_range:
  "lop_read_segment_info m ptr = Some (r, ptr') \<Longrightarrow> r = 0 \<or> r = 1"
  by (auto simp: lop_read_segment_info_def bind_simps split: if_splits)

text \<open>When no header it meets is such a segment, it goes round for ever.\<close>

lemma lop_segments_endless:
  "lop_segments m i p nb ptr = Some r \<Longrightarrow> Elf32_e_phnum m (lop_ehdr ptr) = Some n \<Longrightarrow>
   255 < unat n \<Longrightarrow> nb < 2 \<Longrightarrow> \<exists>k. segment_of m (entry p sizeof_Elf32_Phdr k) \<noteq> Some None"
proof (induction rule: lop_segments.raw_induct [rotated, consumes 1, case_names 1])
  case (1 rec m i p nb ptr r)
  have i: "unat i < unat n" using unsigned_less [of i, where 'a = nat] "1.prems" by simp
  show ?case
  proof (cases "segment_of m p = Some None")
    case False
    then show ?thesis by (intro exI [of _ 0]) simp
  next
    case True
    then have "lop_segment m p nb ptr = Some (nb, ptr)" by (simp add: lop_segment_of)
    then have "rec m (i + 1) (p + sizeof_Elf32_Phdr) nb ptr = Some r"
      using 1 i by simp
    then obtain k where "segment_of m (entry (p + sizeof_Elf32_Phdr) sizeof_Elf32_Phdr k) \<noteq> Some None"
      using "1.IH" "1.prems" by blast
    then show ?thesis by (auto simp: entry_shift)
  qed
qed

section \<open>What the other loops compute\<close>

lemma lop_info_same: "\<exists>t d. ptr = ptr\<lparr> lop_textvaddr := t, lop_datavaddr := d \<rparr>"
  by (intro exI [of _ "lop_textvaddr ptr"] exI [of _ "lop_datavaddr ptr"]) simp

lemma set_segment_fields: "\<exists>t d. set_segment s ptr = ptr\<lparr> lop_textvaddr := t, lop_datavaddr := d \<rparr>"
proof (cases s)
  case (Pair kind v)
  show ?thesis
  proof (cases kind)
    case Text
    then show ?thesis
      by (intro exI [of _ v] exI [of _ "lop_datavaddr ptr"]) (cases ptr, simp add: Pair)
  next
    case Data
    then show ?thesis
      by (intro exI [of _ "lop_textvaddr ptr"] exI [of _ v]) (cases ptr, simp add: Pair)
  qed
qed

lemma lop_segments_frame:
  "lop_segments m i p nb ptr = Some r \<Longrightarrow>
   \<exists>t d. snd r = ptr\<lparr> lop_textvaddr := t, lop_datavaddr := d \<rparr>"
proof (induction rule: lop_segments.raw_induct [rotated, consumes 1, case_names 1])
  case (1 rec m i p nb ptr r)
  from 1(2) consider (stop) "r = (nb, ptr)"
    | (step) s where "lop_segment m p nb ptr = Some s"
        "rec m (i + 1) (p + sizeof_Elf32_Phdr) (fst s) (snd s) = Some r"
    by (auto simp: bind_eq_Some_conv split: if_splits)
  then show ?case
  proof cases
    case stop
    then show ?thesis
      by (intro exI [of _ "lop_textvaddr ptr"] exI [of _ "lop_datavaddr ptr"]) simp
  next
    case step
    have "\<exists>t d. snd s = ptr\<lparr> lop_textvaddr := t, lop_datavaddr := d \<rparr>"
      using step(1) by (auto simp: lop_segment_of set_segment_fields lop_info_same split: option.splits)
    moreover obtain t' d' where "snd r = snd s\<lparr> lop_textvaddr := t', lop_datavaddr := d' \<rparr>"
      using "1.IH" [OF step(2)] by blast
    ultimately show ?thesis by (intro exI [of _ t'] exI [of _ d']) auto
  qed
qed

text \<open>The relocation search does not look at the table it fills.\<close>

lemma lop_find_rel_by_sym_cong:
  assumes "lop_ehdr ptr = lop_ehdr ptr'" "lop_shdr ptr = lop_shdr ptr'"
  shows "lop_find_rel_by_sym m ptr = lop_find_rel_by_sym m ptr'"
proof -
  have "lop_find_rel_in m ptr = lop_find_rel_in m ptr'"
    by (intro ext) (simp add: lop_find_rel_in_def assms)
  then have "lop_find_rel_section m ptr = lop_find_rel_section m ptr'"
    by (intro ext) (simp only: lop_find_rel_section_def)
  then show ?thesis by (intro ext) (simp only: lop_find_rel_by_sym_def assms)
qed

text \<open>The entry the table gets for dynamic symbol \<open>i\<close>.\<close>

definition plt_entry :: "mem32 \<Rightarrow> lop_info \<Rightarrow> u32 \<Rightarrow> u32 \<Rightarrow> u32 \<Rightarrow> nat \<Rightarrow> lop_dynsym option" where
  "plt_entry m ptr sind name symbols i = (
     let symbol = entry symbols sizeof_Elf32_Sym i in do {
     st_name \<leftarrow> Elf32_st_name m symbol;
     rel \<leftarrow> lop_find_rel_by_sym m ptr sind (of_nat i);
     Some \<lparr> lop_sym = symbol, lop_rel = rel, lop_symname = name + st_name \<rparr> })"

lemma plt_entry_cong:
  "lop_ehdr ptr = lop_ehdr ptr' \<Longrightarrow> lop_shdr ptr = lop_shdr ptr' \<Longrightarrow> plt_entry m ptr = plt_entry m ptr'"
  by (intro ext) (simp add: plt_entry_def lop_find_rel_by_sym_cong [of ptr ptr'])

lemma lop_plt_loop_entries:
  "lop_plt_loop n i m sind name (entry symbols sizeof_Elf32_Sym i) ptr = Some ptr' \<Longrightarrow>
   i + n \<le> length (lop_plt ptr) \<Longrightarrow>
   \<exists>es. length es = n \<and> (\<forall>k<n. plt_entry m ptr sind name symbols (i + k) = Some (es ! k)) \<and>
     ptr' = ptr\<lparr> lop_plt := take i (lop_plt ptr) @ es @ drop (i + n) (lop_plt ptr) \<rparr>"
proof (induction n arbitrary: i ptr)
  case 0
  then show ?case by simp
next
  case (Suc n)
  from Suc.prems(1) obtain st_name rel where e: "Elf32_st_name m (entry symbols sizeof_Elf32_Sym i) = Some st_name"
    "lop_find_rel_by_sym m ptr sind (of_nat i) = Some rel"
    and rest: "lop_plt_loop n (Suc i) m sind name (entry symbols sizeof_Elf32_Sym (Suc i))
       (ptr\<lparr> lop_plt := (lop_plt ptr)[i := \<lparr> lop_sym = entry symbols sizeof_Elf32_Sym i, lop_rel = rel,
          lop_symname = name + st_name \<rparr>] \<rparr>) = Some ptr'"
    by (auto simp: bind_simps entry_def algebra_simps)
  define d where "d = \<lparr> lop_sym = entry symbols sizeof_Elf32_Sym i, lop_rel = rel,
    lop_symname = name + st_name \<rparr>"
  have d: "plt_entry m ptr sind name symbols i = Some d"
    using e by (simp add: plt_entry_def d_def)
  have plt: "plt_entry m (ptr\<lparr> lop_plt := x \<rparr>) = plt_entry m ptr" for x
    by (rule plt_entry_cong) simp_all
  obtain es where es: "length es = n"
    "\<forall>k<n. plt_entry m ptr sind name symbols (Suc i + k) = Some (es ! k)"
    "ptr' = ptr\<lparr> lop_plt := take (Suc i) ((lop_plt ptr)[i := d]) @ es @
       drop (Suc i + n) ((lop_plt ptr)[i := d]) \<rparr>"
    using Suc.IH [OF rest] Suc.prems(2) by (auto simp: plt d_def)
  have "take (Suc i) ((lop_plt ptr)[i := d]) = take i (lop_plt ptr) @ [d]"
    using Suc.prems(2) by (simp add: take_Suc_conv_app_nth)
  moreover have "plt_entry m ptr sind name symbols (i + k) = Some ((d # es) ! k)" if "k < Suc n" for k
    using that es(2) d by (cases k) auto
  ultimately show ?case
    using es(1,3) by (intro exI [of _ "d # es"]) simp
qed

lemma lop_build_plt_table_entries:
  assumes "lop_build_plt_table m ptr dyn str = Some (r, ptr')" "length (lop_plt ptr) = LOP_MAX_DYNSYM"
    and "Elf32_sh_size m dyn = Some len" "Elf32_sh_offset m dyn = Some off"
    and "Elf32_sh_offset m str = Some stroff"
    and count: "count = min (unat (len div sizeof_Elf32_Sym)) LOP_MAX_DYNSYM"
  shows "(r = 0 \<longleftrightarrow> count > 0) \<and> (\<exists>es. length es = count \<and>
    (\<forall>k<count. plt_entry m ptr ((dyn - lop_shdr ptr) div sizeof_Elf32_Shdr) (lop_ehdr ptr + stroff)
       (lop_ehdr ptr + off) k = Some (es ! k)) \<and>
    ptr' = ptr\<lparr> lop_plt := es @ drop count (lop_plt ptr), lop_dynsym_count := of_nat count \<rparr>)"
proof -
  obtain ptr1 where loop: "lop_plt_loop count 0 m ((dyn - lop_shdr ptr) div sizeof_Elf32_Shdr)
      (lop_ehdr ptr + stroff) (lop_ehdr ptr + off) ptr = Some ptr1"
    and r: "r = (if count = 0 then 1 else 0)" "ptr' = ptr1\<lparr> lop_dynsym_count := of_nat count \<rparr>"
    using assms by (auto simp: lop_build_plt_table_def Let_def bind_simps)
  have "count \<le> length (lop_plt ptr)" using assms(2) count by simp
  with loop lop_plt_loop_entries [of count 0 m _ _ "lop_ehdr ptr + off" ptr ptr1]
  show ?thesis using r by auto
qed
end
