(* ===== verification/Sym_Resolver.thy ===== *)
theory Sym_Resolver
  imports Elf_Format Posix_Files
begin

text \<open>
  \<open>sym_resolv/sym_resolver.c\<close>: names for code addresses and addresses for names, from the symbol
  table of the 32-bit executable of the process. Opening maps the file; the memory \<open>m\<close> the other
  functions read is the one with that mapping in it. The pointers of the descriptor that the code
  compares with \<open>NULL\<close> are options.
\<close>

section \<open>Data\<close>

record sym_resolv_desc =
  sr_fd :: int
  sr_mem :: u32
  sr_memlen :: nat
  sr_pid :: int
  sr_ehdr :: "u32 option"
  sr_shdr :: u32
  sr_shdrstrsectab :: u32
  sr_shdrsymtab :: "u32 option"
  sr_shdrstrsymtab :: "u32 option"
  sr_sectionstr :: u32

definition SR_SYMNAME :: nat where "SR_SYMNAME = 512"

record sym_resolv =
  sr_symaddr :: u32
  sr_symname :: "byte list"

section \<open>Sections\<close>

definition sym_resolv_sectionhdr_to_section ::
  "mem32 \<Rightarrow> sym_resolv_desc option \<Rightarrow> u32 option \<Rightarrow> u32 option option" where
  "sym_resolv_sectionhdr_to_section m desc shdr = (case (desc, shdr) of
     (Some desc, Some shdr) \<Rightarrow> do {
       off \<leftarrow> Elf32_sh_offset m shdr;
       Some (Some (sr_mem desc + off)) }
   | _ \<Rightarrow> Some None)"

definition sym_resolv_get_sectionhdr_by_name ::
  "mem32 \<Rightarrow> sym_resolv_desc option \<Rightarrow> byte list \<Rightarrow> u32 option option" where
  "sym_resolv_get_sectionhdr_by_name m desc secname = (case desc of
     None \<Rightarrow> Some None
   | Some desc \<Rightarrow> (case sr_ehdr desc of
       None \<Rightarrow> Some None
     | Some ehdr \<Rightarrow> do {
         nbsec \<leftarrow> Elf32_e_shnum m ehdr;
         scan (unat nbsec) sizeof_Elf32_Shdr
           (\<lambda>ptr. do {
              sh_name \<leftarrow> Elf32_sh_name m ptr;
              str_at m (sr_sectionstr desc + sh_name) secname })
           (sr_shdr desc) }))"

section \<open>Opening and closing\<close>

text \<open>
  What \<open>mmap\<close> leaves to do: the header, the section names, the two tables. The result is the value
  \<open>0\<close> with the descriptor, or the jump to the label that unmaps.
\<close>

definition sym_resolv_read_tables :: "mem32 \<Rightarrow> sym_resolv_desc \<Rightarrow> (bool \<times> sym_resolv_desc) option" where
  "sym_resolv_read_tables m desc = do {
     let desc = desc\<lparr> sr_ehdr := Some (sr_mem desc) \<rparr>;
     e_shoff \<leftarrow> Elf32_e_shoff m (sr_mem desc);
     let desc = desc\<lparr> sr_shdr := sr_mem desc + e_shoff \<rparr>;
     ndx \<leftarrow> Elf32_e_shstrndx m (sr_mem desc);
     if ndx = SHN_UNDEF then Some (False, desc)
     else do {
       let shstr = sr_shdr desc + ucast ndx * sizeof_Elf32_Shdr;
       let desc = desc\<lparr> sr_shdrstrsectab := shstr \<rparr>;
       str \<leftarrow> sym_resolv_sectionhdr_to_section m (Some desc) (Some shstr);
       let desc = desc\<lparr> sr_sectionstr := (case str of Some s \<Rightarrow> s | None \<Rightarrow> 0) \<rparr>;
       symtab \<leftarrow> sym_resolv_get_sectionhdr_by_name m (Some desc) (bytes_of ''.symtab'');
       let desc = desc\<lparr> sr_shdrsymtab := symtab \<rparr>;
       if symtab = None then Some (False, desc)
       else do {
         strtab \<leftarrow> sym_resolv_get_sectionhdr_by_name m (Some desc) (bytes_of ''.strtab'');
         let desc = desc\<lparr> sr_shdrstrsymtab := strtab \<rparr>;
         Some (strtab \<noteq> None, desc) } } }"

text \<open>
  \<open>__sym_resolv_open\<close>; the first component is what the function returns, the memory is the one
  after the call. The test on the descriptor is \<open><= 0\<close>, as in the code.
\<close>

definition sym_resolv_open_pid ::
  "u32 kernel \<Rightarrow> mem32 \<Rightarrow> int \<Rightarrow> sym_resolv_desc \<Rightarrow> u32 held \<Rightarrow>
   (int \<times> sym_resolv_desc \<times> mem32 \<times> u32 held) option" where
  "sym_resolv_open_pid K m pid desc held = (
     let buff = proc_file (decimal_int pid) ''exe'';
         (r, held) = sys_open K buff held;
         desc = desc\<lparr> sr_fd := c_int r \<rparr>
     in if sr_fd desc \<le> 0 then Some (- 1, desc, m, held)
     else (case k_fstat K (sr_fd desc) of
       Inl e \<Rightarrow> Some (- 1, desc, m, sys_close (sr_fd desc) held)
     | Inr len \<Rightarrow> (case sys_mmap K (sr_fd desc) len held of
         (Inl e, held) \<Rightarrow> Some (- 1, desc\<lparr> sr_mem := - 1 \<rparr>, m, sys_close (sr_fd desc) held)
       | (Inr (addr, m), held) \<Rightarrow> do {
           let desc = desc\<lparr> sr_mem := addr, sr_memlen := len, sr_pid := pid \<rparr>;
           r \<leftarrow> sym_resolv_read_tables m desc;
           let desc = snd r;
           if fst r then Some (0, desc, m, held)
           else Some (- 1, desc, m,
             sys_close (sr_fd desc) (sys_munmap (sr_mem desc) (sr_memlen desc) held)) })))"

definition sym_resolv_close :: "sym_resolv_desc \<Rightarrow> u32 held \<Rightarrow> u32 held" where
  "sym_resolv_close desc held =
    sys_close (sr_fd desc) (sys_munmap (sr_mem desc) (sr_memlen desc) held)"

text \<open>\<open>sym_resolv_open(desc)\<close> opens the process itself; \<open>pid\<close> is what \<open>getpid\<close> answers.\<close>

definition sym_resolv_open ::
  "u32 kernel \<Rightarrow> mem32 \<Rightarrow> int \<Rightarrow> sym_resolv_desc \<Rightarrow> u32 held \<Rightarrow>
   (int \<times> sym_resolv_desc \<times> mem32 \<times> u32 held) option" where
  "sym_resolv_open K m getpid desc held = sym_resolv_open_pid K m getpid desc held"

section \<open>Looking up\<close>

text \<open>\<open>strncpy(dst, src, n)\<close>: at most \<open>n\<close> bytes, padded with zeros, not terminated when the source
  is that long.\<close>

primrec strncpy_bytes :: "mem32 \<Rightarrow> u32 \<Rightarrow> nat \<Rightarrow> byte list option" where
  "strncpy_bytes m src 0 = Some []"
| "strncpy_bytes m src (Suc n) = do {
     b \<leftarrow> m src;
     if b = 0 then Some (replicate (Suc n) 0)
     else do { bs \<leftarrow> strncpy_bytes m (src + 1) n; Some (b # bs) } }"

definition covers :: "mem32 \<Rightarrow> u32 \<Rightarrow> u32 \<Rightarrow> bool option" where
  "covers m addr walker = do {
     st_value \<leftarrow> Elf32_st_value m walker;
     st_size \<leftarrow> Elf32_st_size m walker;
     Some (st_value \<le> addr \<and> addr < st_value + st_size) }"

definition sym_resolv_get_funcname_by_addr ::
  "mem32 \<Rightarrow> sym_resolv_desc option \<Rightarrow> u32 \<Rightarrow> sym_resolv \<Rightarrow> (bool \<times> sym_resolv) option" where
  "sym_resolv_get_funcname_by_addr m desc addr res = (case desc of
     None \<Rightarrow> Some (False, res)
   | Some d \<Rightarrow> (case (sr_shdrsymtab d, sr_shdrstrsymtab d) of
       (Some symtab, Some strtab) \<Rightarrow> do {
         walker \<leftarrow> sym_resolv_sectionhdr_to_section m desc (Some symtab);
         symnamelist \<leftarrow> sym_resolv_sectionhdr_to_section m desc (Some strtab);
         (case (walker, symnamelist) of
            (Some walker, Some symnamelist) \<Rightarrow> do {
              sh_size \<leftarrow> Elf32_sh_size m symtab;
              found \<leftarrow> scan (unat (sh_size div sizeof_Elf32_Sym)) sizeof_Elf32_Sym (covers m addr) walker;
              (case found of
                 None \<Rightarrow> Some (False, res)
               | Some symb \<Rightarrow> do {
                   st_name \<leftarrow> Elf32_st_name m symb;
                   name \<leftarrow> strncpy_bytes m (symnamelist + st_name) SR_SYMNAME;
                   st_value \<leftarrow> Elf32_st_value m symb;
                   Some (True, res\<lparr> sr_symname := name, sr_symaddr := st_value \<rparr>) }) }
          | _ \<Rightarrow> Some (False, res)) }
     | _ \<Rightarrow> Some (False, res)))"

definition sym_resolv_symbol :: "mem32 \<Rightarrow> sym_resolv_desc \<Rightarrow> byte list \<Rightarrow> u32 option option" where
  "sym_resolv_symbol m desc name = do {
     walker \<leftarrow> sym_resolv_sectionhdr_to_section m (Some desc) (sr_shdrsymtab desc);
     symnamelist \<leftarrow> sym_resolv_sectionhdr_to_section m (Some desc) (sr_shdrstrsymtab desc);
     (case (walker, symnamelist, sr_shdrsymtab desc) of
        (Some walker, Some symnamelist, Some symtab) \<Rightarrow> do {
          sh_size \<leftarrow> Elf32_sh_size m symtab;
          scan (unat (sh_size div sizeof_Elf32_Sym)) sizeof_Elf32_Sym
            (\<lambda>walker. do { st_name \<leftarrow> Elf32_st_name m walker; str_at m (symnamelist + st_name) name })
            walker }
      | _ \<Rightarrow> Some None) }"

text \<open>
  \<open>dladdr\<close> answers for the addresses the symbol table does not cover: \<open>None\<close> where it returns 0,
  otherwise \<open>dli_saddr\<close> and \<open>dli_sname\<close>, of which the name may be null. A name is the bytes before
  its terminator.
\<close>

type_synonym dladdr_t = "u32 \<Rightarrow> (u32 \<times> byte list option) option"

definition strncpy_name :: "byte list \<Rightarrow> nat \<Rightarrow> byte list" where
  "strncpy_name name n = take n (name @ replicate n 0)"

definition sym_resolv_addr_1 ::
  "dladdr_t \<Rightarrow> mem32 \<Rightarrow> sym_resolv_desc \<Rightarrow> u32 \<Rightarrow> sym_resolv \<Rightarrow> sym_resolv option" where
  "sym_resolv_addr_1 dladdr m desc addr res = do {
     r \<leftarrow> sym_resolv_get_funcname_by_addr m (Some desc) addr res;
     if fst r then Some (snd r)
     else (case dladdr addr of
       Some (saddr, Some sname) \<Rightarrow>
         Some (res\<lparr> sr_symname := strncpy_name sname SR_SYMNAME, sr_symaddr := saddr \<rparr>)
     | _ \<Rightarrow> Some (res\<lparr> sr_symname := (sr_symname res)[0 := 0] \<rparr>)) }"

primrec sym_resolv_addr_from ::
  "nat \<Rightarrow> nat \<Rightarrow> dladdr_t \<Rightarrow> mem32 \<Rightarrow> sym_resolv_desc \<Rightarrow> u32 list \<Rightarrow>
   sym_resolv list \<Rightarrow> sym_resolv list option" where
  "sym_resolv_addr_from 0 i dladdr m desc addrs res = Some res"
| "sym_resolv_addr_from (Suc n) i dladdr m desc addrs res = do {
     r \<leftarrow> (if i < length addrs \<and> i < length res
       then sym_resolv_addr_1 dladdr m desc (addrs ! i) (res ! i) else None);
     sym_resolv_addr_from n (Suc i) dladdr m desc addrs (res[i := r]) }"

definition sym_resolv_addr ::
  "dladdr_t \<Rightarrow> mem32 \<Rightarrow> sym_resolv_desc \<Rightarrow> u32 list \<Rightarrow> sym_resolv list \<Rightarrow>
   nat \<Rightarrow> (int \<times> sym_resolv list) option" where
  "sym_resolv_addr dladdr m desc addrs res tablen = do {
     res \<leftarrow> sym_resolv_addr_from tablen 0 dladdr m desc addrs res;
     Some (0, res) }"

section \<open>What a lookup finds\<close>

text \<open>
  The table of a descriptor: its \<open>n\<close> symbols start at \<open>syms\<close>, their names are relative to \<open>names\<close>.
  An address has the name and the value of the first symbol that covers it.
\<close>

definition sym_table :: "mem32 \<Rightarrow> sym_resolv_desc \<Rightarrow> u32 \<Rightarrow> u32 \<Rightarrow> nat \<Rightarrow> bool" where
  "sym_table m d syms names n \<longleftrightarrow> (\<exists>symtab strtab off stroff len.
     sr_shdrsymtab d = Some symtab \<and> sr_shdrstrsymtab d = Some strtab \<and>
     Elf32_sh_offset m symtab = Some off \<and> Elf32_sh_offset m strtab = Some stroff \<and>
     Elf32_sh_size m symtab = Some len \<and>
     syms = sr_mem d + off \<and> names = sr_mem d + stroff \<and> n = unat (len div sizeof_Elf32_Sym))"

definition names_address :: "mem32 \<Rightarrow> u32 \<Rightarrow> u32 \<Rightarrow> nat \<Rightarrow> u32 \<Rightarrow> byte list \<Rightarrow> u32 \<Rightarrow> bool" where
  "names_address m syms names n addr name v \<longleftrightarrow> (\<exists>i<n. \<exists>nm.
     covers m addr (entry syms sizeof_Elf32_Sym i) = Some True \<and>
     (\<forall>j<i. covers m addr (entry syms sizeof_Elf32_Sym j) = Some False) \<and>
     Elf32_st_name m (entry syms sizeof_Elf32_Sym i) = Some nm \<and>
     strncpy_bytes m (names + nm) SR_SYMNAME = Some name \<and>
     Elf32_st_value m (entry syms sizeof_Elf32_Sym i) = Some v)"

lemma sym_resolv_get_funcname_table:
  assumes "sym_table m d syms names n"
  shows "sym_resolv_get_funcname_by_addr m (Some d) addr res = do {
    found \<leftarrow> scan n sizeof_Elf32_Sym (covers m addr) syms;
    (case found of
       None \<Rightarrow> Some (False, res)
     | Some symb \<Rightarrow> do {
         st_name \<leftarrow> Elf32_st_name m symb;
         name \<leftarrow> strncpy_bytes m (names + st_name) SR_SYMNAME;
         st_value \<leftarrow> Elf32_st_value m symb;
         Some (True, res\<lparr> sr_symname := name, sr_symaddr := st_value \<rparr>) }) }"
  using assms
  by (auto simp: sym_table_def sym_resolv_get_funcname_by_addr_def sym_resolv_sectionhdr_to_section_def)

lemma sym_resolv_get_funcname_found:
  assumes "sym_table m d syms names n" "names_address m syms names n addr name v"
  shows "sym_resolv_get_funcname_by_addr m (Some d) addr res =
    Some (True, res\<lparr> sr_symname := name, sr_symaddr := v \<rparr>)"
proof -
  obtain i nm where i: "i < n" "covers m addr (entry syms sizeof_Elf32_Sym i) = Some True"
    "\<forall>j<i. covers m addr (entry syms sizeof_Elf32_Sym j) = Some False"
    "Elf32_st_name m (entry syms sizeof_Elf32_Sym i) = Some nm"
    "strncpy_bytes m (names + nm) SR_SYMNAME = Some name"
    "Elf32_st_value m (entry syms sizeof_Elf32_Sym i) = Some v"
    using assms(2) by (auto simp: names_address_def)
  then show ?thesis
    using scan_first [of i n "covers m addr" syms sizeof_Elf32_Sym]
    by (simp add: sym_resolv_get_funcname_table [OF assms(1)])
qed

lemma sym_resolv_get_funcname_cases:
  assumes "sym_table m d syms names n" "sym_resolv_get_funcname_by_addr m (Some d) addr res = Some (b, res')"
  obtains name v where "b" "names_address m syms names n addr name v"
    "res' = res\<lparr> sr_symname := name, sr_symaddr := v \<rparr>"
  | "\<not> b" "res' = res" "\<forall>i<n. covers m addr (entry syms sizeof_Elf32_Sym i) = Some False"
proof -
  obtain found where f: "scan n sizeof_Elf32_Sym (covers m addr) syms = Some found"
    using assms(2) unfolding sym_resolv_get_funcname_table [OF assms(1)] by (auto simp: bind_eq_Some_conv)
  note run = assms(2) [unfolded sym_resolv_get_funcname_table [OF assms(1)], unfolded f]
  show thesis
  proof (cases found)
    case None
    then show thesis using run f scan_NoneD [of n _ "covers m addr" syms] that(2) by auto
  next
    case (Some symb)
    then obtain nm name v where v: "Elf32_st_name m symb = Some nm"
      "strncpy_bytes m (names + nm) SR_SYMNAME = Some name" "Elf32_st_value m symb = Some v"
      "b" "res' = res\<lparr> sr_symname := name, sr_symaddr := v \<rparr>"
      using run by (auto simp: bind_eq_Some_conv)
    obtain i where "i < n" "symb = entry syms sizeof_Elf32_Sym i" "covers m addr symb = Some True"
      "\<forall>j<i. covers m addr (entry syms sizeof_Elf32_Sym j) = Some False"
      using scan_SomeD [of n _ "covers m addr" syms symb] f Some by auto
    then have "names_address m syms names n addr name v" using v by (auto simp: names_address_def)
    then show thesis using v that(1) by blast
  qed
qed

section \<open>Resources\<close>

lemma sym_resolv_read_tables_frame:
  "sym_resolv_read_tables m desc = Some r \<Longrightarrow>
   sr_fd (snd r) = sr_fd desc \<and> sr_mem (snd r) = sr_mem desc \<and> sr_memlen (snd r) = sr_memlen desc"
proof -
  have "pred_option (\<lambda>r. sr_fd (snd r) = sr_fd desc \<and> sr_mem (snd r) = sr_mem desc \<and>
      sr_memlen (snd r) = sr_memlen desc) (sym_resolv_read_tables m desc)"
    unfolding sym_resolv_read_tables_def Let_def
    by (intro pred_option_bind pred_option_if; simp)
  then show "sym_resolv_read_tables m desc = Some r \<Longrightarrow> ?thesis" by simp
qed

lemma sym_resolv_open_resources:
  assumes "sym_resolv_open K m pid desc held = Some (r, d, m', held')"
  shows "r = 0 \<and> sym_resolv_close d held' = held \<or>
    r = - 1 \<and> held' = (case k_open K (proc_file (decimal_int pid) ''exe'') of
      Inr fd \<Rightarrow> if fd \<le> 0 then Fd fd # held else held
    | Inl e \<Rightarrow> held)"
proof (cases "k_open K (proc_file (decimal_int pid) ''exe'')")
  case (Inl e)
  then show ?thesis
    using assms by (simp add: sym_resolv_open_def sym_resolv_open_pid_def sys_open_def c_int_def)
next
  case fd: (Inr fd)
  note o = assms [unfolded sym_resolv_open_def sym_resolv_open_pid_def sys_open_def fd Let_def]
  show ?thesis
  proof (cases "fd \<le> 0")
    case True
    then show ?thesis using o fd by (simp add: c_int_def acquire_def)
  next
    case False
    show ?thesis
    proof (cases "k_fstat K fd")
      case (Inl e)
      then show ?thesis using o False by (simp add: c_int_def sys_close_def fd)
    next
      case len: (Inr len)
      show ?thesis
      proof (cases "k_mmap K fd len")
        case (Inl e)
        then show ?thesis
          using o False len by (simp add: c_int_def sys_close_def sys_mmap_def fd)
      next
        case map: (Inr am)
        obtain addr mem where am: "am = (addr, mem)" by (cases am)
        from o False len map obtain t where
          t: "sym_resolv_read_tables mem (desc\<lparr> sr_fd := fd, sr_mem := addr, sr_memlen := len, sr_pid := pid \<rparr>) = Some t"
          and res: "(if fst t then (0, snd t, mem, acquire (Mapping addr len) (acquire (Fd fd) held))
            else (- 1, snd t, mem, sys_close (sr_fd (snd t)) (sys_munmap (sr_mem (snd t)) (sr_memlen (snd t))
              (acquire (Mapping addr len) (acquire (Fd fd) held))))) = (r, d, m', held')"
          by (auto simp: c_int_def sys_mmap_def am bind_simps split: if_split_asm)
        have f: "sr_fd (snd t) = fd" "sr_mem (snd t) = addr" "sr_memlen (snd t) = len"
          using sym_resolv_read_tables_frame [OF t] by simp_all
        show ?thesis
          using res f False fd
          by (auto simp: sym_resolv_close_def sys_close_def sys_munmap_def split: if_split_asm)
      qed
    qed
  qed
qed

text \<open>
  A session of the symbol resolver, for the interface of openers: a kernel with the state \<open>open\<close>
  runs in. Kernels that hand out descriptor \<open>0\<close>, which the code takes for a failure, are left out.
\<close>

type_synonym sr_env = "u32 kernel \<times> mem32 \<times> int \<times> sym_resolv_desc"

definition sr_ok :: "sr_env \<Rightarrow> bool" where
  "sr_ok env = (case env of (K, m, pid, desc) \<Rightarrow>
     (\<forall>fd. k_open K (proc_file (decimal_int pid) ''exe'') = Inr fd \<longrightarrow> 0 < fd))"

definition sr_session_open :: "sr_env \<Rightarrow> u32 held \<Rightarrow> (sym_resolv_desc option \<times> u32 held) option" where
  "sr_session_open env held = (case env of (K, m, pid, desc) \<Rightarrow> do {
     r \<leftarrow> sym_resolv_open K m pid desc held;
     (case r of (ret, d, m', held') \<Rightarrow> Some (if ret = 0 then Some d else None, held')) })"

interpretation sr: open_close sr_ok sr_session_open sym_resolv_close
proof (unfold_locales, goal_cases)
  case (1 k held held')
  obtain K m pid desc where k: "k = (K, m, pid, desc)" by (cases k)
  with 1(2) obtain r d m' where "sym_resolv_open K m pid desc held = Some (r, d, m', held')" "r \<noteq> 0"
    by (auto simp: sr_session_open_def bind_simps split: if_split_asm prod.split_asm)
  then show ?case
    using sym_resolv_open_resources [of K m pid desc held r d m' held'] 1(1)
    by (auto simp: sr_ok_def k split: sum.split_asm if_split_asm)
next
  case (2 k held d held')
  obtain K m pid desc where k: "k = (K, m, pid, desc)" by (cases k)
  with 2(2) obtain m' where "sym_resolv_open K m pid desc held = Some (0, d, m', held')"
    by (auto simp: sr_session_open_def bind_simps split: if_split_asm prod.split_asm)
  then show ?case using sym_resolv_open_resources by fastforce
qed

section \<open>Look-ups\<close>

lemma strncpy_bytes_length: "strncpy_bytes m a n = Some bs \<Longrightarrow> length bs = n"
  by (induction n arbitrary: a bs) (auto simp: bind_simps split: if_split_asm)

lemma sym_resolv_addr_from_nth:
  "sym_resolv_addr_from n i dladdr m desc addrs res = Some res' \<Longrightarrow>
   length res' = length res \<and> (n = 0 \<or> i + n \<le> length res \<and> i + n \<le> length addrs) \<and>
   (\<forall>k. i \<le> k \<and> k < i + n \<longrightarrow> sym_resolv_addr_1 dladdr m desc (addrs ! k) (res ! k) = Some (res' ! k)) \<and>
   (\<forall>k. k < i \<or> i + n \<le> k \<longrightarrow> res' ! k = res ! k)"
proof (induction n arbitrary: i res)
  case 0
  then show ?case by auto
next
  case (Suc n)
  then obtain r where r: "i < length addrs" "i < length res"
    "sym_resolv_addr_1 dladdr m desc (addrs ! i) (res ! i) = Some r"
    "sym_resolv_addr_from n (Suc i) dladdr m desc addrs (res[i := r]) = Some res'"
    by (auto simp: bind_simps split: if_split_asm)
  note IH = Suc.IH [OF r(4)]
  have "sym_resolv_addr_1 dladdr m desc (addrs ! k) (res ! k) = Some (res' ! k)"
    if k: "i \<le> k" "k < i + Suc n" for k
  proof (cases "k = i")
    case True
    then have "res' ! k = r" using IH r(2) by simp
    then show ?thesis using True r(3) by simp
  next
    case False
    then have "Suc i \<le> k" "k < Suc i + n" using k by simp_all
    with IH have "sym_resolv_addr_1 dladdr m desc (addrs ! k) (res[i := r] ! k) = Some (res' ! k)"
      by blast
    then show ?thesis using False by simp
  qed
  moreover have "res' ! k = res ! k" if "k < i \<or> i + Suc n \<le> k" for k
  proof -
    have "res' ! k = res[i := r] ! k" using IH that by auto
    then show ?thesis using that by (cases "k = i") auto
  qed
  ultimately show ?case using IH r(1,2) by auto
qed

end
