(* ===== verification/Maps_Text.thy ===== *)
theory Maps_Text
  imports Scanf
begin

text \<open>
  The lines of \<open>/proc/<pid>/maps\<close> and \<open>got_modifier/parse_map_line.c\<close>, the program that tries a
  format string on one of them. The text of a line is that of \<open>proc(5)\<close>: it is the input of the
  parsers, not code of the repository.
\<close>

section \<open>The text of a line\<close>

text \<open>
  The addresses, the permissions, the offset, what is between the offset and the path (device,
  inode and padding), and the path, absent for an anonymous mapping.
\<close>

record maps_line =
  ml_start :: u64
  ml_end :: u64
  ml_perm :: string
  ml_offset :: u64
  ml_inode :: string
  ml_path :: "string option"

definition hex8 :: "u64 \<Rightarrow> string" where
  "hex8 w = padded8 (hexadecimal (unat w))"

definition maps_text :: "maps_line \<Rightarrow> string" where
  "maps_text l = hex8 (ml_start l) @ ''-'' @ hex8 (ml_end l) @ '' '' @ ml_perm l @ '' '' @
     hex8 (ml_offset l) @ '' '' @ ml_inode l @ (case ml_path l of None \<Rightarrow> '''' | Some p \<Rightarrow> p)"

definition maps_file :: "maps_line list \<Rightarrow> string" where
  "maps_file ls = concat (map (\<lambda>l. maps_text l @ [CHR 0x0A]) ls)"

text \<open>
  The lines the buffers of the code are made for: the permissions have four characters, the
  middle part begins with a digit and has no \<open>/\<close>, the path is absolute, has no white space, does
  not end in \<open>/\<close> and fits in a buffer of 255 bytes.
\<close>

definition plain :: "string \<Rightarrow> bool" where
  "plain s \<longleftrightarrow> (\<forall>c\<in>set s. \<not> isspace c)"

definition path_ok :: "string \<Rightarrow> bool" where
  "path_ok p \<longleftrightarrow> p \<noteq> [] \<and> hd p = CHR ''/'' \<and> last p \<noteq> CHR ''/'' \<and> plain p \<and> length p < 255"

definition maps_line_ok :: "maps_line \<Rightarrow> bool" where
  "maps_line_ok l \<longleftrightarrow>
     length (ml_perm l) = 4 \<and> plain (ml_perm l) \<and>
     ml_inode l \<noteq> [] \<and> \<not> isspace (hd (ml_inode l)) \<and> length (ml_inode l) < 200 \<and>
     CHR ''/'' \<notin> set (ml_inode l) \<and> CHR 0x0A \<notin> set (ml_inode l) \<and>
     pred_option path_ok (ml_path l)"

lemma plainD: "plain s \<Longrightarrow> c \<in> set s \<Longrightarrow> \<not> isspace c"
  by (simp add: plain_def)

lemma newline_space [simp]: "isspace (CHR 0x0A)" "isspace (CHR '' '')"
  by (simp_all add: isspace_def)

lemma takeWhile_plain [simp]:
  "plain s \<Longrightarrow> isspace c \<Longrightarrow> takeWhile (\<lambda>d. \<not> isspace d) (s @ c # t) = s"
  "plain s \<Longrightarrow> isspace c \<Longrightarrow> dropWhile (\<lambda>d. \<not> isspace d) (s @ c # t) = c # t"
  "plain s \<Longrightarrow> takeWhile (\<lambda>d. \<not> isspace d) s = s"
  "plain s \<Longrightarrow> dropWhile (\<lambda>d. \<not> isspace d) s = []"
  by (auto simp: plain_def takeWhile_append dropWhile_append takeWhile_eq_all_conv)

lemma takeWhile_until [simp]:
  "c \<notin> set s \<Longrightarrow> takeWhile (\<lambda>d. d \<noteq> c) (s @ c # t) = s"
  "c \<notin> set s \<Longrightarrow> dropWhile (\<lambda>d. d \<noteq> c) (s @ c # t) = c # t"
  "c \<notin> set s \<Longrightarrow> takeWhile (\<lambda>d. d \<noteq> c) s = s"
  "c \<notin> set s \<Longrightarrow> dropWhile (\<lambda>d. d \<noteq> c) s = []"
  by (auto simp: takeWhile_append dropWhile_append takeWhile_eq_all_conv)

lemma skip_space_nonspace [simp]: "\<not> isspace c \<Longrightarrow> skip_space (c # t) = c # t"
  by (simp add: skip_space_def)

lemma skip_space_space [simp]: "isspace c \<Longrightarrow> skip_space (c # t) = skip_space t"
  by (simp add: skip_space_def)

lemma scan_hex_hex8 [simp]: "\<not> isxdigit c \<Longrightarrow> scan_hex (hex8 w @ c # t) = Some (w, c # t)"
  by (simp add: hex8_def scan_hex_padded8)

lemma skip_space_hex8 [simp]: "skip_space (hex8 w @ t) = hex8 w @ t"
  using padded8_shape [of "unat w"] isxdigit_not_special
  by (metis append_Cons hex8_def skip_space_nonspace)

section \<open>parse_map_line.c\<close>

record parse_vars =
  pv_adrstat :: string
  pv_adrend :: string
  pv_perm :: string
  pv_dunno :: string
  pv_lib :: string

definition parse_map_format :: "parse_vars directive list" where
  "parse_map_format = [
     Until (CHR ''-'') 512 (\<lambda>s v. v\<lparr> pv_adrstat := s \<rparr>), Literal (CHR ''-''),
     Until (CHR '' '') 512 (\<lambda>s v. v\<lparr> pv_adrend := s \<rparr>), Space,
     Until (CHR '' '') 5 (\<lambda>s v. v\<lparr> pv_perm := s \<rparr>), Space,
     Until (CHR ''/'') 512 (\<lambda>s v. v\<lparr> pv_dunno := s \<rparr>),
     Nonspace 512 (\<lambda>s v. v\<lparr> pv_lib := s \<rparr>)]"

definition parse_map_line :: "string \<Rightarrow> parse_vars \<Rightarrow> parse_vars option" where
  "parse_map_line line v = sscanf parse_map_format line v"

text \<open>\<open>puts\<close> of the five buffers; \<open>v\<close> is what the uninitialised buffers hold.\<close>

definition parse_map_output :: "parse_vars \<Rightarrow> string list" where
  "parse_map_output v = [pv_adrstat v, pv_adrend v, pv_perm v, pv_dunno v, pv_lib v]"

definition parse_map_line_text :: string where
  "parse_map_line_text = ''b6327000-b633a000 r-xp 00000000 08:01 21017      /usr/lib/libelf-0.8.13.so''"

definition parse_map_main :: "parse_vars \<Rightarrow> string list option" where
  "parse_map_main v = map_option parse_map_output (parse_map_line parse_map_line_text v)"

section \<open>What the format reads from a line\<close>

lemma length_hexadecimal: "0 < k \<Longrightarrow> n < 16 ^ k \<Longrightarrow> length (hexadecimal n) \<le> k"
proof (induction k arbitrary: n)
  case 0
  then show ?case by simp
next
  case (Suc k)
  show ?case
  proof (cases "n < 16")
    case True
    then show ?thesis by (simp add: hexadecimal.simps)
  next
    case False
    then have "0 < k" using Suc.prems by (cases k) auto
    moreover have "n div 16 < 16 ^ k" using Suc.prems by (simp add: less_mult_imp_div_less)
    ultimately have "length (hexadecimal (n div 16)) \<le> k" by (rule Suc.IH)
    then show ?thesis using False by (subst hexadecimal.simps) simp
  qed
qed

lemma length_hex8: "length (hex8 w) \<le> 16"
proof -
  have "unat w < 2 ^ 64" using unsigned_less [of w] by simp
  then have "length (hexadecimal (unat w)) \<le> 16" by (intro length_hexadecimal) simp_all
  then show ?thesis by (simp add: hex8_def padded8_def)
qed

lemma hex8_chars: "c \<in> set (hex8 w) \<Longrightarrow> \<not> isspace c \<and> c \<notin> {CHR ''-'', CHR ''+'', CHR ''x'', CHR ''X'', CHR ''/''}"
  unfolding hex8_def by (rule isxdigit_not_special) (rule padded8_xdigits)

lemma hex8_until [simp]:
  "c \<in> {CHR ''-'', CHR '' '', CHR ''/''} \<Longrightarrow> c \<notin> set (hex8 w)"
  using hex8_chars [of c w] by auto

lemma hex8_nonempty [simp]: "hex8 w \<noteq> []"
  using padded8_shape [of "unat w"] by (metis hex8_def list.distinct(1))

lemma plain_until [simp]: "plain s \<Longrightarrow> CHR '' '' \<notin> set s"
  by (auto dest: plainD)

lemma skip_space_plain [simp]: "plain s \<Longrightarrow> s \<noteq> [] \<Longrightarrow> skip_space (s @ t) = s @ t"
  by (cases s) (auto simp: plain_def)

lemma skip_space_hd [simp]: "s \<noteq> [] \<Longrightarrow> \<not> isspace (hd s) \<Longrightarrow> skip_space (s @ t) = s @ t"
  by (cases s) auto

text \<open>The text of a line that is accepted has no newline and fits in a buffer of 512 bytes.\<close>

lemma maps_text_fits:
  assumes "maps_line_ok l"
  shows "CHR 0x0A \<notin> set (maps_text l)" "length (maps_text l) + 1 < 512"
proof -
  have h: "CHR 0x0A \<notin> set (hex8 w)" for w using hex8_chars [of "CHR 0x0A" w] by auto
  have p: "CHR 0x0A \<notin> set s" if "plain s" for s using that by (auto dest: plainD)
  show "CHR 0x0A \<notin> set (maps_text l)"
    using assms p h by (cases "ml_path l") (auto simp: maps_text_def maps_line_ok_def path_ok_def)
  have "length (case ml_path l of None \<Rightarrow> '''' | Some p \<Rightarrow> p) < 255"
    using assms by (cases "ml_path l") (auto simp: maps_line_ok_def path_ok_def)
  then show "length (maps_text l) + 1 < 512"
    using assms length_hex8 [of "ml_start l"] length_hex8 [of "ml_end l"] length_hex8 [of "ml_offset l"]
    unfolding maps_text_def length_append maps_line_ok_def list.size by linarith
qed

text \<open>Each directive on the text it is meant for.\<close>

lemma sscanf_Until:
  "c \<notin> set s \<Longrightarrow> s \<noteq> [] \<Longrightarrow> length s < n \<Longrightarrow>
   sscanf (Until c n f # ds) (s @ c # t) v = sscanf ds (c # t) (f s v)"
  by (simp add: store_string_def)

lemma sscanf_Until_end:
  "c \<notin> set s \<Longrightarrow> s \<noteq> [] \<Longrightarrow> length s < n \<Longrightarrow> sscanf (Until c n f # ds) s v = sscanf ds [] (f s v)"
  by (simp add: store_string_def)

lemma sscanf_Nonspace:
  "plain s \<Longrightarrow> s \<noteq> [] \<Longrightarrow> length s < n \<Longrightarrow> isspace c \<Longrightarrow>
   sscanf (Nonspace n f # ds) (s @ c # t) v = sscanf ds (c # t) (f s v)"
  by (simp add: store_string_def)

lemma sscanf_Nonspace_end:
  assumes "plain s" "s \<noteq> []" "length s < n"
  shows "sscanf (Nonspace n f # ds) s v = sscanf ds [] (f s v)"
proof -
  have "skip_space s = s" using assms skip_space_plain [of s "[]"] by simp
  then show ?thesis using assms by (simp add: store_string_def)
qed

lemma sscanf_Nonspace_stop: "skip_space s = [] \<Longrightarrow> sscanf (Nonspace n f # ds) s v = Some v"
  by (simp add: store_string_def)

lemma sscanf_Pointer:
  "\<not> isxdigit c \<Longrightarrow> sscanf (Pointer f # ds) (hex8 w @ c # t) v = sscanf ds (c # t) (f w v)"
  by simp

lemma sscanf_Hex:
  "\<not> isxdigit c \<Longrightarrow> sscanf (Hex f # ds) (hex8 w @ c # t) v = sscanf ds (c # t) (f (ucast w) v)"
  by simp

lemma sscanf_Space: "sscanf (Space # ds) t v = sscanf ds (skip_space t) v"
  by simp

lemma sscanf_Literal: "sscanf (Literal c # ds) (c # t) v = sscanf ds t v"
  by simp

lemma not_isxdigit [simp]: "\<not> isxdigit (CHR ''-'')" "\<not> isxdigit (CHR '' '')"
  by (simp_all add: isxdigit_def xdigit_def)

lemmas sscanf_runs = sscanf_Until sscanf_Nonspace sscanf_Nonspace_end sscanf_Pointer sscanf_Hex sscanf_Space
  sscanf_Literal

lemma length_hex8_less [simp]: "16 < n \<Longrightarrow> length (hex8 w) < n"
  using length_hex8 [of w] by linarith

lemma maps_line_okD:
  assumes "maps_line_ok l"
  shows "ml_perm l \<noteq> []" "plain (ml_perm l)" "length (ml_perm l) = 4" "ml_inode l \<noteq> []"
    "\<not> isspace (hd (ml_inode l))" "length (ml_inode l) < 200" "CHR ''/'' \<notin> set (ml_inode l)"
    "CHR 0x0A \<notin> set (ml_inode l)"
  using assms by (auto simp: maps_line_ok_def)

lemma path_okD:
  assumes "path_ok p"
  shows "\<exists>q. p = CHR ''/'' # q" "plain p" "p \<noteq> []" "length p < 255" "last p \<noteq> CHR ''/''"
  using assms by (cases p; simp add: path_ok_def)+

lemma parse_map_line_line:
  assumes "maps_line_ok l" "ml_path l = Some p"
  shows "parse_map_line (maps_text l) v = Some \<lparr> pv_adrstat = hex8 (ml_start l),
    pv_adrend = hex8 (ml_end l), pv_perm = ml_perm l,
    pv_dunno = hex8 (ml_offset l) @ '' '' @ ml_inode l, pv_lib = p \<rparr>"
proof -
  note l = maps_line_okD [OF assms(1)]
  have p: "path_ok p" using assms by (simp add: maps_line_ok_def)
  obtain q where q: "p = CHR ''/'' # q" using path_okD(1) [OF p] by blast
  let ?dunno = "hex8 (ml_offset l) @ CHR '' '' # ml_inode l"
  have d: "CHR ''/'' \<notin> set ?dunno" "?dunno \<noteq> []" "length ?dunno < 512"
    using l length_hex8 [of "ml_offset l"] by simp_all
  have line: "maps_text l = hex8 (ml_start l) @ CHR ''-'' # hex8 (ml_end l) @ CHR '' '' # ml_perm l @
      CHR '' '' # ?dunno @ p"
    by (simp add: maps_text_def assms(2))
  have sk: "skip_space (?dunno @ t) = ?dunno @ t" for t by simp
  show ?thesis
    using l path_okD [OF p]
    by (cases v) (simp del: sscanf.simps(2) append_assoc
      add: parse_map_line_def parse_map_format_def line sscanf_runs sk sscanf_Until [OF d] q)
qed

section \<open>Properties\<close>

text \<open>
  The program prints the five parts of any line of a maps file with a path: the two
  addresses, the permissions, everything from the offset to the path, and the path; the
  witness is the line of the program.
\<close>

theorem parse_map_line_reads:
  assumes "maps_line_ok l" "ml_path l = Some p"
  shows "map_option parse_map_output (parse_map_line (maps_text l) v) =
    Some [hex8 (ml_start l), hex8 (ml_end l), ml_perm l, hex8 (ml_offset l) @ '' '' @ ml_inode l, p]"
  using assms by (simp add: parse_map_line_line parse_map_output_def)

definition example_line :: maps_line where
  "example_line = \<lparr> ml_start = 0xb6327000, ml_end = 0xb633a000, ml_perm = ''r-xp'', ml_offset = 0,
     ml_inode = ''08:01 21017      '', ml_path = Some ''/usr/lib/libelf-0.8.13.so'' \<rparr>"

lemma replicate7: "replicate 7 x = [x, x, x, x, x, x, x]"
  by (simp add: numeral_eq_Suc)

lemma hex8_eval:
  "hex8 0xb6327000 = ''b6327000''" "hex8 0xb633a000 = ''b633a000''" "hex8 0 = ''00000000''"
  by (simp_all add: hex8_def padded8_def hexadecimal.simps xdigit_char_def char_of_def bit_0 replicate7)

lemma example_line_text: "maps_text example_line = parse_map_line_text"
  by (simp add: maps_text_def example_line_def parse_map_line_text_def hex8_eval)

theorem parse_map_line_reads_witness:
  "maps_line_ok example_line \<and>
   parse_map_main \<lparr> pv_adrstat = [], pv_adrend = [], pv_perm = [], pv_dunno = [], pv_lib = [] \<rparr> =
     Some [''b6327000'', ''b633a000'', ''r-xp'', ''00000000 08:01 21017      '',
       ''/usr/lib/libelf-0.8.13.so'']"
proof -
  have ok: "maps_line_ok example_line"
    by (simp add: maps_line_ok_def example_line_def path_ok_def plain_def isspace_def)
  have p: "ml_path example_line = Some ''/usr/lib/libelf-0.8.13.so''"
    by (simp add: example_line_def)
  show ?thesis
    using ok parse_map_line_reads [OF ok p]
    by (simp add: parse_map_main_def example_line_text [symmetric]) (simp add: example_line_def hex8_eval)
qed

end
