(* ===== verification/Dsl_Elf.thy ===== *)
theory Dsl_Elf
  imports Elf_Format Maps_Text Dbg_Print
begin

text \<open>
  \<open>dslelf/dsl_elf.c\<close> on x86-64: finds the mapping of a shared object of the process, lists the
  global symbols without a type of its file, whether they are defined there or not, and the
  relocation of each, and redirects one of them.
  Memory \<open>m\<close> is that of the process, the file mapping included.
\<close>

section \<open>Data\<close>

record dls_file =
  df_fd :: int
  df_map :: u64
  df_size :: nat

record dls_external_sym =
  de_rel :: "u64 option"
  de_name :: u64
  de_sym :: u64

record dls_external_symlist =
  des_len :: int
  des_array :: "dls_external_sym list"

record iovec =
  iov_base :: u64
  iov_len :: u64

section \<open>Opening and closing\<close>

text \<open>
  \<open>return -errno\<close> comes after \<open>close(fd)\<close>, whose own failure replaces the \<open>errno\<close> to report.
\<close>

definition errno_after_close :: "'p kernel \<Rightarrow> int \<Rightarrow> int \<Rightarrow> int" where
  "errno_after_close K fd e = (case k_close K fd of None \<Rightarrow> e | Some e' \<Rightarrow> e')"

definition dls_file_open ::
  "u64 kernel \<Rightarrow> mem64 \<Rightarrow> string \<Rightarrow> dls_file \<Rightarrow> u64 held \<Rightarrow> int \<times> dls_file \<times> mem64 \<times> u64 held" where
  "dls_file_open K m name f held = (case sys_open K name held of
     (Inl e, held) \<Rightarrow> (- e, f, m, held)
   | (Inr fd, held) \<Rightarrow> (case k_fstat K fd of
       Inl e \<Rightarrow> (- errno_after_close K fd e, f, m, sys_close fd held)
     | Inr len \<Rightarrow> (case sys_mmap K fd len held of
         (Inl e, held) \<Rightarrow> (- errno_after_close K fd e, f, m, sys_close fd held)
       | (Inr (addr, m), held) \<Rightarrow>
           (0, f\<lparr> df_fd := fd, df_map := addr, df_size := len \<rparr>, m, held))))"

definition dls_file_close :: "dls_file \<Rightarrow> u64 held \<Rightarrow> u64 held" where
  "dls_file_close f held = sys_close (df_fd f) (sys_munmap (df_map f) (df_size f) held)"

section \<open>Sections\<close>

definition dls_file_get_section_strings :: "mem64 \<Rightarrow> u64 \<Rightarrow> u64 option" where
  "dls_file_get_section_strings m f = do {
     index \<leftarrow> Elf64_e_shstrndx m f;
     e_shoff \<leftarrow> Elf64_e_shoff m f;
     sh_offset \<leftarrow> Elf64_sh_offset m (f + e_shoff + ucast index * sizeof_Elf64_Shdr);
     Some (f + sh_offset) }"

definition dls_get_shdr_by_name :: "mem64 \<Rightarrow> u64 \<Rightarrow> byte list \<Rightarrow> u64 option option" where
  "dls_get_shdr_by_name m base name = do {
     e_shoff \<leftarrow> Elf64_e_shoff m base;
     section_name \<leftarrow> dls_file_get_section_strings m base;
     nr_section \<leftarrow> Elf64_e_shnum m base;
     scan (unat nr_section) sizeof_Elf64_Shdr
       (\<lambda>shdr. do { sh_name \<leftarrow> Elf64_sh_name m shdr; str_at m (section_name + ucast sh_name) name })
       (base + e_shoff) }"

section \<open>The mapping of a shared object\<close>

text \<open>
  The local variables a line of \<open>/proc/<pid>/maps\<close> is read into. They are not initialised, and a
  conversion that does not happen leaves what the lines before stored.
\<close>

record dls_vars =
  dv_addrstart :: u64
  dv_addrend :: u64
  dv_perm :: string
  dv_offset :: int
  dv_garbage :: string
  dv_lib :: string

definition dls_format :: "dls_vars directive list" where
  "dls_format = [
     Pointer (\<lambda>a v. v\<lparr> dv_addrstart := a \<rparr>), Literal (CHR ''-''),
     Pointer (\<lambda>a v. v\<lparr> dv_addrend := a \<rparr>), Space,
     Until (CHR '' '') 5 (\<lambda>s v. v\<lparr> dv_perm := s \<rparr>), Space,
     Hex (\<lambda>n v. v\<lparr> dv_offset := sint n \<rparr>), Space,
     Until (CHR ''/'') 255 (\<lambda>s v. v\<lparr> dv_garbage := s \<rparr>),
     Nonspace 255 (\<lambda>s v. v\<lparr> dv_lib := s \<rparr>)]"

text \<open>
  \<open>basename\<close> of \<open>libgen.h\<close>: it ends the path at its trailing slashes, in place, and returns the last
  component; \<open>"."\<close> for the empty path and \<open>"/"\<close> for one of slashes only.
\<close>

definition cut_slashes :: "string \<Rightarrow> string" where
  "cut_slashes path = rev (dropWhile (\<lambda>c. c = CHR ''/'') (rev path))"

definition basename :: "string \<Rightarrow> string" where
  "basename path = (if path = [] then ''.'' else
     let p = cut_slashes path
     in if p = [] then ''/'' else rev (takeWhile (\<lambda>c. c \<noteq> CHR ''/'') (rev p)))"

definition after_basename :: "string \<Rightarrow> string" where
  "after_basename path = (if cut_slashes path = [] then path else cut_slashes path)"

text \<open>The loop, on the text that is left of the stream. \<open>None\<close> is a buffer overrun.\<close>

function dls_search_lines ::
  "u64 kernel \<Rightarrow> string \<Rightarrow> string \<Rightarrow> dls_vars \<Rightarrow> mem64 \<Rightarrow> dls_file \<Rightarrow> iovec \<Rightarrow> u64 held \<Rightarrow>
   (int \<times> mem64 \<times> dls_file \<times> iovec \<times> u64 held) option" where
  "dls_search_lines K name fp v m f vector held = (case fgets 512 fp of
     None \<Rightarrow> Some (0, m, f, vector, held)
   | Some (line, fp2) \<Rightarrow> do {
       v \<leftarrow> sscanf dls_format line v;
       let ptr = basename (dv_lib v);
       let v = v\<lparr> dv_lib := after_basename (dv_lib v) \<rparr>;
       if dv_offset v = 0 \<and> ptr = name then
         (case dls_file_open K m (dv_lib v) f held of
            (r, f, m, held) \<Rightarrow> Some (1, m, f,
              \<lparr> iov_base = dv_addrstart v, iov_len = dv_addrend v - dv_addrstart v \<rparr>, held))
       else dls_search_lines K name fp2 v m f vector held })"
  by pat_completeness auto
termination
  by (relation "measure (\<lambda>(K, name, fp, v, m, f, vector, held). length fp)") (auto dest: fgets_shorter)

declare dls_search_lines.simps [simp del]

text \<open>
  \<open>maps\<close> is the text a stream yields; \<open>v\<close> are the uninitialised variables the function starts with.
\<close>

definition dls_search_dso ::
  "u64 kernel \<Rightarrow> (nat \<Rightarrow> string) \<Rightarrow> nat \<Rightarrow> string \<Rightarrow> dls_vars \<Rightarrow> mem64 \<Rightarrow> dls_file \<Rightarrow> iovec \<Rightarrow> u64 held \<Rightarrow>
   (int \<times> mem64 \<times> dls_file \<times> iovec \<times> u64 held) option" where
  "dls_search_dso K maps getpid name v m f vector held = (
     let filename = take 16 (proc_file (decimal getpid) ''maps'') in
     case sys_fopen K filename held of
       (None, held) \<Rightarrow> Some (- 1, m, f, vector, held)
     | (Some fp, held) \<Rightarrow> do {
         (found, m, f, vector, held) \<leftarrow> dls_search_lines K name (maps fp) v m f vector held;
         Some (found, m, f, vector, sys_fclose fp held) })"

section \<open>Relocations and external symbols\<close>

text \<open>
  The number of entries is computed with the size of \<open>dls_rel\<close>, the walk is over entries of the
  size of \<open>dls_rela\<close>.
\<close>

definition dls_get_rel_in :: "mem64 \<Rightarrow> u64 \<Rightarrow> u64 \<Rightarrow> int \<Rightarrow> u64 option option" where
  "dls_get_rel_in m base walker sym_ind = do {
     sh_size \<leftarrow> Elf64_sh_size m walker;
     sh_offset \<leftarrow> Elf64_sh_offset m walker;
     scan (unat (ucast (sh_size div sizeof_Elf64_Rel) :: u32)) sizeof_Elf64_Rela
       (\<lambda>rela. do { r_info \<leftarrow> Elf64_r_info m rela; Some (ELF64_R_SYM r_info = of_int sym_ind) })
       (base + sh_offset) }"

definition dls_get_rel_section :: "mem64 \<Rightarrow> u64 \<Rightarrow> int \<Rightarrow> int \<Rightarrow> u64 \<Rightarrow> u64 option option" where
  "dls_get_rel_section m base section_ind sym_ind walker = do {
     t \<leftarrow> Elf64_sh_type m walker;
     matches \<leftarrow> (if t = SHT_RELA
       then do { l \<leftarrow> Elf64_sh_link m walker; Some (of_int section_ind = l) } else Some False);
     (if matches then dls_get_rel_in m base walker sym_ind else Some None) }"

definition dls_get_rel_sym :: "mem64 \<Rightarrow> u64 \<Rightarrow> int \<Rightarrow> int \<Rightarrow> u64 option option" where
  "dls_get_rel_sym m base section_ind sym_ind = do {
     num_section \<leftarrow> Elf64_e_shnum m base;
     e_shoff \<leftarrow> Elf64_e_shoff m base;
     search (unat num_section) sizeof_Elf64_Shdr (dls_get_rel_section m base section_ind sym_ind)
       (base + e_shoff) }"

text \<open>One symbol of the table: the entry of the list, if it is a global one of no type.\<close>

definition dls_external_sym_at ::
  "mem64 \<Rightarrow> u64 \<Rightarrow> int \<Rightarrow> u64 \<Rightarrow> int \<Rightarrow> u64 \<Rightarrow> dls_external_sym option option" where
  "dls_external_sym_at m base section_ind u i symb = do {
     st_info \<leftarrow> Elf64_st_info m symb;
     if ELF64_ST_BIND st_info = 1 \<and> ELF64_ST_TYPE st_info = 0 then do {
       st_name \<leftarrow> Elf64_st_name m symb;
       rel \<leftarrow> dls_get_rel_sym m base section_ind i;
       Some (Some \<lparr> de_rel = rel, de_name = u + ucast st_name, de_sym = symb \<rparr>) }
     else Some None }"

text \<open>
  The loop that fills the array \<open>malloc\<close> returned; its capacity is the number of symbols, and a
  store past it is a fault.
\<close>

primrec dls_external_from ::
  "nat \<Rightarrow> nat \<Rightarrow> mem64 \<Rightarrow> u64 \<Rightarrow> int \<Rightarrow> u64 \<Rightarrow> int \<Rightarrow> u64 \<Rightarrow> dls_external_sym list \<Rightarrow>
   dls_external_sym list option" where
  "dls_external_from 0 nr m base section_ind u i symb out = Some out"
| "dls_external_from (Suc n) nr m base section_ind u i symb out = do {
     e \<leftarrow> dls_external_sym_at m base section_ind u i symb;
     out \<leftarrow> (case e of
        None \<Rightarrow> Some out
      | Some e \<Rightarrow> if length out < nr then Some (out @ [e]) else None);
     dls_external_from n nr m base section_ind u (i + 1) (symb + sizeof_Elf64_Sym) out }"

text \<open>
  \<open>malloc_ok\<close> says whether \<open>malloc\<close> succeeds for the requested number of entries: its result is not
  checked, so the first store through a null pointer is a fault. \<open>s4\<close> and \<open>s5\<close> are dereferenced
  without a check as well. The final \<open>realloc\<close> only shrinks the array to its entries.
\<close>

definition dls_get_external_syms ::
  "(nat \<Rightarrow> bool) \<Rightarrow> mem64 \<Rightarrow> u64 \<Rightarrow> (int \<times> dls_external_symlist) option" where
  "dls_get_external_syms malloc_ok m base = do {
     s4 \<leftarrow> dls_get_shdr_by_name m base (bytes_of ''.dynsym'');
     s5 \<leftarrow> dls_get_shdr_by_name m base (bytes_of ''.dynstr'');
     (case (s4, s5) of
        (Some s4, Some s5) \<Rightarrow> do {
          sh_size \<leftarrow> Elf64_sh_size m s4;
          e_shoff \<leftarrow> Elf64_e_shoff m base;
          let nr_sym = sint (ucast (sh_size div sizeof_Elf64_Sym) :: u32);
          let first_section = base + e_shoff;
          let section_ind = sint (ucast ((s4 - first_section) div sizeof_Elf64_Shdr) :: u32);
          str_offset \<leftarrow> Elf64_sh_offset m s5;
          sym_offset \<leftarrow> Elf64_sh_offset m s4;
          let capacity = (if malloc_ok (nat nr_sym) then nat nr_sym else 0);
          out \<leftarrow> dls_external_from (nat nr_sym) capacity m base section_ind (base + str_offset) 0
            (base + sym_offset) [];
          Some (int (length out), \<lparr> des_len = int (length out), des_array = out \<rparr>) }
      | _ \<Rightarrow> None) }"

text \<open>
  The loop of \<open>main\<close> that stores the address of the replacement over the slot of every entry of the
  given name; the relocation pointer is dereferenced unchecked.
\<close>

fun dls_redirect :: "dls_external_sym list \<Rightarrow> byte list \<Rightarrow> u64 \<Rightarrow> u64 \<Rightarrow> mem64 \<Rightarrow> printed \<Rightarrow> (mem64 \<times> printed) option" where
  "dls_redirect [] name base at_funky m out = Some (m, out)"
| "dls_redirect (e # es) name base at_funky m out = do {
     same \<leftarrow> str_at m (de_name e) name;
     (m, out) \<leftarrow> (if same then (case de_rel e of
            None \<Rightarrow> None
          | Some rel \<Rightarrow> do {
              let out = put_text Stdout (''setting '' @ pointer_text at_funky @ newline) out;
              r_offset \<leftarrow> Elf64_r_offset m rel;
              m \<leftarrow> store64 m (base + r_offset) at_funky;
              Some (m, out) })
        else Some (m, out));
     dls_redirect es name base at_funky m out }"

text \<open>
  \<open>main\<close>: \<open>handle\<close> is what \<open>dlopen\<close> returns, or the text of \<open>dlerror\<close>; \<open>at_funky\<close> is the address of
  the replacement, \<open>v\<close>, \<open>f\<close> and \<open>vec\<close> are uninitialised variables. The call of the loaded function,
  made before the handle and the file are closed, is the argument \<open>call\<close>.
\<close>

definition dls_main ::
  "u64 kernel \<Rightarrow> (nat \<Rightarrow> string) \<Rightarrow> string + nat \<Rightarrow> (nat \<Rightarrow> bool) \<Rightarrow>
   (mem64 \<Rightarrow> printed \<Rightarrow> (mem64 \<times> printed) option) \<Rightarrow> u64 \<Rightarrow> nat \<Rightarrow>
   dls_vars \<Rightarrow> dls_file \<Rightarrow> iovec \<Rightarrow> mem64 \<Rightarrow> u64 held \<Rightarrow> (int \<times> printed \<times> mem64 \<times> u64 held) option" where
  "dls_main K maps handle malloc_ok call at_funky pid v f vec m held = (case handle of
     Inl dlerror \<Rightarrow> Some (0, put_text Stdout (dlerror @ newline) [], m, held)
   | Inr h \<Rightarrow> do {
       (found, m, f, vec, held) \<leftarrow>
         dls_search_dso K maps pid ''liblib.so'' v m f vec (acquire (Dso h) held);
       syms \<leftarrow> dls_get_external_syms malloc_ok m (df_map f);
       (m, out) \<leftarrow> dls_redirect (des_array (snd syms)) (bytes_of ''funky'') (iov_base vec) at_funky m [];
       (m, out) \<leftarrow> call m out;
       Some (0, out, m, dls_file_close f (release (Dso h) held)) })"

text \<open>The function that is put in the place of the one the object calls.\<close>

definition funky :: "mem64 \<Rightarrow> printed \<Rightarrow> (mem64 \<times> printed) option" where
  "funky m out = Some (m, put_text Stdout (''clope'' @ newline) out)"

text \<open>
  \<open>hello_world\<close> of the shared object \<open>lib.c\<close>: its call of the undefined \<open>funky\<close> goes to the address in
  the slot that the relocation of \<open>funky\<close> names. \<open>code\<close> is what runs at an address.
\<close>

definition hello_world ::
  "u64 \<Rightarrow> (u64 \<Rightarrow> mem64 \<Rightarrow> printed \<Rightarrow> (mem64 \<times> printed) option) \<Rightarrow> mem64 \<Rightarrow> printed \<Rightarrow> (mem64 \<times> printed) option" where
  "hello_world slot code m out = do { target \<leftarrow> load64 m slot; code target m out }"

section \<open>Resources\<close>

lemma dls_file_open_cases:
  "dls_file_open K m name f held = (r, f', m', held') \<Longrightarrow>
   (\<exists>fd len addr. k_open K name = Inr fd \<and> k_fstat K fd = Inr len \<and> k_mmap K fd len = Inr (addr, m') \<and>
      r = 0 \<and> f' = f\<lparr> df_fd := fd, df_map := addr, df_size := len \<rparr> \<and>
      held' = Mapping addr len # Fd fd # held) \<or>
   f' = f \<and> m' = m \<and> held' = held \<and>
   (case k_open K name of Inl e \<Rightarrow> r = - e
    | Inr fd \<Rightarrow> (case k_fstat K fd of Inl e \<Rightarrow> r = - errno_after_close K fd e
       | Inr len \<Rightarrow> \<exists>e. k_mmap K fd len = Inl e \<and> r = - errno_after_close K fd e))"
  by (auto simp: dls_file_open_def sys_open_def sys_mmap_def sys_close_def acquire_def release_def
    split: sum.split_asm prod.split_asm)

lemma dls_file_close_open:
  "dls_file_close f (Mapping (df_map f) (df_size f) # Fd (df_fd f) # held) = held"
  by (simp add: dls_file_close_def sys_close_def sys_munmap_def release_def)

type_synonym dls_env = "u64 kernel \<times> mem64 \<times> string \<times> dls_file"

definition dls_session_open :: "dls_env \<Rightarrow> u64 held \<Rightarrow> (dls_file option \<times> u64 held) option" where
  "dls_session_open env held = (case env of (K, m, name, f) \<Rightarrow>
     (case dls_file_open K m name f held of
        (r, f', m', held') \<Rightarrow> Some (if r = 0 then Some f' else None, held')))"

text \<open>The numbers the kernel reports are \<open>errno\<close> values, which are positive.\<close>

definition dls_ok :: "dls_env \<Rightarrow> bool" where
  "dls_ok env = (case env of (K, m, name, f) \<Rightarrow>
     (\<forall>e. k_open K name = Inl e \<longrightarrow> 0 < e) \<and>
     (\<forall>fd. k_open K name = Inr fd \<longrightarrow> (\<forall>e. k_fstat K fd = Inl e \<longrightarrow> 0 < errno_after_close K fd e) \<and>
        (\<forall>len e. k_mmap K fd len = Inl e \<longrightarrow> 0 < errno_after_close K fd e)))"

interpretation dls: open_close dls_ok dls_session_open dls_file_close
proof (unfold_locales, goal_cases)
  case (1 k held held')
  obtain K m name f where k: "k = (K, m, name, f)" by (cases k)
  obtain r f' m' h where o: "dls_file_open K m name f held = (r, f', m', h)"
    by (cases "dls_file_open K m name f held")
  then have "r \<noteq> 0" "h = held'" using 1(2) by (auto simp: dls_session_open_def k split: if_split_asm)
  then show ?case using dls_file_open_cases [OF o] by auto
next
  case (2 k held d held')
  obtain K m name f where k: "k = (K, m, name, f)" by (cases k)
  obtain r f' m' h where o: "dls_file_open K m name f held = (r, f', m', h)"
    by (cases "dls_file_open K m name f held")
  then have e: "r = 0" "h = held'" "f' = d"
    using 2(2) by (auto simp: dls_session_open_def k split: if_split_asm)
  from 2(1) have "(case k_open K name of Inl e \<Rightarrow> r = - e
      | Inr fd \<Rightarrow> (case k_fstat K fd of Inl e \<Rightarrow> r = - errno_after_close K fd e
         | Inr len \<Rightarrow> \<exists>e. k_mmap K fd len = Inl e \<and> r = - errno_after_close K fd e)) \<Longrightarrow> False"
    using e(1) by (auto simp: dls_ok_def k split: sum.split_asm) (metis less_irrefl)
  then obtain fd len addr where "d = f\<lparr> df_fd := fd, df_map := addr, df_size := len \<rparr>"
    "held' = Mapping addr len # Fd fd # held"
    using dls_file_open_cases [OF o] e by blast
  then show ?case using dls_file_close_open [of d held] by simp
qed

section \<open>External symbols\<close>

lemma dls_external_from_list:
  "dls_external_from n nr m base si u i symb out = Some out' \<Longrightarrow>
   \<exists>es. length es = n \<and>
     (\<forall>k<n. dls_external_sym_at m base si u (i + int k) (entry symb sizeof_Elf64_Sym k) = Some (es ! k)) \<and>
     out' = out @ List.map_filter id es \<and> (List.map_filter id es \<noteq> [] \<longrightarrow> length out' \<le> nr)"
proof (induction n arbitrary: i symb out)
  case 0
  then show ?case by (simp add: map_filter_simps)
next
  case (Suc n)
  then obtain e out1 where e: "dls_external_sym_at m base si u i symb = Some e"
    "(case e of None \<Rightarrow> Some out | Some e \<Rightarrow> if length out < nr then Some (out @ [e]) else None) = Some out1"
    "dls_external_from n nr m base si u (i + 1) (symb + sizeof_Elf64_Sym) out1 = Some out'"
    by (auto simp: bind_eq_Some_conv)
  obtain es where es: "length es = n"
    "\<forall>k<n. dls_external_sym_at m base si u (i + 1 + int k) (entry (symb + sizeof_Elf64_Sym) sizeof_Elf64_Sym k) = Some (es ! k)"
    "out' = out1 @ List.map_filter id es" "List.map_filter id es \<noteq> [] \<longrightarrow> length out' \<le> nr"
    using Suc.IH [OF e(3)] by blast
  have "dls_external_sym_at m base si u (i + int k) (entry symb sizeof_Elf64_Sym k) = Some ((e # es) ! k)"
    if "k < Suc n" for k
  proof (cases k)
    case 0
    then show ?thesis using e(1) by simp
  next
    case (Suc j)
    then have "dls_external_sym_at m base si u (i + 1 + int j) (entry symb sizeof_Elf64_Sym (Suc j)) = Some (es ! j)"
      using es(2) that by (simp add: entry_shift)
    then show ?thesis by (simp add: Suc algebra_simps)
  qed
  then have A: "\<forall>k<Suc n. dls_external_sym_at m base si u (i + int k) (entry symb sizeof_Elf64_Sym k) =
      Some ((e # es) ! k)" by blast
  have B: "out' = out @ List.map_filter id (e # es)"
    using e(2) es(3) by (cases e) (auto simp: map_filter_simps split: if_split_asm)
  have C: "List.map_filter id (e # es) \<noteq> [] \<longrightarrow> length out' \<le> nr"
    using e(2) es(3,4) by (cases e) (auto simp: map_filter_simps split: if_split_asm)
  show ?case by (rule exI [of _ "e # es"], intro conjI A B C) (simp add: es(1))
qed

text \<open>With room for every symbol no store leaves the array.\<close>

lemma dls_external_from_runs:
  "\<forall>k<n. dls_external_sym_at m base si u (i + int k) (entry symb sizeof_Elf64_Sym k) = Some (es k) \<Longrightarrow>
   length out + n \<le> nr \<Longrightarrow>
   dls_external_from n nr m base si u i symb out = Some (out @ List.map_filter es [0..<n])"
proof (induction n arbitrary: i symb out es)
  case 0
  then show ?case by (simp add: map_filter_simps)
next
  case (Suc n)
  have e: "dls_external_sym_at m base si u i symb = Some (es 0)"
    using Suc.prems(1) [rule_format, of 0] by simp
  have rest: "\<forall>k<n. dls_external_sym_at m base si u (i + 1 + int k)
      (entry (symb + sizeof_Elf64_Sym) sizeof_Elf64_Sym k) = Some (es (Suc k))"
    using Suc.prems(1) by (auto simp: entry_shift add.assoc)
  show ?case
  proof (cases "es 0")
    case None
    then show ?thesis
      using Suc.IH [OF rest, of out] Suc.prems(2) e by (simp add: map_filter_upt_Suc del: upt_Suc)
  next
    case (Some x)
    then show ?thesis
      using Suc.IH [OF rest, of "out @ [x]"] Suc.prems(2) e by (simp add: map_filter_upt_Suc del: upt_Suc)
  qed
qed

end
