(* ===== verification/Elf_Properties.thy ===== *)
theory Elf_Properties
  imports Linux_Obj_Parser Sym_Resolver Dsl_Elf
begin

text \<open>
  The properties of the ELF readers, each with its witness on a small image.
\<close>

section \<open>The 32-bit object parser\<close>

text \<open>
  lop_get_section_by_type returns the first section header of the type, in table order.
\<close>

theorem lop_get_section_by_type_find:
  assumes "Elf32_e_shoff m base = Some off" "Elf32_e_shnum m base = Some n"
    and "\<forall>i<unat n. Elf32_sh_type m (entry (base + off) sizeof_Elf32_Shdr i) = Some (types i)"
  shows "lop_get_section_by_type m base type =
    Some (map_option (entry (base + off) sizeof_Elf32_Shdr) (find (\<lambda>i. types i = type) [0..<unat n]))"
proof -
  have "scan (unat n) sizeof_Elf32_Shdr
      (\<lambda>current. do { t \<leftarrow> Elf32_sh_type m current; Some (type = t) }) (base + off) =
    Some (map_option (entry (base + off) sizeof_Elf32_Shdr) (find (\<lambda>i. types i = type) [0..<unat n]))"
    using assms(3) by (intro scan_find) auto
  then show ?thesis using assms by (simp add: lop_get_section_by_type_def)
qed

text \<open>
  C33: for a program with at most 255 readable program headers the segment loop ends and
  computes the same as filtering the table for loadable executable or writable segments and
  recording the first two of them; it reports success exactly when there are two.
\<close>

theorem lop_read_segment_info_first_two:
  assumes "Elf32_e_phnum m (lop_ehdr ptr) = Some n" "unat n \<le> 255"
    and "\<forall>k<unat n. segment_of m (entry (lop_phdr ptr) sizeof_Elf32_Phdr k) = Some (seg k)"
  shows "lop_read_segment_info m ptr =
    (let hs = take 2 (List.map_filter seg [0..<unat n])
     in Some (if length hs = 2 then 0 else 1, fold set_segment hs ptr))"
  using lop_segments_table [where i = 0 and nb = 0 and m = m and p = "lop_phdr ptr" and ptr = ptr, OF assms(1,2)] assms(3)
  by (simp add: lop_read_segment_info_def Let_def)

text \<open>
  With more than 255 program headers the 8-bit index wraps: lop_read_segment_info never
  reports its failure, and when no header it meets is such a segment it does not return.
\<close>

theorem lop_read_segment_info_wraps:
  assumes "Elf32_e_phnum m (lop_ehdr ptr) = Some n" "255 < unat n"
  shows "lop_read_segment_info m ptr \<noteq> Some (1, ptr') \<and>
    ((\<forall>k. segment_of m (entry (lop_phdr ptr) sizeof_Elf32_Phdr k) = Some None) \<longrightarrow>
     lop_read_segment_info m ptr = None)"
proof (intro conjI impI)
  show "lop_read_segment_info m ptr \<noteq> Some (1, ptr')"
    using lop_segments_many [OF _ assms] by (auto simp: lop_read_segment_info_def bind_simps)
  assume "\<forall>k. segment_of m (entry (lop_phdr ptr) sizeof_Elf32_Phdr k) = Some None"
  then have "lop_segments m 0 (lop_phdr ptr) 0 ptr = None"
    using lop_segments_endless [OF _ assms, of 0 "lop_phdr ptr" 0] by (cases "lop_segments m 0 (lop_phdr ptr) 0 ptr") auto
  then show "lop_read_segment_info m ptr = None" by (simp add: lop_read_segment_info_def)
qed

text \<open>
  C9: when lop_init_info returns, it returns 0 with the three header addresses of the image,
  the segment addresses lop_read_segment_info found, and a table of min(number of dynamic
  symbols, 128) entries, at least one, whose entry k holds the address, the name and the
  relocation of dynamic symbol k; the other entries stay zero.
\<close>

theorem lop_init_info_correct:
  assumes "lop_init_info m base = Some (Inr (r, ptr))"
  shows "\<exists>phoff shoff ptr0 dyn str len off stroff count.
    r = 0 \<and> lop_ehdr ptr = base \<and>
    Elf32_e_phoff m base = Some phoff \<and> lop_phdr ptr = base + phoff \<and>
    Elf32_e_shoff m base = Some shoff \<and> lop_shdr ptr = base + shoff \<and>
    lop_read_segment_info m
      (lop_info_zero\<lparr> lop_ehdr := base, lop_phdr := base + phoff, lop_shdr := base + shoff \<rparr>) = Some (0, ptr0) \<and>
    lop_textvaddr ptr = lop_textvaddr ptr0 \<and> lop_datavaddr ptr = lop_datavaddr ptr0 \<and>
    lop_get_section_by_type m base SHT_DYNSYM = Some (Some dyn) \<and>
    lop_get_section_dynstr_tab m base dyn = Some str \<and>
    Elf32_sh_size m dyn = Some len \<and> Elf32_sh_offset m dyn = Some off \<and>
    Elf32_sh_offset m str = Some stroff \<and>
    count = min (unat (len div sizeof_Elf32_Sym)) LOP_MAX_DYNSYM \<and> 0 < count \<and>
    unat (lop_dynsym_count ptr) = count \<and> length (lop_plt ptr) = LOP_MAX_DYNSYM \<and>
    (\<forall>k<count. plt_entry m ptr ((dyn - lop_shdr ptr) div sizeof_Elf32_Shdr) (base + stroff)
       (base + off) k = Some (lop_plt ptr ! k)) \<and>
    (\<forall>k<LOP_MAX_DYNSYM. count \<le> k \<longrightarrow> lop_plt ptr ! k = \<lparr> lop_sym = 0, lop_rel = None, lop_symname = 0 \<rparr>)"
proof -
  from assms obtain phoff shoff ptr0 where hdr: "Elf32_e_phoff m base = Some phoff" "Elf32_e_shoff m base = Some shoff"
    and seg: "lop_read_segment_info m
      (lop_info_zero\<lparr> lop_ehdr := base, lop_phdr := base + phoff, lop_shdr := base + shoff \<rparr>) = Some (0, ptr0)"
    and dyn: "lop_read_dynsym_section m ptr0 = Some (Inr (0, ptr))" "r = 0"
    by (auto simp: lop_init_info_def Let_def bind_simps split: if_split_asm)
      (auto split: if_split_asm sum.split_asm prod.split_asm)
  obtain t d where ptr0: "ptr0 = lop_info_zero\<lparr> lop_ehdr := base, lop_phdr := base + phoff, lop_shdr := base + shoff,
      lop_textvaddr := t, lop_datavaddr := d \<rparr>"
    using seg by (auto simp: lop_read_segment_info_def bind_simps dest!: lop_segments_frame)
  then have f: "lop_ehdr ptr0 = base" "lop_phdr ptr0 = base + phoff" "lop_shdr ptr0 = base + shoff"
    "lop_plt ptr0 = replicate LOP_MAX_DYNSYM \<lparr> lop_sym = 0, lop_rel = None, lop_symname = 0 \<rparr>"
    by (simp_all add: lop_info_zero_def)
  obtain dyn str where sec: "lop_get_section_by_type m base SHT_DYNSYM = Some (Some dyn)"
    "lop_get_section_dynstr_tab m base dyn = Some str" "lop_build_plt_table m ptr0 dyn str = Some (0, ptr)"
    using dyn(1) f(1) by (auto simp: lop_read_dynsym_section_def bind_simps split: if_split_asm option.split_asm)
  obtain len off stroff where w: "Elf32_sh_size m dyn = Some len" "Elf32_sh_offset m dyn = Some off"
    "Elf32_sh_offset m str = Some stroff"
    using sec(3) by (auto simp: lop_build_plt_table_def bind_simps Let_def)
  define count where "count = min (unat (len div sizeof_Elf32_Sym)) LOP_MAX_DYNSYM"
  obtain es where es: "0 < count" "length es = count"
    "\<forall>k<count. plt_entry m ptr0 ((dyn - (base + shoff)) div sizeof_Elf32_Shdr) (base + stroff) (base + off) k = Some (es ! k)"
    "ptr = ptr0\<lparr> lop_plt := es @ drop count (lop_plt ptr0), lop_dynsym_count := of_nat count \<rparr>"
    using lop_build_plt_table_entries [OF sec(3) _ w count_def] f by auto
  have le: "count \<le> 128" by (simp add: count_def LOP_MAX_DYNSYM_def)
  have same: "plt_entry m ptr = plt_entry m ptr0"
    by (rule plt_entry_cong) (simp_all add: es(4))
  have p: "lop_ehdr ptr = base" "lop_phdr ptr = base + phoff" "lop_shdr ptr = base + shoff"
    "lop_textvaddr ptr = lop_textvaddr ptr0" "lop_datavaddr ptr = lop_datavaddr ptr0"
    "lop_dynsym_count ptr = of_nat count" "lop_plt ptr = es @ drop count (lop_plt ptr0)"
    using es(4) f by simp_all
  have c: "unat (of_nat count :: u8) = count" using le by (intro unat_of_nat_less) simp
  show ?thesis
    unfolding p(1-6) c same
    by (rule exI [of _ phoff], rule exI [of _ shoff], rule exI [of _ ptr0], rule exI [of _ dyn],
        rule exI [of _ str], rule exI [of _ len], rule exI [of _ off], rule exI [of _ stroff],
        rule exI [of _ count])
      (use hdr seg dyn(2) sec w es(1-3) f le p(7) count_def in \<open>auto simp: nth_append LOP_MAX_DYNSYM_def\<close>)
qed

text \<open>
  On readable sections lop_find_rel_by_sym returns the first entry for the symbol in the first
  relocation section of the symbol table that has one, where the entries searched in a section
  are as many as its file offset (not its size) divided by 8; the witness finds one beyond the
  end of its section.
\<close>

theorem lop_find_rel_by_sym_first:
  assumes "Elf32_e_shnum m (lop_ehdr ptr) = Some n"
    and "\<forall>j<unat n. Elf32_sh_type m (entry (lop_shdr ptr) sizeof_Elf32_Shdr j) = Some (types j)"
    and "\<forall>j<unat n. Elf32_sh_link m (entry (lop_shdr ptr) sizeof_Elf32_Shdr j) = Some (links j)"
    and "\<forall>j<unat n. Elf32_sh_offset m (entry (lop_shdr ptr) sizeof_Elf32_Shdr j) = Some (offs j)"
    and "\<forall>j<unat n. types j = SHT_REL \<and> links j = sind \<longrightarrow> (\<forall>k<unat (offs j) div 8.
      Elf32_r_info m (entry (lop_ehdr ptr + offs j) sizeof_Elf32_Rel k) = Some (info j k))"
  shows "lop_find_rel_by_sym m ptr sind ind =
    Some (first (List.map_filter (\<lambda>j. if types j = SHT_REL \<and> links j = sind
      then map_option (entry (lop_ehdr ptr + offs j) sizeof_Elf32_Rel)
        (find (\<lambda>k. ELF32_R_SYM (info j k) = ind) [0..<unat (offs j) div 8])
      else None) [0..<unat n]))"
proof -
  have div8: "unat (offs j div sizeof_Elf32_Rel) = unat (offs j) div 8" for j
    by (simp add: unat_div sizeof_Elf32_Rel_def)
  have sec: "lop_find_rel_section m ptr sind ind (entry (lop_shdr ptr) sizeof_Elf32_Shdr j) =
      Some (if types j = SHT_REL \<and> links j = sind
        then map_option (entry (lop_ehdr ptr + offs j) sizeof_Elf32_Rel)
          (find (\<lambda>k. ELF32_R_SYM (info j k) = ind) [0..<unat (offs j) div 8])
        else None)" if j: "j < unat n" for j
  proof (cases "types j = SHT_REL \<and> links j = sind")
    case True
    have "lop_find_rel_in m ptr (entry (lop_shdr ptr) sizeof_Elf32_Shdr j) ind =
        Some (map_option (entry (lop_ehdr ptr + offs j) sizeof_Elf32_Rel)
          (find (\<lambda>k. ELF32_R_SYM (info j k) = ind) [0..<unat (offs j) div 8]))"
      using assms(4,5) j True by (simp add: lop_find_rel_in_def div8) (rule scan_find, simp)
    then show ?thesis using assms(2,3) j True by (simp add: lop_find_rel_section_def)
  next
    case False
    then show ?thesis using assms(2,3) j by (auto simp: lop_find_rel_section_def)
  qed
  show ?thesis
    unfolding lop_find_rel_by_sym_def assms(1) Option.bind.simps by (rule search_first) (rule sec)
qed

text \<open>
  A symbol lop_get_dynsym_by_name returns lies 15 times the section offset beyond the
  entry of the dynamic symbol table with its index, because the offset is scaled by the size
  of a symbol.
\<close>

theorem lop_get_dynsym_by_name_scaled:
  assumes "lop_get_dynsym_by_name m base name = Some (Some q)"
  shows "\<exists>dyn str off len stroff i nm.
    lop_get_section_by_type m base SHT_DYNSYM = Some (Some dyn) \<and>
    lop_get_section_dynstr_tab m base dyn = Some str \<and>
    Elf32_sh_offset m dyn = Some off \<and> Elf32_sh_size m dyn = Some len \<and>
    Elf32_sh_offset m str = Some stroff \<and>
    i < unat (len div sizeof_Elf32_Sym) \<and>
    q = entry (base + off) sizeof_Elf32_Sym i + 15 * off \<and>
    Elf32_st_name m q = Some nm \<and> str_at m (base + stroff + nm) name = Some True"
proof -
  from assms obtain dyn str off len where d: "lop_get_section_by_type m base SHT_DYNSYM = Some (Some dyn)"
    "lop_get_section_dynstr_tab m base dyn = Some str"
    "Elf32_sh_offset m dyn = Some off" "Elf32_sh_size m dyn = Some len"
    and walk: "scan (unat (len div sizeof_Elf32_Sym)) sizeof_Elf32_Sym
         (\<lambda>currsym. do {
            str_offset \<leftarrow> Elf32_sh_offset m str;
            st_name \<leftarrow> Elf32_st_name m currsym;
            str_at m (base + str_offset + st_name) name })
         (base + sizeof_Elf32_Sym * off) = Some (Some q)"
    by (auto simp: lop_get_dynsym_by_name_def bind_simps split: if_split_asm)
      (auto simp: bind_simps split: if_split_asm option.split_asm)
  obtain i where "i < unat (len div sizeof_Elf32_Sym)"
    "q = entry (base + sizeof_Elf32_Sym * off) sizeof_Elf32_Sym i"
    "do { str_offset \<leftarrow> Elf32_sh_offset m str; st_name \<leftarrow> Elf32_st_name m q;
          str_at m (base + str_offset + st_name) name } = Some True"
    using scan_SomeD [OF walk] by blast
  moreover have "entry (base + sizeof_Elf32_Sym * off) sizeof_Elf32_Sym i =
      entry (base + off) sizeof_Elf32_Sym i + 15 * off"
    by (simp add: entry_def sizeof_Elf32_Sym_def algebra_simps)
  ultimately show ?thesis
    using d by (auto simp: bind_simps)
qed

definition example_elf :: mem32 where
  "example_elf = image [(4124, 52), (4128, 128), (4140, 2), (4144, 2), (4148, 1), (4156, 16),
     (4172, 1), (4180, 1), (4188, 32), (4204, 2), (4228, 11), (4241, 1), (4244, 16), (4248, 1),
     (4281, 2)]"

lemmas elf_eval = Elf32_fields Elf64_fields load_compute image_simps
  sizeof_Elf32_Phdr_def sizeof_Elf32_Shdr_def sizeof_Elf32_Sym_def sizeof_Elf32_Rel_def
  PT_LOAD_def PF_X_def PF_W_def SHT_REL_def SHT_DYNSYM_def ELF32_R_SYM_def

lemma example_elf_segments:
  "lop_ehdr ptr = 4096 \<Longrightarrow> lop_segments example_elf 0 4148 0 ptr =
    Some (2, ptr\<lparr> lop_textvaddr := 16, lop_datavaddr := 32 \<rparr>)"
  by (subst lop_segments.simps, simp add: example_elf_def elf_eval lop_segment_def)
     (subst lop_segments.simps, simp add: example_elf_def elf_eval lop_segment_def,
      subst lop_segments.simps, simp add: elf_eval)

lemma example_elf_shdr:
  "Elf32_e_shoff example_elf 4096 = Some 128" "Elf32_e_shnum example_elf 4096 = Some 2"
  "Elf32_e_phoff example_elf 4096 = Some 52" "Elf32_sh_type example_elf 4224 = Some 11"
  "Elf32_sh_type example_elf 4264 = Some 0" "Elf32_sh_link example_elf 4224 = Some 1"
  "Elf32_sh_size example_elf 4224 = Some 16" "Elf32_sh_offset example_elf 4224 = Some 256"
  "Elf32_sh_offset example_elf 4264 = Some 512" "Elf32_st_name example_elf 4352 = Some 0"
  "Elf32_st_value example_elf 4352 = Some 0" "Elf32_st_info example_elf 4352 = Some 0"
  "Elf32_st_other example_elf 4352 = Some 0" "example_elf 4608 = Some 0"
  by (simp_all add: example_elf_def elf_eval)

lemma example_elf_dynsym:
  "lop_get_section_by_type example_elf 4096 SHT_DYNSYM = Some (Some 4224)"
  "lop_get_section_dynstr_tab example_elf 4096 4224 = Some 4264"
  by (simp_all add: lop_get_section_by_type_def lop_get_section_dynstr_tab_def example_elf_shdr
    SHT_DYNSYM_def sizeof_Elf32_Shdr_def scan_numeral)

lemma example_elf_rel:
  "lop_ehdr ptr = 4096 \<Longrightarrow> lop_shdr ptr = 4224 \<Longrightarrow> lop_find_rel_by_sym example_elf ptr 0 i = Some None"
  by (simp add: lop_find_rel_by_sym_def lop_find_rel_section_def example_elf_shdr SHT_REL_def
    sizeof_Elf32_Shdr_def search_numeral)

lemma example_elf_init: "\<exists>ptr. lop_init_info example_elf 4096 = Some (Inr (0, ptr))"
  by (simp add: lop_init_info_def lop_read_segment_info_def Let_def example_elf_shdr example_elf_dynsym
    example_elf_segments lop_read_dynsym_section_def lop_build_plt_table_def sizeof_Elf32_Sym_def
    LOP_MAX_DYNSYM_def example_elf_rel)

theorem lop_init_info_correct_witness:
  "\<exists>ptr. lop_init_info example_elf 4096 = Some (Inr (0, ptr)) \<and> lop_ehdr ptr = 4096 \<and> lop_phdr ptr = 4148"
proof -
  obtain ptr where p: "lop_init_info example_elf 4096 = Some (Inr (0, ptr))"
    using example_elf_init by blast
  from lop_init_info_correct [OF p] p show ?thesis by (auto simp: example_elf_shdr)
qed

theorem lop_get_section_by_type_find_witness:
  "lop_get_section_by_type example_elf 4096 0 = Some (Some 4264)"
proof -
  have "\<forall>i<unat (2 :: u16). Elf32_sh_type example_elf (entry (4096 + 128) sizeof_Elf32_Shdr i) =
      Some ([11, 0] ! i)"
    by (simp add: all_less_numeral entry_def sizeof_Elf32_Shdr_def example_elf_shdr)
  from lop_get_section_by_type_find [OF example_elf_shdr(1,2) this, of 0]
  show ?thesis by (simp add: upt_rec entry_def sizeof_Elf32_Shdr_def)
qed

theorem lop_read_segment_info_first_two_witness:
  "lop_read_segment_info example_elf
     (lop_info_zero\<lparr> lop_ehdr := 4096, lop_phdr := 4148 \<rparr>) =
   Some (0, lop_info_zero\<lparr> lop_ehdr := 4096, lop_phdr := 4148, lop_textvaddr := 16, lop_datavaddr := 32 \<rparr>)"
proof -
  have n: "Elf32_e_phnum example_elf (lop_ehdr (lop_info_zero\<lparr> lop_ehdr := 4096, lop_phdr := 4148 \<rparr>)) = Some 2"
    by (simp add: example_elf_def elf_eval)
  have "\<forall>k<unat (2 :: u16). segment_of example_elf (entry (lop_phdr (lop_info_zero\<lparr> lop_ehdr := 4096, lop_phdr := 4148 \<rparr>))
      sizeof_Elf32_Phdr k) = Some ([Some (Text, 16), Some (Data, 32)] ! k)"
    by (simp add: all_less_numeral entry_def segment_of_def example_elf_def elf_eval)
  from lop_read_segment_info_first_two [OF n _ this]
  show ?thesis by (simp add: map_filter_simps upt_rec)
qed

theorem lop_read_segment_info_wraps_witness:
  "lop_read_segment_info (\<lambda>_. Some 1) lop_info_zero = None"
proof -
  have n: "Elf32_e_phnum (\<lambda>_. Some 1) (lop_ehdr lop_info_zero) = Some 257"
    by (simp add: elf_eval)
  have "segment_of (\<lambda>_. Some 1) p = Some None" for p
    by (simp add: segment_of_def elf_eval)
  then show ?thesis
    using lop_read_segment_info_wraps [OF n] by simp
qed

text \<open>One section, of relocations, with room for one; the second one it is searched for lies beyond.\<close>

definition example_rels :: mem32 where
  "example_rels = image [(48, 1), (104, 9), (116, 128), (120, 8), (141, 7)]"

definition example_rels_info :: lop_info where
  "example_rels_info = lop_info_zero\<lparr> lop_shdr := 100 \<rparr>"

theorem lop_find_rel_by_sym_first_witness:
  "lop_find_rel_by_sym example_rels example_rels_info 0 7 = Some (Some 136) \<and>
   Elf32_sh_size example_rels 100 = Some 8"
proof -
  have i: "lop_ehdr example_rels_info = 0" "lop_shdr example_rels_info = 100"
    by (simp_all add: example_rels_info_def lop_info_zero_def)
  have f: "Elf32_e_shnum example_rels (lop_ehdr example_rels_info) = Some 1"
    "\<forall>j<unat (1 :: u16). Elf32_sh_type example_rels (entry (lop_shdr example_rels_info) sizeof_Elf32_Shdr j) = Some SHT_REL"
    "\<forall>j<unat (1 :: u16). Elf32_sh_link example_rels (entry (lop_shdr example_rels_info) sizeof_Elf32_Shdr j) = Some 0"
    "\<forall>j<unat (1 :: u16). Elf32_sh_offset example_rels (entry (lop_shdr example_rels_info) sizeof_Elf32_Shdr j) = Some 128"
    by (simp_all add: i example_rels_def elf_eval)
  have r: "\<forall>j<unat (1 :: u16). SHT_REL = SHT_REL \<and> (0 :: u32) = 0 \<longrightarrow> (\<forall>k<unat (128 :: u32) div 8.
      Elf32_r_info example_rels (entry (lop_ehdr example_rels_info + 128) sizeof_Elf32_Rel k) =
      Some (if k = 1 then 7 * 256 else 0))"
    by (simp add: i all_less_numeral entry_def example_rels_def elf_eval)
  from lop_find_rel_by_sym_first [where types = "\<lambda>_. SHT_REL" and links = "\<lambda>_. 0" and offs = "\<lambda>_. 128"
      and info = "\<lambda>_ k. if k = 1 then 7 * 256 else 0", OF f r, of 7]
  show ?thesis
    by (simp add: i map_filter_simps upt_rec first_def entry_def) (simp add: example_rels_def elf_eval)
qed

definition example_syms :: mem32 where
  "example_syms = image [(32, 64), (48, 2), (68, 11), (80, 240), (84, 16), (88, 1), (120, 2), (121, 1),
     (348, 97), (3840, 90)]"

lemma example_syms_by_name: "lop_get_dynsym_by_name example_syms 0 [97] = Some (Some 3840)"
  by (simp add: lop_get_dynsym_by_name_def lop_get_section_by_type_def lop_get_section_dynstr_tab_def
    scan_numeral example_syms_def elf_eval)

theorem lop_get_dynsym_by_name_scaled_witness:
  "\<exists>dyn off. Elf32_sh_offset example_syms dyn = Some off \<and> 3840 = entry off sizeof_Elf32_Sym 0 + 15 * off"
proof -
  obtain dyn str off len i where d: "lop_get_section_by_type example_syms 0 SHT_DYNSYM = Some (Some dyn)"
    "Elf32_sh_offset example_syms dyn = Some off" "Elf32_sh_size example_syms dyn = Some len"
    "i < unat (len div sizeof_Elf32_Sym)" "3840 = entry (0 + off) sizeof_Elf32_Sym i + 15 * off"
    using lop_get_dynsym_by_name_scaled [OF example_syms_by_name] by blast
  then have "dyn = 64"
    by (simp add: lop_get_section_by_type_def scan_numeral example_syms_def elf_eval)
  then have "len = 16" using d(3) by (simp add: example_syms_def elf_eval)
  then have "i = 0" using d(4) by (simp add: sizeof_Elf32_Sym_def)
  then show ?thesis using d(2,5) by auto
qed
lemma strncpy_bytes_str_at:
  "strncpy_bytes m a n = Some bs \<Longrightarrow> 0 \<in> set bs \<Longrightarrow> str_at m a (takeWhile (\<lambda>b. b \<noteq> 0) bs) = Some True"
proof (induction n arbitrary: a bs)
  case 0
  then show ?case by simp
next
  case (Suc n)
  then obtain b where b: "m a = Some b" by (auto simp: bind_simps)
  show ?case
  proof (cases "b = 0")
    case True
    then show ?thesis using Suc.prems(1) b by auto
  next
    case False
    then obtain bs' where "strncpy_bytes m (a + 1) n = Some bs'" "bs = b # bs'"
      using Suc.prems(1) b by (auto simp: bind_simps)
    then show ?thesis using Suc.IH Suc.prems(2) b False by auto
  qed
qed

section \<open>The symbol resolver\<close>

text \<open>
  C10: sym_resolv_open returns 0 holding a descriptor and a mapping that sym_resolv_close
  gives back, or -1 holding nothing new, except when the kernel hands out descriptor 0, which
  is taken for a failure and stays open.
\<close>

theorem sym_resolv_open_unwinds:
  assumes "sym_resolv_open K m pid desc held = Some (r, d, m', held')"
  shows "r = 0 \<and> sym_resolv_close d held' = held \<or>
    r = - 1 \<and> (held' = held \<or>
      (\<exists>fd\<le>0. k_open K (proc_file (decimal_int pid) ''exe'') = Inr fd \<and> held' = Fd fd # held))"
  using sym_resolv_open_resources [OF assms] by (auto split: sum.split_asm if_split_asm)

text \<open>
  C11: resolving an address gives the value of the first symbol that covers it, and looking up
  the name it gives (when it fits into the 512 bytes) finds a symbol of that name, the same
  one or one before it in the table.
\<close>

theorem sym_resolv_addr_symbol:
  assumes "sym_resolv_get_funcname_by_addr m (Some d) addr res = Some (True, res')"
    and "0 \<in> set (sr_symname res')"
    and "sym_resolv_symbol m d (takeWhile (\<lambda>b. b \<noteq> 0) (sr_symname res')) = Some r"
  shows "\<exists>symtab strtab off stroff i j nm.
    sr_shdrsymtab d = Some symtab \<and> sr_shdrstrsymtab d = Some strtab \<and>
    Elf32_sh_offset m symtab = Some off \<and> Elf32_sh_offset m strtab = Some stroff \<and>
    j \<le> i \<and> covers m addr (entry (sr_mem d + off) sizeof_Elf32_Sym i) = Some True \<and>
    (\<forall>k<i. covers m addr (entry (sr_mem d + off) sizeof_Elf32_Sym k) = Some False) \<and>
    Elf32_st_value m (entry (sr_mem d + off) sizeof_Elf32_Sym i) = Some (sr_symaddr res') \<and>
    r = Some (entry (sr_mem d + off) sizeof_Elf32_Sym j) \<and>
    Elf32_st_name m (entry (sr_mem d + off) sizeof_Elf32_Sym j) = Some nm \<and>
    str_at m (sr_mem d + stroff + nm) (takeWhile (\<lambda>b. b \<noteq> 0) (sr_symname res')) = Some True"
proof -
  obtain symtab strtab where t: "sr_shdrsymtab d = Some symtab" "sr_shdrstrsymtab d = Some strtab"
    using assms(1) by (auto simp: sym_resolv_get_funcname_by_addr_def split: option.split_asm)
  note g = assms(1) [unfolded sym_resolv_get_funcname_by_addr_def sym_resolv_sectionhdr_to_section_def option.case t prod.case]
  obtain off stroff len symb where o: "Elf32_sh_offset m symtab = Some off"
    "Elf32_sh_offset m strtab = Some stroff" "Elf32_sh_size m symtab = Some len"
    and walk: "scan (unat (len div sizeof_Elf32_Sym)) sizeof_Elf32_Sym (covers m addr) (sr_mem d + off) = Some (Some symb)"
    and rest: "do { st_name \<leftarrow> Elf32_st_name m symb;
         name \<leftarrow> strncpy_bytes m (sr_mem d + stroff + st_name) SR_SYMNAME;
         st_value \<leftarrow> Elf32_st_value m symb;
         Some (True, res\<lparr> sr_symname := name, sr_symaddr := st_value \<rparr>) } = Some (True, res')"
    using g by (auto simp: bind_eq_Some_conv) (auto simp: bind_eq_Some_conv split: option.split_asm)
  obtain i where i: "i < unat (len div sizeof_Elf32_Sym)" "symb = entry (sr_mem d + off) sizeof_Elf32_Sym i"
    "covers m addr symb = Some True"
    "\<forall>k<i. covers m addr (entry (sr_mem d + off) sizeof_Elf32_Sym k) = Some False"
    using scan_SomeD [OF walk] by blast
  obtain nm name v where n: "Elf32_st_name m symb = Some nm"
    "strncpy_bytes m (sr_mem d + stroff + nm) SR_SYMNAME = Some name" "Elf32_st_value m symb = Some v"
    "res' = res\<lparr> sr_symname := name, sr_symaddr := v \<rparr>"
    using rest by (auto simp: bind_eq_Some_conv)
  define nam where "nam = takeWhile (\<lambda>b. b \<noteq> 0) (sr_symname res')"
  have same: "str_at m (sr_mem d + stroff + nm) nam = Some True"
    using strncpy_bytes_str_at [OF n(2)] assms(2) n(4) by (simp add: nam_def)
  have "scan (unat (len div sizeof_Elf32_Sym)) sizeof_Elf32_Sym
      (\<lambda>walker. do { st_name \<leftarrow> Elf32_st_name m walker; str_at m (sr_mem d + stroff + st_name) nam })
      (sr_mem d + off) = Some r"
    using assms(3) t o by (simp add: sym_resolv_symbol_def sym_resolv_sectionhdr_to_section_def nam_def)
  from scan_hits [OF this i(1)] obtain j where j: "j \<le> i" "r = Some (entry (sr_mem d + off) sizeof_Elf32_Sym j)"
    "do { st_name \<leftarrow> Elf32_st_name m (entry (sr_mem d + off) sizeof_Elf32_Sym j);
          str_at m (sr_mem d + stroff + st_name) nam } = Some True"
    using n(1) i(2) same by auto
  then obtain nmj where "Elf32_st_name m (entry (sr_mem d + off) sizeof_Elf32_Sym j) = Some nmj"
    "str_at m (sr_mem d + stroff + nmj) nam = Some True"
    by (auto simp: bind_eq_Some_conv)
  then show ?thesis
    using t o i j n(3,4) unfolding nam_def by (intro exI conjI) auto
qed

text \<open>The type of a result: the array of its name has \<open>SR_SYMNAME\<close> bytes.\<close>

definition sym_resolv_wf :: "sym_resolv \<Rightarrow> bool" where
  "sym_resolv_wf r \<longleftrightarrow> length (sr_symname r) = SR_SYMNAME"

lemma sym_resolv_get_funcname_wf:
  assumes "sym_resolv_get_funcname_by_addr m desc addr res = Some (b, res')" "sym_resolv_wf res"
  shows "sym_resolv_wf res'"
  using assms by (auto simp: sym_resolv_get_funcname_by_addr_def sym_resolv_wf_def
    dest: strncpy_bytes_length split: Option.bind_split_asm option.split_asm)

lemma sym_resolv_addr_1_wf:
  assumes "sym_resolv_addr_1 dladdr m desc addr res = Some res'" "sym_resolv_wf res"
  shows "sym_resolv_wf res'"
proof -
  have "length (strncpy_name s n) = n" for s n by (simp add: strncpy_name_def)
  then show ?thesis
    using assms sym_resolv_get_funcname_wf [OF _ assms(2)]
    by (auto simp: sym_resolv_addr_1_def bind_eq_Some_conv sym_resolv_wf_def
      split: if_split_asm option.split_asm prod.split_asm)
qed

text \<open>One address: a symbol of the table, the answer of \<open>dladdr\<close>, or an empty name.\<close>

lemma sym_resolv_addr_1_cases:
  assumes "sym_table m desc syms names n" "sym_resolv_addr_1 dladdr m desc addr res = Some res'"
  shows "(\<exists>name v. names_address m syms names n addr name v \<and>
      res' = res\<lparr> sr_symname := name, sr_symaddr := v \<rparr>) \<or>
    (\<forall>i<n. covers m addr (entry syms sizeof_Elf32_Sym i) = Some False) \<and>
    res' = (case dladdr addr of
      Some (saddr, Some sname) \<Rightarrow> res\<lparr> sr_symname := strncpy_name sname SR_SYMNAME, sr_symaddr := saddr \<rparr>
    | _ \<Rightarrow> res\<lparr> sr_symname := (sr_symname res)[0 := 0] \<rparr>)"
proof -
  have "\<exists>p. sym_resolv_get_funcname_by_addr m (Some desc) addr res = Some p \<and>
    (if fst p then Some (snd p) else (case dladdr addr of
       Some (saddr, Some sname) \<Rightarrow> Some (res\<lparr> sr_symname := strncpy_name sname SR_SYMNAME, sr_symaddr := saddr \<rparr>)
     | _ \<Rightarrow> Some (res\<lparr> sr_symname := (sr_symname res)[0 := 0] \<rparr>))) = Some res'"
    using assms(2) by (simp add: sym_resolv_addr_1_def bind_eq_Some_conv)
  then obtain b r1 where r: "sym_resolv_get_funcname_by_addr m (Some desc) addr res = Some (b, r1)"
    "(if b then Some r1 else (case dladdr addr of
       Some (saddr, Some sname) \<Rightarrow> Some (res\<lparr> sr_symname := strncpy_name sname SR_SYMNAME, sr_symaddr := saddr \<rparr>)
     | _ \<Rightarrow> Some (res\<lparr> sr_symname := (sr_symname res)[0 := 0] \<rparr>))) = Some res'"
    by (metis prod.collapse)
  from assms(1) r(1) show ?thesis
  proof (cases rule: sym_resolv_get_funcname_cases)
    case (1 name v)
    then show ?thesis using r(2) by auto
  next
    case 2
    then show ?thesis using r(2) by (auto split: option.splits prod.splits)
  qed
qed

text \<open>
  C12: whenever the reads of sym_resolv_addr on an opened symbol table are inside the mapping,
  it returns 0, and each of the first tablen results gets, for its own address, the name
  (copied with strncpy) and the value of the first symbol of the table that covers it; where
  no symbol does, the name and address dladdr answers, or just an empty name when dladdr knows
  no symbol or one without a name. The other results are unchanged, the array keeps its length
  and every name its 512 bytes.
\<close>

theorem sym_resolv_addr_typed:
  assumes "sym_resolv_addr dladdr m desc addrs res tablen = Some (r, res')"
    and "\<forall>x\<in>set res. sym_resolv_wf x" "sym_table m desc syms names n"
  shows "r = 0 \<and> length res' = length res \<and> (\<forall>x\<in>set res'. sym_resolv_wf x) \<and>
    (\<forall>k\<ge>tablen. res' ! k = res ! k) \<and>
    (\<forall>k<tablen.
      (\<exists>name v. names_address m syms names n (addrs ! k) name v \<and>
         res' ! k = (res ! k)\<lparr> sr_symname := name, sr_symaddr := v \<rparr>) \<or>
      (\<forall>i<n. covers m (addrs ! k) (entry syms sizeof_Elf32_Sym i) = Some False) \<and>
      res' ! k = (case dladdr (addrs ! k) of
        Some (saddr, Some sname) \<Rightarrow>
          (res ! k)\<lparr> sr_symname := strncpy_name sname SR_SYMNAME, sr_symaddr := saddr \<rparr>
      | _ \<Rightarrow> (res ! k)\<lparr> sr_symname := (sr_symname (res ! k))[0 := 0] \<rparr>))"
proof -
  have nth: "r = 0" "length res' = length res" "tablen = 0 \<or> tablen \<le> length res"
    "\<forall>k<tablen. sym_resolv_addr_1 dladdr m desc (addrs ! k) (res ! k) = Some (res' ! k)"
    "\<forall>k\<ge>tablen. res' ! k = res ! k"
    using assms(1) sym_resolv_addr_from_nth [of tablen 0 dladdr m desc addrs res res']
    by (auto simp: sym_resolv_addr_def bind_eq_Some_conv)
  have "sym_resolv_wf (res' ! k)" if "k < length res'" for k
  proof (cases "k < tablen")
    case True
    then show ?thesis
      using nth that assms(2) sym_resolv_addr_1_wf [of dladdr m desc "addrs ! k" "res ! k" "res' ! k"] by simp
  next
    case False
    then show ?thesis using nth that assms(2) by simp
  qed
  then have "\<forall>x\<in>set res'. sym_resolv_wf x" by (auto simp: in_set_conv_nth)
  then show ?thesis
    using nth(1,2,5) nth(4) [rule_format, THEN sym_resolv_addr_1_cases [OF assms(3)]] by blast
qed

section \<open>The 64-bit reader\<close>

text \<open>Binding 1 is \<open>STB_GLOBAL\<close>, type 0 is \<open>STT_NOTYPE\<close>.\<close>

lemma global_notype: "ELF64_ST_BIND i = 1 \<and> ELF64_ST_TYPE i = 0 \<longleftrightarrow> i = 0x10"
proof
  have "(i AND 0xf) = take_bit 4 i" by (simp add: take_bit_eq_mask mask_eq_exp_minus_1)
  moreover assume "ELF64_ST_BIND i = 1 \<and> ELF64_ST_TYPE i = 0"
  ultimately have "push_bit 4 1 + 0 = i"
    using bits_ident [of 4 i] by (simp add: ELF64_ST_BIND_def ELF64_ST_TYPE_def)
  then show "i = 0x10" by simp
qed (simp add: ELF64_ST_BIND_def ELF64_ST_TYPE_def)

text \<open>
  C26: in a file with sections .dynsym and .dynstr whose fields can be read, and when malloc
  succeeds, dls_get_external_syms returns, in table order, one entry for each symbol that is
  global and has no type, which is st_info = 0x10 (binding 1, type 0), with the address of the
  symbol, that of its name in .dynstr, and the relocation dls_get_rel_sym finds for its index;
  every other symbol is left out, the length is the number of entries, and no store leaves the
  array.
\<close>

theorem dls_get_external_syms_filter:
  assumes "dls_get_shdr_by_name m base (bytes_of ''.dynsym'') = Some (Some s4)"
    and "dls_get_shdr_by_name m base (bytes_of ''.dynstr'') = Some (Some s5)"
    and "Elf64_sh_size m s4 = Some len" "Elf64_e_shoff m base = Some shoff"
    and "Elf64_sh_offset m s5 = Some stroff" "Elf64_sh_offset m s4 = Some off"
    and "n = nat (sint (ucast (len div sizeof_Elf64_Sym) :: u32))" "malloc_ok n"
    and "\<forall>k<n. Elf64_st_info m (entry (base + off) sizeof_Elf64_Sym k) = Some (info k)"
    and "\<forall>k<n. info k = 0x10 \<longrightarrow> Elf64_st_name m (entry (base + off) sizeof_Elf64_Sym k) = Some (nm k) \<and>
      dls_get_rel_sym m base (sint (ucast ((s4 - (base + shoff)) div sizeof_Elf64_Shdr) :: u32)) (int k) = Some (rel k)"
    and "ks = filter (\<lambda>k. info k = 0x10) [0..<n]"
  shows "dls_get_external_syms malloc_ok m base = Some (int (length ks), \<lparr> des_len = int (length ks),
    des_array = map (\<lambda>k. \<lparr> de_rel = rel k, de_name = base + stroff + ucast (nm k),
      de_sym = entry (base + off) sizeof_Elf64_Sym k \<rparr>) ks \<rparr>)"
proof -
  let ?e = "\<lambda>k. \<lparr> de_rel = rel k, de_name = base + stroff + ucast (nm k),
      de_sym = entry (base + off) sizeof_Elf64_Sym k \<rparr>"
  let ?es = "\<lambda>k. if info k = 0x10 then Some (?e k) else None"
  have at: "\<forall>k<n. dls_external_sym_at m base
      (sint (ucast ((s4 - (base + shoff)) div sizeof_Elf64_Shdr) :: u32)) (base + stroff) (int k)
      (entry (base + off) sizeof_Elf64_Sym k) = Some (?es k)"
    using assms(9,10) by (simp add: dls_external_sym_at_def global_notype)
  have "List.map_filter ?es [0..<n] = map ?e ks"
    unfolding assms(11) by (induction n) (simp_all add: map_filter_def)
  then show ?thesis
    using assms(1-8) dls_external_from_runs [of n m base
      "sint (ucast ((s4 - (base + shoff)) div sizeof_Elf64_Shdr) :: u32)" "base + stroff" 0
      "base + off" ?es "[]" n] at
    by (simp add: dls_get_external_syms_def Let_def)
qed

text \<open>
  On readable sections dls_get_rel_sym returns the first entry for the symbol in the
  first section of relocations with addends of the symbol table that has one, where it
  searches one entry per 16 bytes of a section although each has 24; the witness finds one
  beyond the end of its section.
\<close>

theorem dls_get_rel_sym_first:
  assumes "Elf64_e_shnum m base = Some n" "Elf64_e_shoff m base = Some shoff"
    and "\<forall>j<unat n. Elf64_sh_type m (entry (base + shoff) sizeof_Elf64_Shdr j) = Some (types j)"
    and "\<forall>j<unat n. Elf64_sh_link m (entry (base + shoff) sizeof_Elf64_Shdr j) = Some (links j)"
    and "\<forall>j<unat n. Elf64_sh_offset m (entry (base + shoff) sizeof_Elf64_Shdr j) = Some (offs j)"
    and "\<forall>j<unat n. Elf64_sh_size m (entry (base + shoff) sizeof_Elf64_Shdr j) = Some (sizes j)"
    and "\<forall>j<unat n. unat (sizes j) < 2 ^ 32"
    and "\<forall>j<unat n. types j = SHT_RELA \<and> links j = of_int si \<longrightarrow> (\<forall>k<unat (sizes j) div 16.
      Elf64_r_info m (entry (base + offs j) sizeof_Elf64_Rela k) = Some (info j k))"
  shows "dls_get_rel_sym m base si i =
    Some (first (List.map_filter (\<lambda>j. if types j = SHT_RELA \<and> links j = of_int si
      then map_option (entry (base + offs j) sizeof_Elf64_Rela)
        (find (\<lambda>k. ELF64_R_SYM (info j k) = of_int i) [0..<unat (sizes j) div 16])
      else None) [0..<unat n]))"
proof -
  have num: "unat (ucast (sizes j div sizeof_Elf64_Rel) :: u32) = unat (sizes j) div 16"
    if "j < unat n" for j
  proof -
    have "unat (sizes j div sizeof_Elf64_Rel) = unat (sizes j) div 16"
      by (simp add: unat_div sizeof_Elf64_Rel_def)
    moreover have "unat (sizes j) div 16 < 2 ^ 32"
      using assms(7) that by (auto intro: le_less_trans [OF div_le_dividend])
    ultimately show ?thesis by (simp add: unsigned_ucast_eq take_bit_nat_eq_self)
  qed
  have sec: "dls_get_rel_section m base si i (entry (base + shoff) sizeof_Elf64_Shdr j) =
      Some (if types j = SHT_RELA \<and> links j = of_int si
        then map_option (entry (base + offs j) sizeof_Elf64_Rela)
          (find (\<lambda>k. ELF64_R_SYM (info j k) = of_int i) [0..<unat (sizes j) div 16])
        else None)" if j: "j < unat n" for j
  proof (cases "types j = SHT_RELA \<and> links j = of_int si")
    case True
    have "dls_get_rel_in m base (entry (base + shoff) sizeof_Elf64_Shdr j) i =
        Some (map_option (entry (base + offs j) sizeof_Elf64_Rela)
          (find (\<lambda>k. ELF64_R_SYM (info j k) = of_int i) [0..<unat (sizes j) div 16]))"
      using assms(5,6,8) j True by (simp add: dls_get_rel_in_def num) (rule scan_find, simp)
    then show ?thesis using assms(3,4) j True by (simp add: dls_get_rel_section_def)
  next
    case False
    then show ?thesis using assms(3,4) j by (auto simp: dls_get_rel_section_def)
  qed
  show ?thesis
    unfolding dls_get_rel_sym_def assms(1,2) Option.bind.simps by (rule search_first) (rule sec)
qed

text \<open>
  A failure of dls_file_open gives everything back; its error is that of the call that failed,
  unless close, which follows it, fails too.
\<close>

theorem dls_file_open_error:
  assumes "dls_file_open K m name f held = (r, f', m', held')" "r \<noteq> 0"
  shows "f' = f \<and> m' = m \<and> held' = held \<and>
    (case k_open K name of Inl e \<Rightarrow> r = - e
     | Inr fd \<Rightarrow> (case k_close K fd of
         Some e \<Rightarrow> r = - e
       | None \<Rightarrow> k_fstat K fd = Inl (- r) \<or> (\<exists>len. k_mmap K fd len = Inl (- r))))"
  using dls_file_open_cases [OF assms(1)] assms(2)
  by (auto simp: errno_after_close_def split: sum.split_asm option.split_asm option.split)

section \<open>Witnesses of the last two\<close>

lemmas elf64_eval = sizeof_Elf64_Shdr_def sizeof_Elf64_Sym_def sizeof_Elf64_Rel_def sizeof_Elf64_Rela_def
  SHT_RELA_def ELF64_R_SYM_def ELF64_ST_BIND_def ELF64_ST_TYPE_def

definition empty_desc :: sym_resolv_desc where
  "empty_desc = \<lparr> sr_fd = 0, sr_mem = 0, sr_memlen = 0, sr_pid = 0, sr_ehdr = None, sr_shdr = 0,
     sr_shdrstrsectab = 0, sr_shdrsymtab = None, sr_shdrstrsymtab = None, sr_sectionstr = 0 \<rparr>"

definition kernel_with :: "int + int \<Rightarrow> 'p kernel" where
  "kernel_with r = \<lparr> k_open = \<lambda>_. r, k_fstat = \<lambda>_. Inl 5, k_stat = \<lambda>_. None, k_mmap = \<lambda>_ _. Inl 12,
     k_close = \<lambda>_. None, k_fopen = \<lambda>_. Some 0 \<rparr>"

theorem sym_resolv_open_unwinds_witness:
  "\<exists>d m'. sym_resolv_open (kernel_with (Inr 0)) (\<lambda>_. None) 7 empty_desc [] = Some (- 1, d, m', [Fd 0])"
proof -
  obtain d m' h where o: "sym_resolv_open (kernel_with (Inr 0)) (\<lambda>_. None) 7 empty_desc [] = Some (- 1, d, m', h)"
    "h \<noteq> []"
    by (simp add: sym_resolv_open_def sym_resolv_open_pid_def sys_open_def kernel_with_def c_int_def acquire_def)
  from sym_resolv_open_unwinds [OF o(1)] o show ?thesis by (auto simp: kernel_with_def)
qed

definition example_names :: mem32 where
  "example_names = image [(116, 250), (120, 16), (216, 240), (254, 10), (258, 4), (240, 97)]"

definition example_desc :: sym_resolv_desc where
  "example_desc = empty_desc\<lparr> sr_shdrsymtab := Some 100, sr_shdrstrsymtab := Some 200 \<rparr>"

lemma example_names_covers: "covers example_names 12 250 = Some True"
  by (simp add: covers_def example_names_def elf_eval)

lemma example_names_strncpy:
  "\<exists>name. strncpy_bytes example_names 240 SR_SYMNAME = Some name \<and> 0 \<in> set name \<and>
     takeWhile (\<lambda>b. b \<noteq> 0) name = [97]"
proof -
  have "\<exists>name. strncpy_bytes example_names 240 (Suc (Suc n)) = Some name \<and> 0 \<in> set name \<and>
     takeWhile (\<lambda>b. b \<noteq> 0) name = [97]" for n
    by (simp add: example_names_def)
  from this [of 510] show ?thesis by (simp only: SR_SYMNAME_def) simp
qed

lemma example_names_fields:
  "Elf32_sh_offset example_names 100 = Some 250" "Elf32_sh_offset example_names 200 = Some 240"
  "Elf32_sh_size example_names 100 = Some 16" "Elf32_st_name example_names 250 = Some 0"
  "Elf32_st_value example_names 250 = Some 10"
  by (simp_all add: example_names_def elf_eval)

lemma example_names_addr:
  "\<exists>name. sym_resolv_get_funcname_by_addr example_names (Some example_desc) 12 \<lparr> sr_symaddr = 0, sr_symname = [] \<rparr> =
     Some (True, \<lparr> sr_symaddr = 10, sr_symname = name \<rparr>) \<and> 0 \<in> set name \<and> takeWhile (\<lambda>b. b \<noteq> 0) name = [97]"
proof -
  obtain name where "strncpy_bytes example_names 240 SR_SYMNAME = Some name" "0 \<in> set name"
    "takeWhile (\<lambda>b. b \<noteq> 0) name = [97]"
    using example_names_strncpy by blast
  then show ?thesis
    by (simp add: sym_resolv_get_funcname_by_addr_def sym_resolv_sectionhdr_to_section_def example_desc_def
      empty_desc_def example_names_fields example_names_covers sizeof_Elf32_Sym_def)
qed

lemma example_names_symbol: "sym_resolv_symbol example_names example_desc [97] = Some (Some 250)"
  by (simp add: sym_resolv_symbol_def sym_resolv_sectionhdr_to_section_def example_desc_def
    empty_desc_def example_names_def elf_eval)

theorem sym_resolv_addr_symbol_witness:
  "\<exists>i. covers example_names 12 (entry 250 sizeof_Elf32_Sym i) = Some True"
proof -
  obtain name where n: "sym_resolv_get_funcname_by_addr example_names (Some example_desc) 12
      \<lparr> sr_symaddr = 0, sr_symname = [] \<rparr> = Some (True, \<lparr> sr_symaddr = 10, sr_symname = name \<rparr>)"
    "0 \<in> set name" "takeWhile (\<lambda>b. b \<noteq> 0) name = [97]"
    using example_names_addr by blast
  have off: "Elf32_sh_offset example_names 100 = Some 250"
    by (simp add: example_names_def elf_eval)
  show ?thesis
    using sym_resolv_addr_symbol [OF n(1)] n example_names_symbol
    by (auto simp: example_desc_def empty_desc_def off)
qed

text \<open>The first address is in the symbol of the table, the others are not; \<open>dladdr\<close> names one of them.\<close>

definition example_dladdr :: dladdr_t where
  "example_dladdr a = (if a = 50 then Some (48, Some [102, 49]) else if a = 60 then Some (60, None) else None)"

theorem sym_resolv_addr_typed_witness:
  "\<exists>res'. sym_resolv_addr example_dladdr example_names example_desc [12, 50, 60] (replicate 3 \<lparr> sr_symaddr = 0, sr_symname = replicate 512 1 \<rparr>) 3 = Some (0, res') \<and>
     sr_symaddr (res' ! 0) = 10 \<and> takeWhile (\<lambda>b. b \<noteq> 0) (sr_symname (res' ! 0)) = [97] \<and>
     res' ! 1 = \<lparr> sr_symaddr = 48, sr_symname = strncpy_name [102, 49] 512 \<rparr> \<and>
     res' ! 2 = \<lparr> sr_symaddr = 0, sr_symname = (replicate 512 1)[0 := 0] \<rparr>"
proof -
  let ?r = "\<lparr> sr_symaddr = 0, sr_symname = replicate 512 (1 :: byte) \<rparr>"
  obtain bs where bs: "strncpy_bytes example_names 240 SR_SYMNAME = Some bs" "takeWhile (\<lambda>b. b \<noteq> 0) bs = [97]"
    using example_names_strncpy by blast
  have tab: "sym_table example_names example_desc 250 240 1"
    by (simp add: sym_table_def example_desc_def empty_desc_def example_names_fields sizeof_Elf32_Sym_def)
  have cov: "covers example_names 50 250 = Some False" "covers example_names 60 250 = Some False"
    by (simp_all add: covers_def example_names_def elf_eval)
  have three: "3 = Suc (Suc (Suc 0))" by simp
  obtain res' where run: "sym_resolv_addr example_dladdr example_names example_desc [12, 50, 60] (replicate 3 ?r) 3 = Some (0, res')"
    unfolding sym_resolv_addr_def three sym_resolv_addr_from.simps
    by (simp add: sym_resolv_addr_1_def sym_resolv_get_funcname_table [OF tab] example_names_covers cov
      example_names_fields bs example_dladdr_def)
  have wf: "\<forall>x\<in>set (replicate 3 ?r). sym_resolv_wf x" by (simp add: sym_resolv_wf_def SR_SYMNAME_def)
  note t = sym_resolv_addr_typed [OF run wf tab, THEN conjunct2, THEN conjunct2, THEN conjunct2, THEN conjunct2, rule_format]
  have "res' ! 0 = ?r\<lparr> sr_symname := bs, sr_symaddr := 10 \<rparr>"
    using t [of 0] bs example_names_covers example_names_fields by (auto simp: names_address_def)
  moreover have "res' ! 1 = ?r\<lparr> sr_symname := strncpy_name [102, 49] SR_SYMNAME, sr_symaddr := 48 \<rparr>"
    "res' ! 2 = ?r\<lparr> sr_symname := (replicate 512 1)[0 := 0] \<rparr>"
    using t [of 1] t [of 2] cov by (auto simp: names_address_def example_dladdr_def)
  ultimately show ?thesis using run bs by (simp add: SR_SYMNAME_def)
qed

definition example_elf64 :: mem64 where
  "example_elf64 = image [(40, 64), (60, 2), (62, 1), (64, 1), (128, 9), (153, 1), (89, 2), (96, 24),
     (257, 46), (258, 100), (259, 121), (260, 110), (261, 115), (262, 121), (263, 109),
     (265, 46), (266, 100), (267, 121), (268, 110), (269, 115), (270, 116), (271, 114), (516, 16)]"

lemma example_elf64_shdr:
  "Elf64_e_shoff example_elf64 0 = Some 64" "Elf64_e_shnum example_elf64 0 = Some 2"
  "Elf64_e_shstrndx example_elf64 0 = Some 1" "Elf64_sh_name example_elf64 64 = Some 1"
  "Elf64_sh_name example_elf64 128 = Some 9" "Elf64_sh_offset example_elf64 64 = Some 512"
  "Elf64_sh_offset example_elf64 128 = Some 256" "Elf64_sh_size example_elf64 64 = Some 24"
  "Elf64_sh_type example_elf64 64 = Some 0" "Elf64_sh_type example_elf64 128 = Some 0"
  "Elf64_st_info example_elf64 512 = Some 16" "Elf64_st_name example_elf64 512 = Some 0"
  by (simp_all add: example_elf64_def elf_eval)

lemma example_elf64_sections:
  "dls_get_shdr_by_name example_elf64 0 (bytes_of ''.dynsym'') = Some (Some 64)"
  "dls_get_shdr_by_name example_elf64 0 (bytes_of ''.dynstr'') = Some (Some 128)"
proof -
  have s: "str_at example_elf64 257 (bytes_of ''.dynsym'') = Some True"
    "str_at example_elf64 257 (bytes_of ''.dynstr'') = Some False"
    "str_at example_elf64 265 (bytes_of ''.dynstr'') = Some True"
    by (simp_all add: bytes_of_def example_elf64_def)
  show "dls_get_shdr_by_name example_elf64 0 (bytes_of ''.dynsym'') = Some (Some 64)"
    "dls_get_shdr_by_name example_elf64 0 (bytes_of ''.dynstr'') = Some (Some 128)"
    using s by (simp_all add: dls_get_shdr_by_name_def dls_file_get_section_strings_def example_elf64_shdr
      sizeof_Elf64_Shdr_def scan_numeral)
qed


theorem dls_get_external_syms_filter_witness:
  "dls_get_external_syms (\<lambda>_. True) example_elf64 0 =
   Some (1, \<lparr> des_len = 1, des_array = [\<lparr> de_rel = None, de_name = 256, de_sym = 512 \<rparr>] \<rparr>)"
proof -
  have rel: "dls_get_rel_sym example_elf64 0 0 0 = Some None"
    by (simp add: dls_get_rel_sym_def dls_get_rel_section_def example_elf64_shdr elf64_eval search_numeral)
  have "dls_get_external_syms (\<lambda>_. True) example_elf64 0 = Some (int (length [0 :: nat]),
    \<lparr> des_len = int (length [0 :: nat]), des_array = map (\<lambda>k. \<lparr> de_rel = None, de_name = 0 + 256 + ucast (0 :: u32),
      de_sym = entry (0 + 512) sizeof_Elf64_Sym k \<rparr>) [0 :: nat] \<rparr>)"
    by (rule dls_get_external_syms_filter [OF example_elf64_sections example_elf64_shdr(8,1,7,6),
      where n = 1 and info = "\<lambda>_. 0x10" and nm = "\<lambda>_. 0" and rel = "\<lambda>_. None"])
      (simp_all add: rel example_elf64_shdr elf64_eval)
  then show ?thesis by simp
qed

text \<open>One section, of two relocations; the third one the loop reads lies beyond it.\<close>

definition example_rela :: mem64 where
  "example_rela = image [(40, 80), (60, 1), (84, 4), (104, 160), (112, 48), (220, 7)]"

theorem dls_get_rel_sym_first_witness:
  "dls_get_rel_sym example_rela 0 0 7 = Some (Some 208) \<and> 160 + 48 = (208 :: u64)"
proof -
  have f: "Elf64_e_shnum example_rela 0 = Some 1" "Elf64_e_shoff example_rela 0 = Some 80"
    "\<forall>j<unat (1 :: u16). Elf64_sh_type example_rela (entry (0 + 80) sizeof_Elf64_Shdr j) = Some SHT_RELA"
    "\<forall>j<unat (1 :: u16). Elf64_sh_link example_rela (entry (0 + 80) sizeof_Elf64_Shdr j) = Some 0"
    "\<forall>j<unat (1 :: u16). Elf64_sh_offset example_rela (entry (0 + 80) sizeof_Elf64_Shdr j) = Some 160"
    "\<forall>j<unat (1 :: u16). Elf64_sh_size example_rela (entry (0 + 80) sizeof_Elf64_Shdr j) = Some 48"
    "\<forall>j<unat (1 :: u16). unat (48 :: u64) < 2 ^ 32"
    by (simp_all add: example_rela_def elf_eval elf64_eval)
  have r: "\<forall>j<unat (1 :: u16). SHT_RELA = SHT_RELA \<and> (0 :: u32) = of_int 0 \<longrightarrow> (\<forall>k<unat (48 :: u64) div 16.
      Elf64_r_info example_rela (entry (0 + 160) sizeof_Elf64_Rela k) = Some (if k = 2 then 7 * 2 ^ 32 else 0))"
    by (simp add: all_less_numeral entry_def example_rela_def elf_eval elf64_eval)
  from dls_get_rel_sym_first [where types = "\<lambda>_. SHT_RELA" and links = "\<lambda>_. 0" and offs = "\<lambda>_. 160"
      and sizes = "\<lambda>_. 48" and info = "\<lambda>_ k. if k = 2 then 7 * 2 ^ 32 else 0", OF f r, of 7]
  show ?thesis by (simp add: map_filter_simps upt_rec first_def entry_def elf64_eval)
qed

theorem dls_file_open_error_witness:
  "dls_file_open (kernel_with (Inr 3)) (\<lambda>_. None) ''x'' \<lparr> df_fd = 0, df_map = 0, df_size = 0 \<rparr> [] =
   (- 5, \<lparr> df_fd = 0, df_map = 0, df_size = 0 \<rparr>, \<lambda>_. None, [])"
proof -
  obtain r f m h where o: "dls_file_open (kernel_with (Inr 3)) (\<lambda>_. None) ''x''
      \<lparr> df_fd = 0, df_map = 0, df_size = 0 \<rparr> [] = (r, f, m, h)" "r = - 5"
    by (simp add: dls_file_open_def sys_open_def kernel_with_def errno_after_close_def)
  with dls_file_open_error [OF o(1)] show ?thesis by simp
qed

section \<open>Sessions\<close>

text \<open>
  Any sequence of sessions of the symbol resolver or of the 64-bit reader, each opened and, if
  that succeeded, closed, leaves the descriptors and mappings the process holds as they were,
  whatever the kernel answers.
\<close>

theorem sessions_give_back:
  assumes "\<forall>k\<in>set ks. sr_ok k" "sr.sessions ks held = Some held'"
    and "\<forall>k\<in>set ks2. dls_ok k" "dls.sessions ks2 held2 = Some held2'"
  shows "held' = held \<and> held2' = held2"
  using sr.sessions_leak_nothing [OF assms(1,2)] dls.sessions_leak_nothing [OF assms(3,4)] by simp

definition small_kernel :: "u64 kernel" where
  "small_kernel = \<lparr> k_open = \<lambda>_. Inr 3, k_fstat = \<lambda>_. Inr 9, k_stat = \<lambda>_. None,
     k_mmap = \<lambda>_ _. Inr (4096, \<lambda>_. Some 0), k_close = \<lambda>_. None, k_fopen = \<lambda>_. None \<rparr>"

theorem sessions_give_back_witness:
  "\<exists>h h2. sr.sessions [(kernel_with (Inr 3), \<lambda>_. None, 7, empty_desc)] [Fd 1] = Some h \<and>
    dls.sessions [(small_kernel, \<lambda>_. None, ''x'', \<lparr> df_fd = 0, df_map = 0, df_size = 0 \<rparr>)] [Fd 2] = Some h2 \<and>
    h = [Fd 1] \<and> h2 = [Fd 2]"
proof -
  let ?k = "[(kernel_with (Inr 3), \<lambda>_. None, 7, empty_desc)] :: sr_env list"
  let ?k2 = "[(small_kernel, \<lambda>_. None, ''x'', \<lparr> df_fd = 0, df_map = 0, df_size = 0 \<rparr>)] :: dls_env list"
  obtain h where h: "sr.sessions ?k [Fd 1] = Some h"
    by (simp add: sr_session_open_def sym_resolv_open_def sym_resolv_open_pid_def sys_open_def
      kernel_with_def c_int_def)
  obtain h2 where h2: "dls.sessions ?k2 [Fd 2] = Some h2"
    by (simp add: dls_session_open_def dls_file_open_def sys_open_def sys_mmap_def small_kernel_def)
  have ok: "\<forall>k\<in>set ?k. sr_ok k" "\<forall>k\<in>set ?k2. dls_ok k"
    by (simp_all add: sr_ok_def dls_ok_def kernel_with_def small_kernel_def)
  from sessions_give_back [OF ok(1) h ok(2) h2] h h2 show ?thesis by blast
qed

end
