(* ===== verification/Dsl_Search.thy ===== *)
theory Dsl_Search
  imports Dsl_Elf
begin

text \<open>
  What \<open>dls_search_dso\<close> finds in a maps file: the format string reads a line of \<open>proc(5)\<close> back, and
  the loop over the text of the file answers as a search of the list of its lines. The whole program
  then runs its own function in the place of the one the object calls.
\<close>

section \<open>Reading a line\<close>

text \<open>The variables after a line; an anonymous mapping has no path and leaves the old one.\<close>

definition vars_of :: "maps_line \<Rightarrow> string \<Rightarrow> dls_vars" where
  "vars_of l lib = \<lparr> dv_addrstart = ml_start l, dv_addrend = ml_end l, dv_perm = ml_perm l,
     dv_offset = sint (ucast (ml_offset l) :: u32),
     dv_garbage = ml_inode l @ (if ml_path l = None then [CHR 0x0A] else []), dv_lib = lib \<rparr>"

definition line_lib :: "maps_line \<Rightarrow> string \<Rightarrow> string" where
  "line_lib l lib = (case ml_path l of Some p \<Rightarrow> p | None \<Rightarrow> lib)"

lemma sscanf_maps_text:
  assumes "maps_line_ok l"
  shows "sscanf dls_format (maps_text l @ [CHR 0x0A]) v = Some (vars_of l (line_lib l (dv_lib v)))"
proof -
  note l = maps_line_okD [OF assms]
  have sk: "skip_space (ml_inode l @ t) = ml_inode l @ t" for t using l by simp
  show ?thesis
  proof (cases "ml_path l")
    case None
    have g: "CHR ''/'' \<notin> set (ml_inode l @ [CHR 0x0A])" "ml_inode l @ [CHR 0x0A] \<noteq> []"
      "length (ml_inode l @ [CHR 0x0A]) < 255" using l by auto
    have stop: "sscanf (Nonspace n f # ds) [] v = Some v" for n f ds and v :: dls_vars
      by (rule sscanf_Nonspace_stop) (simp add: skip_space_def)
    show ?thesis
      using l None
      by (cases v) (simp del: sscanf.simps(2) add: dls_format_def maps_text_def sscanf_runs sk
        sscanf_Until_end [OF g] stop vars_of_def line_lib_def)
  next
    case (Some p)
    have p: "path_ok p" using assms Some by (simp add: maps_line_ok_def)
    obtain q where q: "p = CHR ''/'' # q" using path_okD(1) [OF p] by blast
    have u: "sscanf (Until (CHR ''/'') 255 f # ds) (ml_inode l @ CHR ''/'' # t) v =
        sscanf ds (CHR ''/'' # t) (f (ml_inode l) v)" for f ds t and v :: dls_vars
      using l by (intro sscanf_Until) auto
    have s: "sscanf (Nonspace 255 f # ds) (CHR ''/'' # q @ [CHR 0x0A]) v =
        sscanf ds [CHR 0x0A] (f p v)" for f ds and v :: dls_vars
      using sscanf_Nonspace [of p 255 "CHR 0x0A" f ds "[]" v] path_okD [OF p] by (simp add: q)
    show ?thesis
      using l Some
      by (cases v) (simp del: sscanf.simps(2) sscanf_Until add: dls_format_def maps_text_def
        sscanf_runs(2-) sscanf_Until sk u s q vars_of_def line_lib_def)
  qed
qed

section \<open>The search\<close>

text \<open>The path in effect at each line, and the lines the loop is looking for.\<close>

primrec libs_in_effect :: "string \<Rightarrow> maps_line list \<Rightarrow> string list" where
  "libs_in_effect lib [] = []"
| "libs_in_effect lib (l # ls) = line_lib l lib # libs_in_effect (line_lib l lib) ls"

definition dls_wanted :: "string \<Rightarrow> maps_line \<times> string \<Rightarrow> bool" where
  "dls_wanted name x \<longleftrightarrow> (ucast (ml_offset (fst x)) :: u32) = 0 \<and> basename (snd x) = name"

definition dls_found ::
  "u64 kernel \<Rightarrow> mem64 \<Rightarrow> dls_file \<Rightarrow> iovec \<Rightarrow> u64 held \<Rightarrow> (maps_line \<times> string) option \<Rightarrow>
   int \<times> mem64 \<times> dls_file \<times> iovec \<times> u64 held" where
  "dls_found K m f vector held x = (case x of
     None \<Rightarrow> (0, m, f, vector, held)
   | Some (l, lib) \<Rightarrow> (case dls_file_open K m lib f held of (r, f, m, held) \<Rightarrow>
       (1, m, f, \<lparr> iov_base = ml_start l, iov_len = ml_end l - ml_start l \<rparr>, held)))"

lemma after_basename_path_ok:
  assumes "path_ok p"
  shows "after_basename p = p"
proof -
  have "p \<noteq> []" "last p \<noteq> CHR ''/''" using path_okD [OF assms] by auto
  then have "cut_slashes p = p"
    by (cases p rule: rev_cases) (simp_all add: cut_slashes_def)
  then show ?thesis by (simp add: after_basename_def)
qed

lemma after_basename_line_lib:
  "maps_line_ok l \<Longrightarrow> after_basename lib = lib \<Longrightarrow> after_basename (line_lib l lib) = line_lib l lib"
  by (cases "ml_path l") (simp_all add: line_lib_def maps_line_ok_def after_basename_path_ok)

lemma maps_file_Cons: "maps_file (l # ls) = maps_text l @ CHR 0x0A # maps_file ls"
  by (simp add: maps_file_def)

lemma sint_zero_iff: "sint (w :: u32) = 0 \<longleftrightarrow> w = 0"
  by (metis signed_0 signed_eq_0_iff)

lemma dls_search_lines_maps_file:
  "\<forall>l\<in>set ls. maps_line_ok l \<Longrightarrow> after_basename (dv_lib v) = dv_lib v \<Longrightarrow>
   dls_search_lines K name (maps_file ls) v m f vector held =
   Some (dls_found K m f vector held
     (List.find (dls_wanted name) (zip ls (libs_in_effect (dv_lib v) ls))))"
proof (induction ls arbitrary: v)
  case Nil
  then show ?case
    by (subst dls_search_lines.simps) (simp add: maps_file_def fgets_def dls_found_def)
next
  case (Cons l ls)
  define lib where "lib = line_lib l (dv_lib v)"
  have l: "maps_line_ok l" using Cons.prems(1) by simp
  have lib: "after_basename lib = lib"
    unfolding lib_def by (rule after_basename_line_lib [OF l Cons.prems(2)])
  have g: "fgets 512 (maps_file (l # ls)) = Some (maps_text l @ [CHR 0x0A], maps_file ls)"
    unfolding maps_file_Cons by (rule fgets_line) (rule maps_text_fits [OF l])+
  have IH: "dls_search_lines K name (maps_file ls) (vars_of l lib) m f vector held =
      Some (dls_found K m f vector held (List.find (dls_wanted name) (zip ls (libs_in_effect lib ls))))"
    using Cons.IH [of "vars_of l lib"] Cons.prems(1) lib by (simp add: vars_of_def)
  have s: "sscanf dls_format (maps_text l @ [CHR 0x0A]) v = Some (vars_of l lib)"
    unfolding lib_def by (rule sscanf_maps_text [OF l])
  have u: "(vars_of l lib)\<lparr> dv_lib := lib \<rparr> = vars_of l lib" by (simp add: vars_of_def)
  have f: "dv_offset (vars_of l lib) = sint (ucast (ml_offset l) :: u32)" "dv_lib (vars_of l lib) = lib"
    "dv_addrstart (vars_of l lib) = ml_start l" "dv_addrend (vars_of l lib) = ml_end l"
    by (simp_all add: vars_of_def)
  show ?case
  proof (cases "dls_wanted name (l, lib)")
    case True
    then show ?thesis
      by (subst dls_search_lines.simps)
        (simp add: g s f u lib dls_found_def dls_wanted_def sint_zero_iff lib_def [symmetric] split: prod.split)
  next
    case False
    then have "\<not> (sint (ucast (ml_offset l) :: u32) = 0 \<and> basename lib = name)"
      by (simp add: dls_wanted_def sint_zero_iff)
    then have "dls_search_lines K name (maps_file (l # ls)) v m f vector held =
        dls_search_lines K name (maps_file ls) (vars_of l lib) m f vector held"
      by (subst dls_search_lines.simps) (auto simp: g s f u lib)
    then show ?thesis using IH False by (simp add: lib_def [symmetric])
  qed
qed

lemma dls_file_open_stream:
  "(case dls_file_open K m p f (acquire (Stream fp) held) of
      (r, f', m', held') \<Rightarrow> (r, f', m', sys_fclose fp held')) = dls_file_open K m p f held"
  by (simp add: dls_file_open_def sys_defs split: sum.split prod.split)

lemma dls_found_stream:
  "(case dls_found K m f vector (acquire (Stream fp) held) x of
      (r, m', f', vector', held') \<Rightarrow> (r, m', f', vector', sys_fclose fp held')) =
   dls_found K m f vector held x"
proof (cases x)
  case None
  then show ?thesis by (simp add: dls_found_def sys_fclose_def)
next
  case (Some y)
  then show ?thesis
    using dls_file_open_stream [where K = K and m = m and p = "snd y" and f = f and fp = fp and held = held]
    by (cases y) (auto simp: dls_found_def split: prod.split)
qed

section \<open>Properties\<close>

text \<open>
  On a maps file whose lines fit its buffers dls_search_dso never overruns one, reads every
  line back and answers as a search of the list of lines: 0 when no line with offset 0 (in its
  low 32 bits) has a path in effect with the given base name, otherwise 1 with the address
  range of the first such line, whatever the result of opening its path; it keeps nothing but
  what opening the file took.
\<close>

theorem dls_search_dso_finds:
  assumes "k_fopen K (proc_file (decimal pid) ''maps'') = Some fp" "pid < 100000"
    and "maps fp = maps_file ls" "\<forall>l\<in>set ls. maps_line_ok l"
    and "after_basename (dv_lib v) = dv_lib v"
  shows "dls_search_dso K maps pid name v m f vector held =
    Some (dls_found K m f vector held
      (List.find (dls_wanted name) (zip ls (libs_in_effect (dv_lib v) ls))))"
proof -
  have "length (decimal pid) \<le> 5" using assms(2) by (intro length_decimal) simp_all
  then have name: "take 16 (proc_file (decimal pid) ''maps'') = proc_file (decimal pid) ''maps''"
    by (simp add: proc_file_def)
  show ?thesis
    using assms(1) dls_found_stream [where K = K and m = m and f = f and vector = vector and fp = fp and held = held, symmetric]
    by (simp add: dls_search_dso_def sys_fopen_def name assms(3)
      dls_search_lines_maps_file [OF assms(4,5)] split: prod.split)
qed

section \<open>A concrete search\<close>

definition search_kernel :: "u64 kernel" where
  "search_kernel = \<lparr> k_open = (\<lambda>p. if p = ''/x/b'' then Inr 5 else Inl 2), k_fstat = (\<lambda>_. Inr 64),
     k_stat = (\<lambda>_. None), k_mmap = (\<lambda>_ _. Inr (4096, \<lambda>_. Some 0)), k_close = (\<lambda>_. None),
     k_fopen = (\<lambda>_. Some 7) \<rparr>"

text \<open>Another object, an anonymous mapping after it, then the object itself.\<close>

definition search_lines :: "maps_line list" where
  "search_lines = map (\<lambda>(a, b, p). \<lparr> ml_start = a, ml_end = b, ml_perm = ''r--p'', ml_offset = 0,
     ml_inode = ''0'', ml_path = p \<rparr>)
     [(0, 16, Some ''/x/a''), (16, 32, None), (64, 96, Some ''/x/b'')]"

definition no_vars :: dls_vars where
  "no_vars = \<lparr> dv_addrstart = 0, dv_addrend = 0, dv_perm = [], dv_offset = 0, dv_garbage = [], dv_lib = [] \<rparr>"

theorem dls_search_dso_finds_witness:
  "dls_search_dso search_kernel (\<lambda>_. maps_file search_lines) 42 ''b'' no_vars (\<lambda>_. None)
     \<lparr> df_fd = 0, df_map = 0, df_size = 0 \<rparr> \<lparr> iov_base = 0, iov_len = 0 \<rparr> [] =
   Some (1, \<lambda>_. Some 0, \<lparr> df_fd = 5, df_map = 4096, df_size = 64 \<rparr>,
     \<lparr> iov_base = 64, iov_len = 32 \<rparr>, [Mapping 4096 64, Fd 5])"
proof -
  have K: "k_fopen search_kernel (proc_file (decimal 42) ''maps'') = Some 7"
    by (simp add: search_kernel_def)
  have ok: "\<forall>l\<in>set search_lines. maps_line_ok l"
    by (simp add: search_lines_def maps_line_ok_def path_ok_def plain_def isspace_def)
  have v: "after_basename (dv_lib no_vars) = dv_lib no_vars"
    by (simp add: no_vars_def after_basename_def cut_slashes_def)
  show ?thesis
    unfolding dls_search_dso_finds [OF K _ refl ok v, simplified]
    by (simp add: search_lines_def no_vars_def line_lib_def dls_wanted_def basename_def cut_slashes_def
      dls_found_def dls_file_open_def sys_open_def sys_mmap_def acquire_def search_kernel_def)
qed

section \<open>The whole program\<close>

lemma dls_redirect_skip:
  "\<forall>e\<in>set es. str_at m (de_name e) name = Some False \<Longrightarrow>
   dls_redirect (es @ es') name base at_funky m out = dls_redirect es' name base at_funky m out"
  by (induction es) auto

definition setting_line :: "u64 \<Rightarrow> string" where
  "setting_line at_funky = ''setting '' @ pointer_text at_funky @ newline"

lemma dls_redirect_one:
  assumes "\<forall>x\<in>set before. str_at m (de_name x) name = Some False"
    and "str_at m (de_name e) name = Some True" "de_rel e = Some rel" "Elf64_r_offset m rel = Some off"
    and "mapped m (base + off) 8"
    and "\<forall>x\<in>set after. str_at (put64 m (base + off) at_funky) (de_name x) name = Some False"
  shows "dls_redirect (before @ e # after) name base at_funky m out =
    Some (put64 m (base + off) at_funky, out @ [(Stdout, setting_line at_funky)])"
  using assms dls_redirect_skip [OF assms(6), of "[]"]
  by (simp add: dls_redirect_skip store64_def put_text_def setting_line_def)

text \<open>
  C16: suppose the process number is below 100000 (its path fits the buffer), fopen succeeds
  on the maps file, every line of it fits the buffers of sscanf (maps_line_ok; a path of 255
  bytes overruns one: dls_long_path_overruns), the uninitialised lib holds no trailing slash,
  and a line for liblib.so at offset 0 is found, whose file open, fstat and mmap accept;
  suppose malloc and the tables of the file let dls_get_external_syms return, exactly one of
  its entries (global symbols without a type) is called funky, that entry has a relocation (a
  missing one is a null pointer that the code follows), the eight bytes at the relocation
  offset from the start of the mapping are mapped, and writing them does not make another
  entry read funky. Then the program replaces exactly those eight bytes by the address of its
  own function, hello_world of the object, which calls through them, runs that function, and
  the program prints the two lines, ends with status 0 and gives back the stream, the
  descriptor, the mapping and the handle.
\<close>

theorem dls_main_redirects:
  assumes "k_fopen K (proc_file (decimal pid) ''maps'') = Some fp" "pid < 100000"
    and "maps fp = maps_file ls" "\<forall>l\<in>set ls. maps_line_ok l" "after_basename (dv_lib v) = dv_lib v"
    and "List.find (dls_wanted ''liblib.so'') (zip ls (libs_in_effect (dv_lib v) ls)) = Some (l, lib)"
    and "k_open K lib = Inr fd" "k_fstat K fd = Inr len" "k_mmap K fd len = Inr (addr, m1)"
    and "dls_get_external_syms malloc_ok m1 addr = Some (n, syms)" "des_array syms = before @ e # after"
    and "\<forall>x\<in>set before. str_at m1 (de_name x) (bytes_of ''funky'') = Some False"
    and "str_at m1 (de_name e) (bytes_of ''funky'') = Some True"
    and "de_rel e = Some rel" "Elf64_r_offset m1 rel = Some off" "mapped m1 (ml_start l + off) 8"
    and "\<forall>x\<in>set after. str_at (put64 m1 (ml_start l + off) at_funky) (de_name x) (bytes_of ''funky'') = Some False"
    and "code at_funky = funky"
  shows "dls_main K maps (Inr h) malloc_ok (hello_world (ml_start l + off) code) at_funky pid v f vec m held =
    Some (0, [(Stdout, setting_line at_funky), (Stdout, ''clope'' @ newline)], put64 m1 (ml_start l + off) at_funky, held)"
proof -
  let ?f = "f\<lparr> df_fd := fd, df_map := addr, df_size := len \<rparr>"
  have found: "dls_search_dso K maps pid ''liblib.so'' v m f vec (acquire (Dso h) held) =
      Some (1, m1, ?f, \<lparr> iov_base = ml_start l, iov_len = ml_end l - ml_start l \<rparr>,
        Mapping addr len # Fd fd # Dso h # held)"
    unfolding dls_search_dso_finds [where maps = maps, OF assms(1-5)] assms(6)
    by (simp add: dls_found_def dls_file_open_def sys_open_def sys_mmap_def acquire_def assms(7-9))
  have redirect: "dls_redirect (des_array syms) (bytes_of ''funky'') (ml_start l) at_funky m1 [] =
      Some (put64 m1 (ml_start l + off) at_funky, [(Stdout, setting_line at_funky)])"
    unfolding assms(11) using dls_redirect_one [OF assms(12-17), of "[]"] by simp
  have "hello_world (ml_start l + off) code (put64 m1 (ml_start l + off) at_funky) [(Stdout, setting_line at_funky)] =
      Some (put64 m1 (ml_start l + off) at_funky, [(Stdout, setting_line at_funky), (Stdout, ''clope'' @ newline)])"
    by (simp add: hello_world_def mem_simps assms(18) funky_def put_text_def)
  then show ?thesis
    by (simp add: dls_main_def found assms(10) redirect dls_file_close_def sys_close_def
      sys_munmap_def release_def)
qed

text \<open>An object with one global symbol without type, \<open>funky\<close>, and one relocation, at offset 8.\<close>

definition main_elf :: mem64 where
  "main_elf = image [(40, 64), (60, 3), (62, 1), (64, 1), (128, 9), (153, 1), (89, 2), (96, 24),
     (257, 46), (258, 100), (259, 121), (260, 110), (261, 115), (262, 121), (263, 109),
     (265, 46), (266, 100), (267, 121), (268, 110), (269, 115), (270, 116), (271, 114),
     (276, 102), (277, 117), (278, 110), (279, 107), (280, 121), (512, 20), (516, 16),
     (196, 4), (217, 3), (224, 24), (768, 8)]"

definition main_kernel :: "u64 kernel" where
  "main_kernel = \<lparr> k_open = (\<lambda>_. Inr 5), k_fstat = (\<lambda>_. Inr 64), k_stat = (\<lambda>_. None),
     k_mmap = (\<lambda>_ _. Inr (0, main_elf)), k_close = (\<lambda>_. None), k_fopen = (\<lambda>_. Some 7) \<rparr>"

definition main_lines :: "maps_line list" where
  "main_lines = [\<lparr> ml_start = 2048, ml_end = 4096, ml_perm = ''r--p'', ml_offset = 0,
     ml_inode = ''0'', ml_path = Some ''/liblib.so'' \<rparr>]"

lemma main_elf_fields:
  "Elf64_e_shoff main_elf 0 = Some 64" "Elf64_e_shnum main_elf 0 = Some 3"
  "Elf64_e_shstrndx main_elf 0 = Some 1" "Elf64_sh_name main_elf 64 = Some 1"
  "Elf64_sh_name main_elf 128 = Some 9" "Elf64_sh_offset main_elf 64 = Some 512"
  "Elf64_sh_offset main_elf 128 = Some 256" "Elf64_sh_offset main_elf 192 = Some 768"
  "Elf64_sh_size main_elf 64 = Some 24" "Elf64_sh_size main_elf 192 = Some 24"
  "Elf64_sh_type main_elf 64 = Some 0" "Elf64_sh_type main_elf 128 = Some 0"
  "Elf64_sh_type main_elf 192 = Some 4" "Elf64_sh_link main_elf 192 = Some 0"
  "Elf64_st_info main_elf 512 = Some 16" "Elf64_st_name main_elf 512 = Some 20"
  "Elf64_r_info main_elf 768 = Some 0" "Elf64_r_offset main_elf 768 = Some 8"
  by (simp_all add: main_elf_def Elf64_fields load_compute)

lemmas elf64_sizes = sizeof_Elf64_Shdr_def sizeof_Elf64_Sym_def sizeof_Elf64_Rel_def sizeof_Elf64_Rela_def
  SHT_RELA_def ELF64_R_SYM_def ELF64_ST_BIND_def ELF64_ST_TYPE_def

lemma main_elf_syms:
  "dls_get_external_syms (\<lambda>_. True) main_elf 0 = Some (1, \<lparr> des_len = 1, des_array =
     [\<lparr> de_rel = Some 768, de_name = 276, de_sym = 512 \<rparr>] \<rparr>)"
proof -
  have s: "str_at main_elf 257 (bytes_of ''.dynsym'') = Some True"
    "str_at main_elf 257 (bytes_of ''.dynstr'') = Some False"
    "str_at main_elf 265 (bytes_of ''.dynstr'') = Some True"
    by (simp_all add: bytes_of_def main_elf_def)
  have "dls_get_shdr_by_name main_elf 0 (bytes_of ''.dynsym'') = Some (Some 64)"
    "dls_get_shdr_by_name main_elf 0 (bytes_of ''.dynstr'') = Some (Some 128)"
    using s by (simp_all add: dls_get_shdr_by_name_def dls_file_get_section_strings_def main_elf_fields
      sizeof_Elf64_Shdr_def scan_numeral)
  moreover have "dls_external_sym_at main_elf 0 0 256 0 512 =
      Some (Some \<lparr> de_rel = Some 768, de_name = 276, de_sym = 512 \<rparr>)"
    by (simp add: dls_external_sym_at_def dls_get_rel_sym_def dls_get_rel_section_def dls_get_rel_in_def
      main_elf_fields elf64_sizes search_numeral scan_numeral)
  ultimately show ?thesis
    by (simp add: dls_get_external_syms_def main_elf_fields elf64_sizes)
qed

theorem dls_main_redirects_witness:
  "dls_main main_kernel (\<lambda>_. maps_file main_lines) (Inr 3) (\<lambda>_. True)
     (hello_world 2056 (\<lambda>a. if a = 0xabcd then funky else (\<lambda>_ _. None))) 0xabcd 42 no_vars
     \<lparr> df_fd = 0, df_map = 0, df_size = 0 \<rparr> \<lparr> iov_base = 0, iov_len = 0 \<rparr> (\<lambda>_. None) [Fd 1] =
   Some (0, [(Stdout, setting_line 0xabcd), (Stdout, ''clope'' @ newline)], put64 main_elf 2056 0xabcd, [Fd 1])"
proof -
  have K: "k_fopen main_kernel (proc_file (decimal 42) ''maps'') = Some 7" "k_open main_kernel ''/liblib.so'' = Inr 5"
    "k_fstat main_kernel 5 = Inr 64" "k_mmap main_kernel 5 64 = Inr (0, main_elf)"
    by (simp_all add: main_kernel_def)
  have ok: "\<forall>l\<in>set main_lines. maps_line_ok l"
    by (simp add: main_lines_def maps_line_ok_def path_ok_def plain_def isspace_def)
  have v: "after_basename (dv_lib no_vars) = dv_lib no_vars"
    by (simp add: no_vars_def after_basename_def cut_slashes_def)
  have found: "List.find (dls_wanted ''liblib.so'') (zip main_lines (libs_in_effect (dv_lib no_vars) main_lines)) =
      Some (hd main_lines, ''/liblib.so'')"
    by (simp add: main_lines_def line_lib_def dls_wanted_def basename_def cut_slashes_def)
  have name: "str_at main_elf 276 (bytes_of ''funky'') = Some True"
    by (simp add: bytes_of_def main_elf_def)
  have mapped: "mapped main_elf (ml_start (hd main_lines) + 8) 8"
    by (auto simp: mapped_def main_elf_def image_def map_add_def split: option.split)
  have slot: "2056 = ml_start (hd main_lines) + (8 :: u64)"
    by (simp add: main_lines_def)
  show ?thesis
    unfolding slot
    by (rule dls_main_redirects [where fp = 7 and ls = main_lines and l = "hd main_lines" and off = 8
        and before = "[]" and after = "[]" and e = "\<lparr> de_rel = Some 768, de_name = 276, de_sym = 512 \<rparr>",
        OF K(1) _ refl ok v found K(2-4) main_elf_syms])
      (simp_all add: name mapped, rule main_elf_fields)
qed

text \<open>A path that does not fit: the conversion \<open>%s\<close> stores it past the end of \<open>lib\<close>.\<close>

lemma dls_long_path_overruns:
  assumes "maps_line_ok (l\<lparr> ml_path := None \<rparr>)" "ml_path l = Some p" "plain p" "hd p = CHR ''/''" "255 \<le> length p"
  shows "sscanf dls_format (maps_text l) v = None"
proof -
  note l = maps_line_okD [OF assms(1), simplified]
  obtain q where q: "p = CHR ''/'' # q" using assms(4,5) by (cases p) auto
  have sk: "skip_space (ml_inode l @ t) = ml_inode l @ t" for t using l by simp
  have u: "sscanf (Until (CHR ''/'') 255 f # ds) (ml_inode l @ CHR ''/'' # t) v =
      sscanf ds (CHR ''/'' # t) (f (ml_inode l) v)" for f ds t and v :: dls_vars
    using l by (intro sscanf_Until) auto
  have s: "sscanf (Nonspace 255 f # ds) (CHR ''/'' # q) v = None" for f ds and v :: dls_vars
  proof -
    have "sscanf (Nonspace 255 f # ds) p v = None"
      using assms(3,5) skip_space_plain [of p "[]"] by (cases "p = []") (simp_all add: store_string_def)
    then show ?thesis by (simp only: q)
  qed
  show ?thesis
    using l assms(2)
    by (simp del: sscanf.simps(2) add: dls_format_def maps_text_def sscanf_runs(2-) sscanf_Until sk u s q)
qed

end
