(* ===== verification/Sym_Test.thy ===== *)
theory Sym_Test
  imports Timing Sym_Resolver
begin

text \<open>
  \<open>sym_resolv/test.c\<close>, the test program of the symbol resolver, and a small executable whose symbol
  table the resolver opens and reads, for the witnesses of its clients.
\<close>

section \<open>The program\<close>

text \<open>
  The resolver uses an answer of \<open>dladdr\<close> only when it has a name; the program prints the name
  unchecked, and \<open>printf\<close> of a null string is undefined, a fault.
\<close>

text \<open>\<open>f1\<close> stores its return address in \<open>toto\<close> and prints it.\<close>

definition f1 :: "u32 \<Rightarrow> printed \<Rightarrow> u32 \<times> printed" where
  "f1 return_address out = (
     let out = put_text Stdout (''hello'' @ newline) out;
         toto = return_address
     in (toto, put_text Stdout (pointer_text toto @ newline) out))"

primrec print_results :: "(u32 \<times> sym_resolv) list \<Rightarrow> printed \<Rightarrow> printed option" where
  "print_results [] out = Some out"
| "print_results (x # xs) out = do {
     name \<leftarrow> buffer_text (sr_symname (snd x));
     print_results xs (put_text Stdout (''search='' @ pointer_text (fst x) @ '' true = '' @
       pointer_text (sr_symaddr (snd x)) @ '' name = '' @ name @ newline) out) }"

primrec print_dladdr :: "dladdr_t \<Rightarrow> u32 list \<Rightarrow> printed \<Rightarrow> printed option" where
  "print_dladdr dladdr [] out = Some out"
| "print_dladdr dladdr (a # as) out = (case dladdr a of
     Some (saddr, sname) \<Rightarrow> do {
       n \<leftarrow> sname;
       print_dladdr dladdr as (put_text Stdout (''serach='' @ pointer_text a @ '' find '' @
         pointer_text saddr @ '' -> '' @ string_of n @ newline) out) }
   | None \<Rightarrow> print_dladdr dladdr as (put_text Stdout (pointer_text a @ '' not found'' @ newline) out))"

definition print_time :: "timeval \<Rightarrow> timeval \<Rightarrow> printed \<Rightarrow> printed" where
  "print_time ts1 ts2 out = (
     let resu = timersub ts1 ts2
     in put_text Stdout (decimal_int (tv_sec resu) @ '' '' @ decimal_int (tv_usec resu) @ newline) out)"

definition print_symbol :: "mem32 \<Rightarrow> u32 \<Rightarrow> printed \<Rightarrow> printed option" where
  "print_symbol m ptr out = do {
     st_value \<leftarrow> Elf32_st_value m ptr;
     st_size \<leftarrow> Elf32_st_size m ptr;
     st_info \<leftarrow> Elf32_st_info m ptr;
     Some (put_text Stdout (''value='' @ pointer_text st_value @ '' size='' @ decimal (unat st_size) @
       '' info='' @ decimal (unat st_info) @ newline) out) }"

text \<open>
  What the program finds around it: the addresses \<open>f1\<close>, \<open>malloc\<close> and \<open>sym_resolv_addr\<close>, the return
  address of the call of \<open>f1\<close>, the times \<open>gettimeofday\<close> answers, and its uninitialised variables.
\<close>

record sym_test_env =
  st_kernel :: "u32 kernel"
  st_memory :: mem32
  st_pid :: int
  st_dladdr :: dladdr_t
  st_f1 :: u32
  st_malloc :: u32
  st_sym_resolv_addr :: u32
  st_return :: u32
  st_times :: "timeval \<times> timeval \<times> timeval \<times> timeval"
  st_desc :: sym_resolv_desc
  st_res :: "sym_resolv list"

definition sym_test_main :: "sym_test_env \<Rightarrow> u32 held \<Rightarrow> (int \<times> printed \<times> u32 held) option" where
  "sym_test_main E held = do {
     (r, desc, m, held) \<leftarrow> sym_resolv_open (st_kernel E) (st_memory E) (st_pid E) (st_desc E) held;
     if r < 0 then Some (0, put_text Stdout (''unable to open procfile'' @ newline) [], held)
     else (case st_times E of (t1, t2, t3, t4) \<Rightarrow> do {
       let (toto, out) = f1 (st_return E) [];
       let un = [st_f1 E, st_f1 E + 5, st_malloc E, st_sym_resolv_addr E, toto];
       (ret, res) \<leftarrow> sym_resolv_addr (st_dladdr E) m desc un (st_res E) 5;
       out \<leftarrow> print_results (zip un res) out;
       let out = print_time t1 t2 out;
       ptr \<leftarrow> sym_resolv_symbol m desc (bytes_of ''toto'');
       let out = put_text Stdout (''test with dladdr'' @ newline) out;
       out \<leftarrow> print_dladdr (st_dladdr E) un out;
       let out = print_time t3 t4 out;
       out \<leftarrow> (case ptr of None \<Rightarrow> Some out | Some p \<Rightarrow> print_symbol m p out);
       Some (0, out, sym_resolv_close desc held) }) }"

section \<open>A small executable\<close>

text \<open>
  At address 4096, with three sections: a symbol table of one symbol, \<open>f1\<close> at \<open>0x2000\<close> of 16 bytes,
  the section names, and the symbol names.
\<close>

definition exe_image :: mem32 where
  "exe_image = image [(4128, 64), (4144, 3), (4146, 1), (4160, 1), (4177, 1), (4180, 16), (4217, 2),
     (4240, 9), (4257, 3), (4352, 1), (4357, 32), (4360, 16), (4865, 102), (4866, 49),
     (4609, 46), (4610, 115), (4611, 121), (4612, 109), (4613, 116), (4614, 97), (4615, 98),
     (4617, 46), (4618, 115), (4619, 116), (4620, 114), (4621, 116), (4622, 97), (4623, 98)]"

definition exe_kernel :: "u32 kernel" where
  "exe_kernel = \<lparr> k_open = \<lambda>_. Inr 3, k_fstat = \<lambda>_. Inr 4096, k_stat = \<lambda>_. None,
     k_mmap = \<lambda>_ _. Inr (4096, exe_image), k_close = \<lambda>_. None, k_fopen = \<lambda>_. None \<rparr>"

definition blank_desc :: sym_resolv_desc where
  "blank_desc = \<lparr> sr_fd = 0, sr_mem = 0, sr_memlen = 0, sr_pid = 0, sr_ehdr = None, sr_shdr = 0,
     sr_shdrstrsectab = 0, sr_shdrsymtab = None, sr_shdrstrsymtab = None, sr_sectionstr = 0 \<rparr>"

definition exe_desc :: sym_resolv_desc where
  "exe_desc = \<lparr> sr_fd = 3, sr_mem = 4096, sr_memlen = 4096, sr_pid = 7, sr_ehdr = Some 4096, sr_shdr = 4160,
     sr_shdrstrsectab = 4200, sr_shdrsymtab = Some 4160, sr_shdrstrsymtab = Some 4240, sr_sectionstr = 4608 \<rparr>"

lemma exe_fields:
  "Elf32_e_shoff exe_image 4096 = Some 64" "Elf32_e_shnum exe_image 4096 = Some 3"
  "Elf32_e_shstrndx exe_image 4096 = Some 1" "Elf32_sh_name exe_image 4160 = Some 1"
  "Elf32_sh_offset exe_image 4160 = Some 256" "Elf32_sh_size exe_image 4160 = Some 16"
  "Elf32_sh_name exe_image 4200 = Some 0" "Elf32_sh_offset exe_image 4200 = Some 512"
  "Elf32_sh_name exe_image 4240 = Some 9" "Elf32_sh_offset exe_image 4240 = Some 768"
  "Elf32_st_name exe_image 4352 = Some 1" "Elf32_st_value exe_image 4352 = Some 0x2000"
  "Elf32_st_size exe_image 4352 = Some 16" "Elf32_st_info exe_image 4352 = Some 0"
  by (simp_all add: exe_image_def Elf32_fields load_compute)

lemma exe_names:
  "str_at exe_image 4609 (bytes_of ''.symtab'') = Some True"
  "str_at exe_image 4609 (bytes_of ''.strtab'') = Some False"
  "str_at exe_image 4608 (bytes_of ''.strtab'') = Some False"
  "str_at exe_image 4617 (bytes_of ''.strtab'') = Some True"
  "str_at exe_image 4865 (bytes_of ''toto'') = Some False"
  by (simp_all add: bytes_of_def exe_image_def)

lemma exe_open:
  "sym_resolv_open exe_kernel m 7 blank_desc held =
   Some (0, exe_desc, exe_image, Mapping 4096 4096 # Fd 3 # held)"
proof -
  have "sym_resolv_read_tables exe_image (blank_desc\<lparr> sr_fd := 3, sr_mem := 4096, sr_memlen := 4096, sr_pid := 7 \<rparr>) =
      Some (True, exe_desc)"
    by (simp add: sym_resolv_read_tables_def sym_resolv_sectionhdr_to_section_def
      sym_resolv_get_sectionhdr_by_name_def scan_numeral exe_fields exe_names SHN_UNDEF_def
      sizeof_Elf32_Shdr_def exe_desc_def blank_desc_def)
  then show ?thesis
    by (simp add: sym_resolv_open_def sym_resolv_open_pid_def sys_open_def sys_mmap_def exe_kernel_def
      c_int_def acquire_def exe_desc_def)
qed

text \<open>Names in the table of the executable: two characters and zeros to the end of the buffer.\<close>

lemma strncpy_short:
  "m a = Some b \<Longrightarrow> b \<noteq> 0 \<Longrightarrow> m (a + 1) = Some c \<Longrightarrow> c \<noteq> 0 \<Longrightarrow> m (2 + a) = Some 0 \<Longrightarrow>
   strncpy_bytes m a (Suc (Suc (Suc n))) = Some (b # c # replicate (Suc n) 0)"
  by simp

lemma exe_strncpy: "strncpy_bytes exe_image 4865 SR_SYMNAME = Some (102 # 49 # replicate 510 0)"
  using strncpy_short [of exe_image 4865 102 49 509] by (simp add: SR_SYMNAME_def exe_image_def)

lemma exe_funcname:
  "sym_resolv_get_funcname_by_addr exe_image (Some exe_desc) a res =
   Some (if 0x2000 \<le> a \<and> a < 0x2010
     then (True, res\<lparr> sr_symname := 102 # 49 # replicate 510 0, sr_symaddr := 0x2000 \<rparr>) else (False, res))"
  by (simp add: sym_resolv_get_funcname_by_addr_def sym_resolv_sectionhdr_to_section_def exe_desc_def
    exe_fields sizeof_Elf32_Sym_def covers_def exe_strncpy)

lemma exe_symbol: "sym_resolv_symbol exe_image exe_desc (bytes_of ''toto'') = Some None"
  by (simp add: sym_resolv_symbol_def sym_resolv_sectionhdr_to_section_def exe_desc_def exe_fields
    sizeof_Elf32_Sym_def exe_names)

lemma exe_buffer_text: "buffer_text (102 # 49 # replicate 510 0) = Some ''f1''"
  by (simp add: buffer_text_def string_of_def char_of_def bit_0 takeWhile_eq_Nil_iff hd_replicate)

lemma exe_not_covered: "buffer_text (0 # bs) = Some ''''"
  by (simp add: buffer_text_def string_of_def)

section \<open>Properties\<close>

lemma print_results_appends: "print_results xs out = Some out' \<Longrightarrow> \<exists>ls. out' = out @ ls"
  by (induction xs arbitrary: out) (fastforce simp: put_text_def bind_simps)+

lemma print_dladdr_appends: "print_dladdr dl as out = Some out' \<Longrightarrow> \<exists>ls. out' = out @ ls"
  by (induction as arbitrary: out) (fastforce simp: put_text_def bind_simps split: option.split_asm prod.split_asm)+

lemma sym_test_main_open:
  assumes "sym_test_main E held = Some (r, out, held')"
  obtains desc m held1 where
    "sym_resolv_open (st_kernel E) (st_memory E) (st_pid E) (st_desc E) held = Some (- 1, desc, m, held1)"
    "r = 0" "out = [(Stdout, ''unable to open procfile'' @ newline)]" "held' = held1"
  | desc m held1 where
    "sym_resolv_open (st_kernel E) (st_memory E) (st_pid E) (st_desc E) held = Some (0, desc, m, held1)"
    "r = 0" "held' = sym_resolv_close desc held1"
    "case st_times E of (t1, t2, t3, t4) \<Rightarrow>
       {print_time t1 t2 [], print_time t3 t4 []} \<subseteq> (\<lambda>l. [l]) ` set out"
proof -
  obtain r1 desc m held1 where o:
    "sym_resolv_open (st_kernel E) (st_memory E) (st_pid E) (st_desc E) held = Some (r1, desc, m, held1)"
    using assms by (auto simp: sym_test_main_def bind_simps)
  obtain t1 t2 t3 t4 where t: "st_times E = (t1, t2, t3, t4)" by (cases "st_times E")
  from sym_resolv_open_resources [OF o] consider "r1 = 0" | "r1 = - 1" by auto
  then show thesis
  proof cases
    case 1
    let ?un = "[st_f1 E, st_f1 E + 5, st_malloc E, st_sym_resolv_addr E, st_return E]"
    from assms 1 obtain ret res out1 ptr out2 where
      c: "print_results (zip ?un res) (snd (f1 (st_return E) [])) = Some out1"
        "print_dladdr (st_dladdr E) ?un (put_text Stdout (''test with dladdr'' @ newline) (print_time t1 t2 out1)) = Some out2"
      and p: "(case ptr of None \<Rightarrow> Some (print_time t3 t4 out2) | Some p \<Rightarrow> print_symbol m p (print_time t3 t4 out2)) = Some out"
      and e: "r = 0" "held' = sym_resolv_close desc held1"
      by (auto simp: sym_test_main_def o t Let_def f1_def bind_eq_Some_conv)
    obtain ls where out2: "out2 = put_text Stdout (''test with dladdr'' @ newline) (print_time t1 t2 out1) @ ls"
      using print_dladdr_appends [OF c(2)] by blast
    obtain ls' where out: "out = print_time t3 t4 out2 @ ls'"
      using p by (auto simp: print_symbol_def put_text_def bind_eq_Some_conv split: option.split_asm)
    have "r = 0 \<and> held' = sym_resolv_close desc held1 \<and>
      {print_time t1 t2 [], print_time t3 t4 []} \<subseteq> (\<lambda>l. [l]) ` set out"
      using e unfolding out out2 by (auto simp: print_time_def put_text_def Let_def)
    then show thesis using o 1 that(2) t by auto
  next
    case 2
    then show thesis using assms o that(1) by (auto simp: sym_test_main_def put_text_def)
  qed
qed

definition time_line :: "timeval \<Rightarrow> stream \<times> string" where
  "time_line d = (Stdout, decimal_int (tv_sec d) @ '' '' @ decimal_int (tv_usec d) @ newline)"

lemma print_time_line: "print_time t1 t2 [] = [time_line (timersub t1 t2)]"
  by (simp add: print_time_def time_line_def put_text_def Let_def)

text \<open>
  Whenever the test program of the resolver runs to its end it returns 0 with its resources
  given back, and the two durations it prints are the negated ones, because the arguments of
  timersub are in the wrong order.
\<close>

theorem sym_test_main_result:
  assumes "sym_test_main E held = Some (r, out, held')" "st_times E = (t1, t2, t3, t4)"
    and "\<forall>t\<in>{t1, t2, t3, t4}. timeval_ok t"
    and "\<forall>fd. k_open (st_kernel E) (proc_file (decimal_int (st_pid E)) ''exe'') = Inr fd \<longrightarrow> 0 < fd"
  shows "r = 0 \<and> held' = held \<and>
    (out = [(Stdout, ''unable to open procfile'' @ newline)] \<or>
     (\<exists>d d'. timeval_ok d \<and> timeval_ok d' \<and> time_line d \<in> set out \<and> time_line d' \<in> set out \<and>
        micros d = - (micros t2 - micros t1) \<and> micros d' = - (micros t4 - micros t3)))"
  using assms(1)
proof (cases rule: sym_test_main_open)
  case (1 desc m held1)
  then show ?thesis
    using sym_resolv_open_resources [OF 1(1)] assms(4) by (auto split: sum.split_asm if_split_asm)
next
  case (2 desc m held1)
  have lines: "time_line (timersub t1 t2) \<in> set out" "time_line (timersub t3 t4) \<in> set out"
    using 2(4) by (auto simp: assms(2) print_time_line)
  have ok: "timeval_ok (timersub t1 t2)" "timeval_ok (timersub t3 t4)"
    using assms(3) by (auto intro: timersub_ok)
  have "held' = held" using sym_resolv_open_resources [OF 2(1)] 2(3) by auto
  then show ?thesis using 2(2) lines ok micros_timersub [of t1 t2] micros_timersub [of t3 t4]
    by (intro conjI disjI2 exI [of _ "timersub t1 t2"] exI [of _ "timersub t3 t4"]) simp_all
qed

definition old_res :: sym_resolv where
  "old_res = \<lparr> sr_symaddr = 0, sr_symname = replicate 512 1 \<rparr>"

definition hit_res :: sym_resolv where
  "hit_res = \<lparr> sr_symaddr = 0x2000, sr_symname = 102 # 49 # replicate 510 0 \<rparr>"

definition miss_res :: sym_resolv where
  "miss_res = \<lparr> sr_symaddr = 0, sr_symname = 0 # replicate 511 1 \<rparr>"

text \<open>The first two addresses are in the function of the table, the others in none.\<close>

definition exe_test :: sym_test_env where
  "exe_test = \<lparr> st_kernel = exe_kernel, st_memory = \<lambda>_. None, st_pid = 7, st_dladdr = \<lambda>_. None,
     st_f1 = 0x2000, st_malloc = 0x5000, st_sym_resolv_addr = 0x6000, st_return = 0x7000,
     st_times = (\<lparr> tv_sec = 1, tv_usec = 500000 \<rparr>, \<lparr> tv_sec = 2, tv_usec = 0 \<rparr>,
       \<lparr> tv_sec = 3, tv_usec = 0 \<rparr>, \<lparr> tv_sec = 3, tv_usec = 0 \<rparr>),
     st_desc = blank_desc, st_res = [old_res, old_res, old_res, old_res, old_res] \<rparr>"

lemma exe_addr_1:
  "sym_resolv_addr_1 (\<lambda>_. None) exe_image exe_desc a old_res =
   Some (if 0x2000 \<le> a \<and> a < 0x2010 then hit_res else miss_res)"
proof -
  have "(replicate 512 (1 :: byte))[0 := 0] = 0 # replicate 511 1"
    using replicate_Suc [of 511 "1 :: byte"] by (simp del: replicate_Suc)
  then show ?thesis
    by (simp add: sym_resolv_addr_1_def exe_funcname old_res_def hit_res_def miss_res_def)
qed

lemma exe_addr:
  "sym_resolv_addr (\<lambda>_. None) exe_image exe_desc [0x2000, 0x2005, 0x5000, 0x6000, 0x7000]
     [old_res, old_res, old_res, old_res, old_res] 5 =
   Some (0, [hit_res, hit_res, miss_res, miss_res, miss_res])"
proof -
  have five: "5 = Suc (Suc (Suc (Suc (Suc 0))))" by simp
  show ?thesis
    unfolding sym_resolv_addr_def five sym_resolv_addr_from.simps by (simp add: exe_addr_1)
qed

lemma res_text:
  "buffer_text (sr_symname hit_res) = Some ''f1''" "buffer_text (sr_symname miss_res) = Some ''''"
  by (simp_all only: hit_res_def miss_res_def sym_resolv.simps exe_buffer_text exe_not_covered)

lemma decimal_eval:
  "decimal_int (- 1) = ''-1''" "decimal_int 500000 = ''500000''"
  by (simp_all add: decimal_int_def decimal.simps digit_def char_of_def bit_0)

theorem sym_test_main_result_witness:
  "\<exists>out. sym_test_main exe_test [Fd 1] = Some (0, out, [Fd 1]) \<and>
     time_line \<lparr> tv_sec = - 1, tv_usec = 500000 \<rparr> = (Stdout, ''-1 500000'' @ newline) \<and>
     (\<exists>d. time_line d \<in> set out \<and> micros d = - 500000)"
proof -
  have fields: "st_kernel exe_test = exe_kernel" "st_memory exe_test = (\<lambda>_. None)" "st_pid exe_test = 7"
    "st_dladdr exe_test = (\<lambda>_. None)" "st_f1 exe_test = 0x2000" "st_malloc exe_test = 0x5000"
    "st_sym_resolv_addr exe_test = 0x6000" "st_return exe_test = 0x7000" "st_desc exe_test = blank_desc"
    "st_res exe_test = [old_res, old_res, old_res, old_res, old_res]"
    "st_times exe_test = (\<lparr> tv_sec = 1, tv_usec = 500000 \<rparr>, \<lparr> tv_sec = 2, tv_usec = 0 \<rparr>,
       \<lparr> tv_sec = 3, tv_usec = 0 \<rparr>, \<lparr> tv_sec = 3, tv_usec = 0 \<rparr>)"
    by (simp_all add: exe_test_def)
  obtain out h where run: "sym_test_main exe_test [Fd 1] = Some (0, out, h)" "2 \<le> length out"
    by (simp add: sym_test_main_def fields exe_open f1_def exe_addr res_text exe_symbol put_text_def print_time_def Let_def)
  show ?thesis
    using sym_test_main_result [OF run(1) fields(11)] run
    by (auto simp: fields timeval_ok_def exe_kernel_def micros_def time_line_def decimal_eval)
qed

end
