(* ===== verification/Process_Injector.thy ===== *)
theory Process_Injector
  imports C_Memory Dbg_Print
begin

text \<open>
  \<open>got_modifier/process_injector.c\<close>: code is written over the text of a stopped process, run until
  it traps, and the text put back. The traced process is a state of its own; what it does between
  \<open>PTRACE_CONT\<close> and the next stop is the argument \<open>run\<close>.
\<close>

section \<open>The traced process\<close>

record user_regs =
  eip :: u32
  eax :: u32
  others :: "u32 list"

record tracee =
  tr_mem :: "32 memory"
  tr_regs :: user_regs
  tr_attached :: bool

text \<open>
  A \<open>long\<close> of the i386 code is four bytes, and only copied here, so it is the list of its bytes.
  \<open>PTRACE_PEEKTEXT\<close> yields \<open>-1\<close> where nothing is mapped, \<open>PTRACE_POKETEXT\<close> then does nothing.
\<close>

definition sizeof_long :: nat where "sizeof_long = 4"

definition ptrace_peek :: "32 memory \<Rightarrow> u32 \<Rightarrow> byte list" where
  "ptrace_peek m a = (case load_bytes m a sizeof_long of
     Some bs \<Rightarrow> bs | None \<Rightarrow> replicate sizeof_long 255)"

definition ptrace_poke :: "32 memory \<Rightarrow> u32 \<Rightarrow> byte list \<Rightarrow> 32 memory" where
  "ptrace_poke m a bs = (case store_bytes m a bs of Some m' \<Rightarrow> m' | None \<Rightarrow> m)"

section \<open>Copying in words\<close>

text \<open>
  The copies go in steps of \<open>sizeof(long)\<close>. A store or a load of a whole \<open>long\<close> outside the array
  of the given length is a fault.
\<close>

function process_injector_read_from ::
  "32 memory \<Rightarrow> byte list \<Rightarrow> nat \<Rightarrow> u32 \<Rightarrow> nat \<Rightarrow> byte list option" where
  "process_injector_read_from m buff l addr i =
    (if i < l then
       if i + sizeof_long \<le> length buff then
         process_injector_read_from m (take i buff @ ptrace_peek m addr @ drop (i + sizeof_long) buff) l
           (addr + of_nat sizeof_long) (i + sizeof_long)
       else None
     else Some buff)"
  by pat_completeness auto
termination by (relation "measure (\<lambda>(m, buff, l, addr, i). l - i)") (auto simp: sizeof_long_def)

definition process_injector_read_at ::
  "32 memory \<Rightarrow> byte list \<Rightarrow> nat \<Rightarrow> u32 \<Rightarrow> byte list option" where
  "process_injector_read_at m buff l base_addr = process_injector_read_from m buff l base_addr 0"

function process_injector_write_from ::
  "32 memory \<Rightarrow> byte list \<Rightarrow> nat \<Rightarrow> u32 \<Rightarrow> nat \<Rightarrow> 32 memory option" where
  "process_injector_write_from m buffer l addr i =
    (if i < l then
       if i + sizeof_long \<le> length buffer then
         process_injector_write_from (ptrace_poke m addr (take sizeof_long (drop i buffer))) buffer l
           (addr + of_nat sizeof_long) (i + sizeof_long)
       else None
     else Some m)"
  by pat_completeness auto
termination by (relation "measure (\<lambda>(m, buffer, l, addr, i). l - i)") (auto simp: sizeof_long_def)

declare process_injector_read_from.simps [simp del] process_injector_write_from.simps [simp del]

definition process_injector_write_at ::
  "32 memory \<Rightarrow> byte list \<Rightarrow> nat \<Rightarrow> u32 \<Rightarrow> 32 memory option" where
  "process_injector_write_at m buffer l base_addr = process_injector_write_from m buffer l base_addr 0"

section \<open>Injection\<close>

text \<open>What the code to run looks like; no function calls it. \<open>%2x\<close> pads with a blank.\<close>

definition displaysh :: "byte list \<Rightarrow> nat \<Rightarrow> printed \<Rightarrow> printed option" where
  "displaysh sh l out =
    (if length sh < l then None
     else let digits = (\<lambda>b. let h = hexadecimal (unat b) in replicate (2 - length h) (CHR '' '') @ h);
         out = put_text Stdout (''shellcode : ...'' @ newline) out;
         out = foldl (\<lambda>out b. put_text Stdout (''0x'' @ digits b @ ''  '') out) out (take l sh)
       in Some (put_text Stdout (newline @ ''----------'' @ newline) out))"

text \<open>\<open>junk\<close> is what the uninitialised array \<open>buffer[shlen + 1]\<close> holds.\<close>

definition process_injector_load_dso ::
  "(tracee \<Rightarrow> tracee) \<Rightarrow> byte list \<Rightarrow> tracee \<Rightarrow> u32 \<Rightarrow> byte list \<Rightarrow> nat \<Rightarrow> (u32 \<times> tracee) option" where
  "process_injector_load_dso run junk t text sh shlen = do {
     let reg = tr_regs t;
     let bckreg = reg;
     buffer \<leftarrow> process_injector_read_at (tr_mem t) (take (shlen + 1) (junk @ replicate (shlen + 1) 0)) shlen text;
     m \<leftarrow> process_injector_write_at (tr_mem t) sh shlen text;
     let t = t\<lparr> tr_mem := m, tr_regs := reg\<lparr> eip := text + 2 \<rparr> \<rparr>;
     let t = run t;
     let ret = eax (tr_regs t);
     m \<leftarrow> process_injector_write_at (tr_mem t) buffer shlen text;
     Some (ret, t\<lparr> tr_mem := m, tr_regs := bckreg \<rparr>) }"

text \<open>\<open>attach\<close> is what \<open>ptrace(PTRACE_ATTACH)\<close> returns; a failure ends the program.\<close>

definition process_injector_inject ::
  "int \<Rightarrow> (tracee \<Rightarrow> tracee) \<Rightarrow> byte list \<Rightarrow> tracee \<Rightarrow> u32 \<Rightarrow> byte list \<Rightarrow> nat \<Rightarrow>
   (int + u32 \<times> tracee) option" where
  "process_injector_inject attach run junk t text sh shlen =
    (if attach \<noteq> 0 then Some (Inl 1)
     else do {
       r \<leftarrow> process_injector_load_dso run junk (t\<lparr> tr_attached := True \<rparr>) text sh shlen;
       Some (Inr (fst r, (snd r)\<lparr> tr_attached := False \<rparr>)) })"

text \<open>
  \<open>lines\<close> is what \<open>fgets\<close> yields from the maps file, \<open>None\<close> when it cannot be opened. \<open>feof\<close> is
  true only after a read that failed, and \<open>fgets\<close> then leaves the last line in the buffer, so the
  loop looks at the last line twice, or at the uninitialised buffer of an empty file.
\<close>

fun strstr :: "string \<Rightarrow> string \<Rightarrow> bool" where
  "strstr [] needle = (needle = [])"
| "strstr (c # s) needle = (take (length needle) (c # s) = needle \<or> strstr s needle)"

fun process_injector_check_lines :: "string list \<Rightarrow> string \<Rightarrow> string \<Rightarrow> bool" where
  "process_injector_check_lines [] line dsoname = strstr line dsoname"
| "process_injector_check_lines (l # ls) line dsoname =
     (if strstr l dsoname then True else process_injector_check_lines ls l dsoname)"

definition process_injector_check_for_dso :: "string list option \<Rightarrow> string \<Rightarrow> string \<Rightarrow> bool" where
  "process_injector_check_for_dso lines line dsoname = (case lines of
     None \<Rightarrow> False
   | Some ls \<Rightarrow> process_injector_check_lines ls line dsoname)"

section \<open>What the copies do\<close>

text \<open>A copy of \<open>l\<close> bytes touches the next multiple of four; the array must have that many.\<close>

lemma process_injector_write_from_fault:
  "process_injector_write_from m buffer l addr i = None \<longleftrightarrow>
   (\<exists>k. i + 4 * k < l \<and> length buffer < i + 4 * k + 4)"
proof (induction m buffer l addr i rule: process_injector_write_from.induct)
  case (1 m buffer l addr i)
  show ?case
  proof (cases "i < l \<and> i + 4 \<le> length buffer")
    case False
    then show ?thesis
      by (subst process_injector_write_from.simps)
        (auto simp: sizeof_long_def not_le intro: exI [of _ 0] dest: le_less_trans)
  next
    case True
    then have "process_injector_write_from m buffer l addr i = None \<longleftrightarrow>
        (\<exists>k. i + 4 + 4 * k < l \<and> length buffer < i + 4 + 4 * k + 4)"
      using 1 by (subst process_injector_write_from.simps) (simp add: sizeof_long_def)
    also have "\<dots> \<longleftrightarrow> (\<exists>k. i + 4 * k < l \<and> length buffer < i + 4 * k + 4)" (is "?L \<longleftrightarrow> ?R")
    proof
      assume ?L
      then obtain k where "i + 4 + 4 * k < l \<and> length buffer < i + 4 + 4 * k + 4" ..
      then show ?R by (intro exI [of _ "Suc k"]) simp
    next
      assume ?R
      then obtain k where k: "i + 4 * k < l \<and> length buffer < i + 4 * k + 4" ..
      with True obtain j where "k = Suc j" by (cases k) auto
      then show ?L using k by (intro exI [of _ j]) simp
    qed
    finally show ?thesis .
  qed
qed

lemma ptrace_peek_length [simp]: "length (ptrace_peek m a) = sizeof_long"
  by (auto simp: ptrace_peek_def load_bytes_iff split: option.split)

text \<open>Copies of whole words.\<close>

lemma load_bytes_append:
  "load_bytes m a (j + k) = do {
     x \<leftarrow> load_bytes m a j; y \<leftarrow> load_bytes m (a + of_nat j) k; Some (x @ y) }"
  by (induction j arbitrary: a) (simp_all add: add.assoc)

lemma put_bytes_append:
  "put_bytes m a (xs @ ys) = put_bytes (put_bytes m a xs) (a + of_nat (length xs)) ys"
  by (induction xs arbitrary: m a) (simp_all add: add.assoc)

lemma mapped_append: "mapped m a (j + k) \<longleftrightarrow> mapped m a j \<and> mapped m (a + of_nat j) k"
  by (induction j arbitrary: a) (auto simp: add.assoc)

lemma mapped_load_bytes: "mapped m a n \<Longrightarrow> \<exists>bs. load_bytes m a n = Some bs \<and> length bs = n"
  by (metis load_bytes_None_iff load_bytes_iff option.exhaust)

lemma process_injector_read_words:
  "load_bytes m addr (4 * n) = Some bs \<Longrightarrow> i + 4 * n \<le> length buff \<Longrightarrow>
   process_injector_read_from m buff (i + 4 * n) addr i =
   Some (take i buff @ bs @ drop (i + 4 * n) buff)"
proof (induction n arbitrary: buff addr i bs)
  case 0
  then show ?case by (simp add: process_injector_read_from.simps)
next
  case (Suc n)
  have "load_bytes m addr (4 + 4 * n) = Some bs" using Suc.prems(1) by simp
  then obtain x y where xy: "load_bytes m addr 4 = Some x" "load_bytes m (addr + of_nat 4) (4 * n) = Some y"
    "bs = x @ y"
    unfolding load_bytes_append by (auto simp: bind_eq_Some_conv)
  then have peek: "ptrace_peek m addr = x" "length x = 4"
    by (simp_all add: ptrace_peek_def sizeof_long_def) (simp add: load_bytes_iff)
  have "process_injector_read_from m (take i buff @ x @ drop (i + 4) buff) (i + 4 + 4 * n) (addr + of_nat 4) (i + 4) =
      Some (take (i + 4) (take i buff @ x @ drop (i + 4) buff) @ y @
        drop (i + 4 + 4 * n) (take i buff @ x @ drop (i + 4) buff))"
    using Suc.prems(2) peek(2) by (intro Suc.IH [OF xy(2)]) simp
  then show ?case
    using Suc.prems(2) peek xy(3)
    by (subst process_injector_read_from.simps) (simp add: sizeof_long_def ac_simps)
qed

lemma process_injector_write_words:
  "mapped m addr (4 * n) \<Longrightarrow> i + 4 * n \<le> length buffer \<Longrightarrow>
   process_injector_write_from m buffer (i + 4 * n) addr i =
   Some (put_bytes m addr (take (4 * n) (drop i buffer)))"
proof (induction n arbitrary: m addr i)
  case 0
  then show ?case by (simp add: process_injector_write_from.simps)
next
  case (Suc n)
  define x where "x = take 4 (drop i buffer)"
  have x: "length x = 4" using Suc.prems(2) by (simp add: x_def)
  have "mapped m addr (4 + 4 * n)" using Suc.prems(1) by simp
  then have mp: "mapped m addr 4" "mapped m (addr + of_nat 4) (4 * n)"
    unfolding mapped_append by simp_all
  then have poke: "ptrace_poke m addr x = put_bytes m addr x"
    by (simp add: ptrace_poke_def store_bytes_def x)
  have "process_injector_write_from (put_bytes m addr x) buffer (i + 4 + 4 * n) (addr + of_nat 4) (i + 4) =
      Some (put_bytes (put_bytes m addr x) (addr + of_nat 4) (take (4 * n) (drop (i + 4) buffer)))"
    using Suc.prems(2) mp x by (intro Suc.IH) (simp_all add: mapped_put_bytes)
  moreover have "take (4 * Suc n) (drop i buffer) = x @ take (4 * n) (drop (i + 4) buffer)"
    by (simp add: x_def take_add add.commute)
  ultimately show ?case
    using Suc.prems(2) x poke
    by (subst process_injector_write_from.simps)
      (simp add: sizeof_long_def put_bytes_append x_def [symmetric] add.assoc)
qed

lemma process_injector_load_dso_words:
  assumes orig: "load_bytes (tr_mem t) text (4 * n) = Some saved"
    and sh: "length sh = 4 * n"
    and t1: "t1 = run (t\<lparr> tr_mem := put_bytes (tr_mem t) text sh,
      tr_regs := (tr_regs t)\<lparr> eip := text + 2 \<rparr> \<rparr>)"
    and kept: "mapped (tr_mem t1) text (4 * n)"
  shows "process_injector_load_dso run junk t text sh (4 * n) =
    Some (eax (tr_regs t1), t1\<lparr> tr_mem := put_bytes (tr_mem t1) text saved, tr_regs := tr_regs t \<rparr>)"
proof -
  define buff where "buff = take (4 * n + 1) (junk @ replicate (4 * n + 1) (0 :: byte))"
  have len: "length buff = 4 * n + 1" by (simp add: buff_def)
  have saved: "length saved = 4 * n" using orig by (simp add: load_bytes_iff)
  have "process_injector_read_at (tr_mem t) buff (4 * n) text = Some (saved @ drop (4 * n) buff)"
    using process_injector_read_words [OF orig, of 0 buff] len
    by (simp add: process_injector_read_at_def)
  moreover have "process_injector_write_at (tr_mem t) sh (4 * n) text = Some (put_bytes (tr_mem t) text sh)"
    using process_injector_write_words [of "tr_mem t" "text" n 0 sh] sh orig
    by (simp add: process_injector_write_at_def) (metis load_bytes_None_iff option.distinct(1))
  moreover have "process_injector_write_at (tr_mem t1) (saved @ drop (4 * n) buff) (4 * n) text =
      Some (put_bytes (tr_mem t1) text saved)"
    using process_injector_write_words [OF kept, of 0 "saved @ drop (4 * n) buff"] saved
    by (simp add: process_injector_write_at_def)
  ultimately show ?thesis
    unfolding process_injector_load_dso_def buff_def [symmetric] by (simp add: Let_def t1 [symmetric])
qed

end
