(* ===== verification/Injector_Properties.thy ===== *)
theory Injector_Properties
  imports Map_Parser
begin

text \<open>
  The properties of the injector and of the program around it, each with its witness.
\<close>

definition stopped :: tracee where
  "stopped = \<lparr> tr_mem = \<lambda>_. Some 7, tr_regs = \<lparr> eip = 1, eax = 5, others = [] \<rparr>, tr_attached = True \<rparr>"

definition no_task :: task_desc_t where
  "no_task = \<lparr> td_fd = 0, td_map = 0, td_mem = 0, td_len = 0, td_info = lop_info_zero \<rparr>"

definition no_lib :: lib_desc_t where
  "no_lib = \<lparr> lib_fd = 0, lib_base = 0, lib_len = 0, lib_info = lop_info_zero, lib_vaddr = 0 \<rparr>"

definition failing_kernel :: "u32 kernel" where
  "failing_kernel = \<lparr> k_open = \<lambda>_. Inr 3, k_fstat = \<lambda>_. Inr 9, k_stat = \<lambda>_. None,
     k_mmap = \<lambda>_ _. Inl 12, k_close = \<lambda>_. None, k_fopen = \<lambda>_. Some 5 \<rparr>"

section \<open>Injection\<close>

text \<open>
  C30: for code of a multiple of four bytes, process_injector_load_dso runs the traced process
  on the injected code from text + 2, returns its eax, and puts back the registers and every
  byte of the text it overwrote, leaving the rest as the injected code left it.
\<close>

theorem process_injector_restores:
  assumes "load_bytes (tr_mem t) text (4 * n) = Some saved" "length sh' = 4 * n" "4 * n \<le> 2 ^ 32"
    and "t1 = run (t\<lparr> tr_mem := put_bytes (tr_mem t) text sh',
      tr_regs := (tr_regs t)\<lparr> eip := text + 2 \<rparr> \<rparr>)"
    and "mapped (tr_mem t1) text (4 * n)"
  shows "\<exists>t'. process_injector_load_dso run junk t text sh' (4 * n) = Some (eax (tr_regs t1), t') \<and>
    tr_regs t' = tr_regs t \<and>
    (\<forall>i<4 * n. tr_mem t' (text + of_nat i) = tr_mem t (text + of_nat i)) \<and>
    (\<forall>a. (\<forall>i<4 * n. a \<noteq> text + of_nat i) \<longrightarrow> tr_mem t' a = tr_mem t1 a)"
proof (intro exI conjI allI impI)
  show "process_injector_load_dso run junk t text sh' (4 * n) =
    Some (eax (tr_regs t1), t1\<lparr> tr_mem := put_bytes (tr_mem t1) text saved, tr_regs := tr_regs t \<rparr>)"
    by (rule process_injector_load_dso_words [where run = run, OF assms(1,2,4,5)])
  have saved: "length saved = 4 * n" "\<forall>i<4 * n. tr_mem t (text + of_nat i) = Some (saved ! i)"
    using assms(1) by (simp_all add: load_bytes_iff)
  show "tr_mem (t1\<lparr> tr_mem := put_bytes (tr_mem t1) text saved, tr_regs := tr_regs t \<rparr>) (text + of_nat i) =
      tr_mem t (text + of_nat i)" if "i < 4 * n" for i
    using that saved assms(3) by (simp add: put_bytes_inside)
  show "tr_mem (t1\<lparr> tr_mem := put_bytes (tr_mem t1) text saved, tr_regs := tr_regs t \<rparr>) a = tr_mem t1 a"
    if "\<forall>i<4 * n. a \<noteq> text + of_nat i" for a
    using that saved(1) by (simp add: put_bytes_outside)
qed simp

theorem process_injector_restores_witness:
  "\<exists>t'. process_injector_load_dso id [] stopped 64 [1, 2, 3, 4] 4 = Some (5, t') \<and>
    tr_mem t' 66 = Some 7 \<and> eip (tr_regs t') = 1"
proof -
  let ?t1 = "id (stopped\<lparr> tr_mem := put_bytes (tr_mem stopped) 64 [1, 2, 3, 4],
      tr_regs := (tr_regs stopped)\<lparr> eip := 64 + 2 \<rparr> \<rparr>)"
  have l: "load_bytes (tr_mem stopped) 64 (4 * 1) = Some [7, 7, 7, 7]"
    by (simp add: stopped_def eval_nat_numeral)
  have k: "mapped (tr_mem ?t1) 64 (4 * 1)" by (simp add: stopped_def eval_nat_numeral)
  obtain t' where t': "process_injector_load_dso id [] stopped 64 [1, 2, 3, 4] (4 * 1) = Some (eax (tr_regs ?t1), t')"
    "tr_regs t' = tr_regs stopped" "\<forall>i<4 * 1. tr_mem t' (64 + of_nat i) = tr_mem stopped (64 + of_nat i)"
    using process_injector_restores [of stopped 64 1 "[7, 7, 7, 7]" "[1, 2, 3, 4]" ?t1 id "[]"] l k by auto
  then have "tr_mem t' 66 = Some 7" using t'(3) [rule_format, of 2] by (simp add: stopped_def)
  then show ?thesis using t' by (auto simp: stopped_def)
qed

lemma process_injector_load_dso_partial:
  assumes "length sh' mod 4 \<noteq> 0"
  shows "process_injector_load_dso run junk t text sh' (length sh') = None"
proof -
  obtain k where k: "4 * k < length sh'" "length sh' < 4 * k + 4"
    using assms by (intro that [of "length sh' div 4"]) presburger+
  then have "process_injector_write_at (tr_mem t) sh' (length sh') text = None"
    unfolding process_injector_write_at_def process_injector_write_from_fault by auto
  then show ?thesis
    by (cases "process_injector_read_at (tr_mem t)
        (take (length sh' + 1) (junk @ replicate (length sh' + 1) 0)) (length sh') text")
      (simp_all only: process_injector_load_dso_def Let_def Option.bind.simps)
qed

text \<open>
  Code whose length is not a multiple of the word size overruns the arrays of the injection.
\<close>

theorem process_injector_partial_word:
  assumes "length sh' mod 4 \<noteq> 0"
  shows "process_injector_load_dso run junk t text sh' (length sh') = None"
  using assms by (rule process_injector_load_dso_partial)

theorem process_injector_partial_word_witness:
  "process_injector_load_dso id [] stopped 64 sh (length sh) = None"
  by (rule process_injector_partial_word) (simp add: sh_def)

section \<open>The program\<close>

lemma lop_read_dynsym_section_exit: "lop_read_dynsym_section m ptr = Some (Inl e) \<Longrightarrow> e = 1"
  by (auto simp: lop_read_dynsym_section_def split: Option.bind_split_asm if_split_asm option.split_asm)

lemma lop_init_info_result:
  "lop_init_info m base = Some x \<Longrightarrow> (\<forall>e. x = Inl e \<longrightarrow> e = 1) \<and> (\<forall>r info. x = Inr (r, info) \<longrightarrow> r = 0)"
  by (auto simp: lop_init_info_def Let_def dest: lop_read_dynsym_section_exit
    split: Option.bind_split_asm if_split_asm sum.split_asm prod.split_asm)

lemma lop_init_info_exit: "lop_init_info m base = Some (Inl e) \<Longrightarrow> e = 1"
  by (drule lop_init_info_result) simp

lemma lop_init_info_0: "lop_init_info m base = Some (Inr (r, info)) \<Longrightarrow> r = 0"
  by (drule lop_init_info_result) simp

lemma map_parser_init_lib_hooker_exit:
  "map_parser_init_lib_hooker K m lib path held = Some (Inl e) \<Longrightarrow> e = 1"
  by (auto simp: map_parser_init_lib_hooker_def Let_def dest: lop_init_info_exit
    split: Option.bind_split_asm sum.split_asm option.split_asm prod.split_asm)

lemma map_parser_build_procfs_full:
  "length what \<le> 4 \<Longrightarrow> map_parser_build_procfs_filename pid what (12 + length what + 1) =
   (length (proc_file (decimal (nat (pid mod 2 ^ 16))) what), proc_file (decimal (nat (pid mod 2 ^ 16))) what)"
  using map_parser_build_procfs_fits [of pid]
  by (simp add: map_parser_build_procfs_filename_def Let_def proc_file_def)

lemma map_parser_init_eq:
  "map_parser_init K m td pid held = (
     let d = decimal (nat (pid mod 2 ^ 16)) in
     case sys_fopen K (proc_file d ''maps'') held of
       (None, held) \<Rightarrow> Some (Inl 1, held)
     | (Some fp, held) \<Rightarrow> (case sys_open K (proc_file d ''exe'') held of
         (Inl e, held) \<Rightarrow> Some (Inl 1, sys_fclose fp held)
       | (Inr fd, held) \<Rightarrow> (case k_fstat K fd of
           Inl e \<Rightarrow> Some (Inl 1, sys_fclose fp (sys_close fd held))
         | Inr st_size \<Rightarrow> (case sys_mmap K fd st_size held of
             (Inl e, held) \<Rightarrow> Some (Inl 1, sys_fclose fp (sys_close fd held))
           | (Inr (addr, m), held) \<Rightarrow> do {
               r \<leftarrow> lop_init_info m addr;
               (case r of
                  Inl e \<Rightarrow> Some (Inl e, held)
                | Inr (ret', info) \<Rightarrow> Some (Inr (0, \<lparr> td_fd = fd, td_map = addr, td_mem = fp,
                    td_len = st_size, td_info = info \<rparr>, m), held)) }))))"
proof -
  have "map_parser_build_procfs_filename pid ''maps'' 17 =
      (length (proc_file (decimal (nat (pid mod 2 ^ 16))) ''maps''), proc_file (decimal (nat (pid mod 2 ^ 16))) ''maps'')"
    "map_parser_build_procfs_filename pid ''exe'' 16 =
      (length (proc_file (decimal (nat (pid mod 2 ^ 16))) ''exe''), proc_file (decimal (nat (pid mod 2 ^ 16))) ''exe'')"
    using map_parser_build_procfs_full [of "''maps''" pid] map_parser_build_procfs_full [of "''exe''" pid]
    by simp_all
  moreover have "length (proc_file (decimal (nat (pid mod 2 ^ 16))) ''maps'') \<le> 16"
    "length (proc_file (decimal (nat (pid mod 2 ^ 16))) ''exe'') \<le> 15"
    using map_parser_build_procfs_fits [of pid] by (simp_all add: proc_file_def)
  ultimately show ?thesis
    by (simp add: map_parser_init_def Let_def del: power_Suc power_numeral)
qed

lemma map_parser_init_cases:
  assumes "map_parser_init K m td pid held = Some (r, held')"
  shows "case r of
      Inr (ret, td', m') \<Rightarrow> ret = 0 \<and> map_parser_exit td' held' = held \<and>
        lop_init_info m' (td_map td') = Some (Inr (0, td_info td'))
    | Inl e \<Rightarrow> e = 1 \<and> (held' = held \<or>
        (\<exists>addr len fd fp. held' = Mapping addr len # Fd fd # Stream fp # held))"
  using assms unfolding map_parser_init_eq Let_def sys_fopen_def sys_open_def sys_mmap_def
  by (auto simp: sys_fclose_def sys_close_def sys_munmap_def map_parser_exit_def
    acquire_def release_def dest: lop_init_info_exit lop_init_info_0
    split: Option.bind_split_asm sum.split_asm option.split_asm prod.split_asm)

lemma map_parser_init_exit: "map_parser_init K m td pid held = Some (Inl e, h) \<Longrightarrow> e = 1"
  by (drule map_parser_init_cases) simp

text \<open>
  The program never gets to the redirection within the bounds of its arrays: the 90 bytes of
  sh are not a multiple of sizeof(long), so the only result it can return is exit status 1
  with the traced process untouched.
\<close>

theorem map_parser_main_fails:
  assumes "map_parser_main K m run junk td lib attach1 attach2 pid path t held = Some (r, t', held')"
  shows "r = 1 \<and> t' = t"
proof -
  have "process_injector_load_dso run junk (t\<lparr> tr_attached := True \<rparr>) a sh (length sh) = None" for a t
    by (rule process_injector_load_dso_partial) (simp add: sh_def)
  then have inject: "process_injector_inject attach1 run junk t a sh (length sh) \<noteq> Some (Inr x)" for a x t
    by (simp add: process_injector_inject_def)
  have inject_exit: "process_injector_inject attach1 run junk t a sh (length sh) = Some (Inl e) \<Longrightarrow> e = 1" for a e t
    by (simp add: process_injector_inject_def bind_simps split: if_split_asm)
  show ?thesis
    using assms unfolding map_parser_main_def
    by (auto simp: inject dest!: map_parser_init_exit map_parser_init_lib_hooker_exit inject_exit
      split: Option.bind_split_asm sum.split_asm prod.split_asm)
qed

theorem map_parser_main_fails_witness:
  "\<exists>h. map_parser_main failing_kernel (\<lambda>_. None) id [] no_task no_lib 0 0 77 ''x'' stopped [] = Some (1, stopped, h)"
proof -
  obtain r t' h where m: "map_parser_main failing_kernel (\<lambda>_. None) id [] no_task no_lib 0 0 77 ''x'' stopped [] =
      Some (r, t', h)"
    by (simp add: map_parser_main_def map_parser_init_eq sys_defs failing_kernel_def)
  from map_parser_main_fails [OF m] m show ?thesis by auto
qed

text \<open>
  C38: map_parser_init returns 0 with the information lop_init_info reads from the mapping and
  resources that map_parser_exit gives back, or ends the program with status 1, after a failed
  system call with everything it took given back.
\<close>

theorem map_parser_init_unwinds:
  assumes "map_parser_init K m td pid held = Some (r, held')"
  shows "case r of
      Inr (ret, td', m') \<Rightarrow> ret = 0 \<and> map_parser_exit td' held' = held \<and>
        lop_init_info m' (td_map td') = Some (Inr (0, td_info td'))
    | Inl e \<Rightarrow> e = 1 \<and> (held' = held \<or>
        (\<exists>addr len fd fp. held' = Mapping addr len # Fd fd # Stream fp # held))"
  using assms by (rule map_parser_init_cases)

theorem map_parser_init_unwinds_witness:
  "map_parser_init failing_kernel (\<lambda>_. None) no_task 77 [] = Some (Inl 1, [])"
proof -
  obtain h where h: "map_parser_init failing_kernel (\<lambda>_. None) no_task 77 [] = Some (Inl 1, h)" "length h = 0"
    by (simp add: map_parser_init_eq sys_defs acquire_def release_def failing_kernel_def)
  from map_parser_init_unwinds [OF h(1)] h show ?thesis by auto
qed

text \<open>
  The process number counts only modulo 65536.
\<close>

theorem map_parser_init_pid_wraps:
  "map_parser_init K m td (pid + 65536) held = map_parser_init K m td pid held"
  by (simp add: map_parser_init_eq)
end
