(* ===== verification/Got_Demo.thy ===== *)
theory Got_Demo
  imports Dbg_Print
begin

text \<open>
  The programs \<open>got_modifier\<close> is tried on: \<open>libtest.c\<close>, whose \<open>evilprint\<close> is injected in place of a
  function of \<open>target.c\<close>, a program that counts. The kernel's answer to \<open>write\<close> is an argument.
\<close>

section \<open>libtest.c\<close>

text \<open>
  \<open>int $0x80\<close> with \<open>SYS_write\<close>: the number of bytes written or a negated \<open>errno\<close>; what reaches the
  descriptor is that many of the bytes. \<open>buf\<close> has the bytes of the buffer, and reading past it is
  a fault.
\<close>

type_synonym writes = "(int \<times> byte list) list"

definition sys_write :: "(int \<Rightarrow> byte list \<Rightarrow> int) \<Rightarrow> int \<Rightarrow> byte list \<Rightarrow> nat \<Rightarrow> writes \<Rightarrow> (int \<times> writes) option" where
  "sys_write K fd buf count w = (
     if length buf < count then None
     else let r = K fd (take count buf)
       in Some (r, if 0 \<le> r then w @ [(fd, take (nat r) (take count buf))] else w))"

definition c_write :: "(int \<Rightarrow> byte list \<Rightarrow> int) \<Rightarrow> int \<Rightarrow> byte list \<Rightarrow> nat \<Rightarrow> writes \<Rightarrow> (int \<times> writes) option" where
  "c_write K fd buf count w = do {
     (ret, w) \<leftarrow> sys_write K fd buf count w;
     Some (if ret \<ge> 0 then ret else - 1, w) }"

text \<open>The twenty stores into \<open>msg\<close>, of which the uninitialised contents are \<open>old\<close>.\<close>

definition evil_msg :: "byte list \<Rightarrow> byte list" where
  "evil_msg old = old[0 := 102, 1 := 114, 2 := 101, 3 := 100, 4 := 32, 5 := 108, 6 := 101, 7 := 32,
     8 := 98, 9 := 101, 10 := 97, 11 := 117, 12 := 32, 13 := 103, 14 := 111, 15 := 115, 16 := 115,
     17 := 101, 18 := 10, 19 := 0]"

text \<open>
  The function ends without \<open>return\<close>: what it returns is whatever the caller finds, and is left out.
\<close>

definition evilprint :: "(int \<Rightarrow> byte list \<Rightarrow> int) \<Rightarrow> byte list \<Rightarrow> byte list \<Rightarrow> writes \<Rightarrow> writes option" where
  "evilprint K old buf w = do {
     let msg = evil_msg old;
     (ret, w) \<leftarrow> c_write K 1 msg 18 w;
     Some w }"

section \<open>target.c\<close>

text \<open>
  The loop has no end: its first \<open>n\<close> rounds. The counter is an \<open>int\<close>, and incrementing it past its
  maximum is undefined, a fault.
\<close>

fun target_loop :: "nat \<Rightarrow> int \<Rightarrow> printed \<Rightarrow> printed option" where
  "target_loop 0 i out = Some out"
| "target_loop (Suc n) i out =
    (if i < 2 ^ 31 - 1
     then target_loop n (i + 1) (put_text Stdout (decimal_int i @ newline) out) else None)"

definition target_main :: "nat \<Rightarrow> int \<Rightarrow> printed option" where
  "target_main rounds pid = target_loop rounds 0 (put_text Stdout (decimal_int pid @ newline) [])"

section \<open>Properties\<close>

lemma eighteen_bytes:
  assumes "length xs = 18"
  shows "\<exists>a b c d e f g h i j k l m n p q r s. xs = [a, b, c, d, e, f, g, h, i, j, k, l, m, n, p, q, r, s]"
proof -
  have "length xs = Suc (Suc (Suc (Suc (Suc (Suc (Suc (Suc (Suc (Suc (Suc (Suc (Suc (Suc (Suc (Suc (Suc (Suc 0)))))))))))))))))"
    using assms by simp
  then show ?thesis unfolding length_Suc_conv length_0_conv by blast
qed

lemma take_evil_msg:
  assumes "length old = 200"
  shows "take 18 (evil_msg old) = map of_char ''fred le beau gosse''" "evil_msg old ! 18 = 10"
proof -
  have l: "length (take 18 old) = 18" by (simp add: assms)
  obtain a b c d e f g h i j k l m n p q r s where
    "take 18 old = [a, b, c, d, e, f, g, h, i, j, k, l, m, n, p, q, r, s]"
    using eighteen_bytes [OF l] by (elim exE)
  then show "take 18 (evil_msg old) = map of_char ''fred le beau gosse''"
    by (simp add: evil_msg_def take_update_swap)
  show "evil_msg old ! 18 = 10" by (simp add: evil_msg_def assms)
qed

lemma target_loop_prints:
  "0 \<le> i \<Longrightarrow> i + int n \<le> 2 ^ 31 - 1 \<Longrightarrow>
   target_loop n i out = Some (out @ map (\<lambda>k. (Stdout, decimal_int (i + int k) @ newline)) [0..<n])"
proof (induction n arbitrary: i out)
  case 0
  then show ?case by simp
next
  case (Suc n)
  have "[0..<Suc n] = 0 # map Suc [0..<n]" by (simp add: upt_conv_Cons map_Suc_upt del: upt_Suc)
  then show ?case using Suc by (simp add: put_text_def comp_def algebra_simps del: upt_Suc)
qed

text \<open>
  The injected function writes its 18 bytes to the standard output and the target counts from
  0.
\<close>

theorem got_demo_output:
  assumes "length old = 200" "\<And>fd bs. K fd bs = int (length bs)" "rounds < 2 ^ 31"
  shows "evilprint K old buf w = Some (w @ [(1, map of_char ''fred le beau gosse'')]) \<and>
    target_main rounds pid = Some ((Stdout, decimal_int pid @ newline) #
      map (\<lambda>k. (Stdout, decimal_int (int k) @ newline)) [0..<rounds])"
  using assms target_loop_prints [of 0 rounds] take_evil_msg [OF assms(1)]
  by (simp add: evilprint_def c_write_def sys_write_def evil_msg_def target_main_def put_text_def)

theorem got_demo_output_witness:
  "evilprint (\<lambda>fd bs. int (length bs)) (replicate 200 1) [] [] = Some [(1, map of_char ''fred le beau gosse'')]"
  using got_demo_output [of "replicate 200 1" "\<lambda>fd bs. int (length bs)" 2 "[]" "[]"] by simp

end
