(* ===== verification/Sig_Looker.thy ===== *)
theory Sig_Looker
  imports Sym_Test
begin

text \<open>
  \<open>sig_looker/sig_look.c\<close> on i386: a constructor installs a handler for \<open>SIGSEGV\<close> that reports the
  signal and the function it came from, and a program that stores through a null pointer. The
  function \<open>sym_resolv_get_funcname_by_addr\<close> the handler calls is not in the repository (the
  resolver has a static function of a similar name with other arguments): it is the argument
  \<open>se_lookup\<close>, of which \<open>lookup_ok\<close> says what the handler expects. The function of the resolver that
  takes the arguments of the call, \<open>sym_resolv_addr\<close>, satisfies it.
\<close>

section \<open>The handler\<close>

definition SEGV_MAPERR :: int where "SEGV_MAPERR = 1"
definition SEGV_ACCERR :: int where "SEGV_ACCERR = 2"

definition sig_looker_sigsegvcode_itoa :: "int \<Rightarrow> string" where
  "sig_looker_sigsegvcode_itoa code = (
     if code = SEGV_MAPERR \<or> code = SEGV_ACCERR
     then (if code = SEGV_MAPERR then ''addr_not_mapped'' else ''addr_not_allowed'')
     else ''code_unknown'')"

text \<open>
  The part of \<open>siginfo_t\<close> the handler reads. \<open>si_addr\<close> and \<open>si_pid\<close> are members of a union: the same
  word, read as a pointer and as a \<open>pid_t\<close>.
\<close>

record siginfo =
  si_code :: int
  si_word :: u32

definition si_addr :: "siginfo \<Rightarrow> u32" where "si_addr info = si_word info"
definition si_pid :: "siginfo \<Rightarrow> int" where "si_pid info = sint (si_word info)"

type_synonym sig_lookup =
  "mem32 \<Rightarrow> sym_resolv_desc \<Rightarrow> u32 list \<Rightarrow> sym_resolv list \<Rightarrow> nat \<Rightarrow> (int \<times> sym_resolv list) option"

text \<open>What the handler finds around it: the symbol table of signal names, the memory, its return
  address, and its uninitialised variables.\<close>

record sig_env =
  se_show :: bool
  se_kernel :: "u32 kernel"
  se_memory :: mem32
  se_pid :: int
  se_siglist :: "int \<Rightarrow> string"
  se_lookup :: sig_lookup
  se_return :: u32
  se_desc :: sym_resolv_desc
  se_res :: sym_resolv

text \<open>\<open>gregs\<close> are the registers of the context, of which the fourteenth is the instruction pointer.\<close>

definition sig_looker_on_segv ::
  "sig_env \<Rightarrow> int \<Rightarrow> siginfo \<Rightarrow> (nat \<Rightarrow> u32) option \<Rightarrow> printed \<Rightarrow> u32 held \<Rightarrow> (printed \<times> u32 held) option" where
  "sig_looker_on_segv E signum info ucontext out held = (
     let gip = (case ucontext of Some gregs \<Rightarrow> gregs 14 | None \<Rightarrow> 0);
         print = dbg_print (se_show E) Stderr;
         out = print (''signal='' @ se_siglist E signum @ '';'') out;
         out = print ('' code='' @ sig_looker_sigsegvcode_itoa (si_code info) @ '';'') out;
         out = print ('' addr_access='' @ pointer_text (si_addr info) @ '';'') out;
         out = print ('' sender='' @ decimal_int (si_pid info)) out;
         ptr = (if gip \<noteq> 0 then gip else se_return E)
     in do {
       (r, desc, m, held) \<leftarrow> sym_resolv_open (se_kernel E) (se_memory E) (se_pid E) (se_desc E) held;
       if r = 0 then do {
         (ret, res) \<leftarrow> se_lookup E m desc [ptr] [se_res E] 1;
         name \<leftarrow> buffer_text (sr_symname (hd res));
         let out = print ('' in=['' @ name @ '','' @ pointer_text (sr_symaddr (hd res)) @ '']'' @ newline) out;
         Some (out, sym_resolv_close desc held) }
       else Some (out, held) })"

section \<open>The process\<close>









section \<open>What the handler expects of the lookup\<close>



section \<open>Properties\<close>

definition report :: "sig_env \<Rightarrow> int \<Rightarrow> siginfo \<Rightarrow> printed" where
  "report E signum info = map (\<lambda>s. (Stderr, s))
     [''signal='' @ se_siglist E signum @ '';'',
      '' code='' @ sig_looker_sigsegvcode_itoa (si_code info) @ '';'',
      '' addr_access='' @ pointer_text (si_addr info) @ '';'',
      '' sender='' @ decimal_int (si_pid info)]"

text \<open>What the handler printed and holds when it returns.\<close>

lemma sig_looker_on_segv_returns:
  assumes "sig_looker_on_segv E signum info ucontext out held = Some (out', held')" "se_show E"
    and "\<forall>fd. k_open (se_kernel E) (proc_file (decimal_int (se_pid E)) ''exe'') = Inr fd \<longrightarrow> 0 < fd"
  shows "held' = held \<and> (out' = out @ report E signum info \<or>
    (\<exists>s. out' = out @ report E signum info @ [(Stderr, '' in=['' @ s)]))"
proof -
  obtain r desc m h where o:
    "sym_resolv_open (se_kernel E) (se_memory E) (se_pid E) (se_desc E) held = Some (r, desc, m, h)"
    using assms(1) by (auto simp: sig_looker_on_segv_def Let_def bind_simps)
  show ?thesis
  proof (cases "r = 0")
    case True
    then have "sym_resolv_close desc h = held" using sym_resolv_open_resources [OF o] by simp
    then show ?thesis
      using assms(1,2) True
      by (auto simp: sig_looker_on_segv_def Let_def o bind_eq_Some_conv dbg_print_eq report_def)
  next
    case False
    then have "h = held"
      using sym_resolv_open_resources [OF o] assms(3) by (auto split: sum.split_asm if_split_asm)
    then show ?thesis
      using assms(1,2) False by (auto simp: sig_looker_on_segv_def Let_def o dbg_print_eq report_def)
  qed
qed





end
