(* ===== verification/Squash_Packet.thy ===== *)
theory Squash_Packet
  imports C_Memory
begin

text \<open>
  \<open>nfqueue_example/squash_packet.c\<close>: the packet callback of a netfilter queue, which overwrites the
  payload of some TCP packets. The packet lies in the memory of the process at an address; fields
  of the headers are read and written in network byte order. What libnet and libnetfilter_queue
  answer are arguments: \<open>libnet_do_checksum\<close> yields the memory with the checksum in it, or \<open>None\<close>
  for an error.
\<close>

section \<open>Headers\<close>

type_synonym mem = "64 memory"

definition IPPROTO_TCP :: u8 where "IPPROTO_TCP = 6"
definition IPPROTO_IP :: u8 where "IPPROTO_IP = 0"
definition NF_ACCEPT :: int where "NF_ACCEPT = 1"

definition ntohs :: "mem \<Rightarrow> u64 \<Rightarrow> u16 option" where
  "ntohs m a = do { hi \<leftarrow> m a; lo \<leftarrow> m (a + 1); Some (push_bit 8 (ucast hi) OR ucast lo) }"

definition htons :: "u16 \<Rightarrow> byte list" where
  "htons w = [ucast (drop_bit 8 w), ucast w]"

definition ip_hl :: "mem \<Rightarrow> u64 \<Rightarrow> u8 option" where
  "ip_hl m iphdr = do { b \<leftarrow> m iphdr; Some (b AND 0xf) }"

definition tcp_doff :: "mem \<Rightarrow> u64 \<Rightarrow> u8 option" where
  "tcp_doff m tcphdr = do { b \<leftarrow> m (tcphdr + 12); Some (drop_bit 4 b) }"

definition ip_len_at :: "u64 \<Rightarrow> u64" where "ip_len_at iphdr = iphdr + 2"
definition ip_p_at :: "u64 \<Rightarrow> u64" where "ip_p_at iphdr = iphdr + 9"
definition ip_sum_at :: "u64 \<Rightarrow> u64" where "ip_sum_at iphdr = iphdr + 10"

section \<open>Corrupting a packet\<close>

text \<open>The bytes of the string that replaces a payload.\<close>

definition http_payload :: "byte list" where
  "http_payload = [10, 106, 101, 32, 115, 117, 105, 115, 32, 117, 110, 101, 32, 102, 105, 111, 116, 116, 101, 10]"

text \<open>
  The result is the status \<open>exit\<close> is given on the left, or what the function returns and the
  memory. All lengths are \<open>size_t\<close> and wrap. The payload is cleared before the test of its length.
\<close>

definition corrupt_packet ::
  "(mem \<Rightarrow> u64 \<Rightarrow> u8 \<Rightarrow> u64 \<Rightarrow> mem option) \<Rightarrow> mem \<Rightarrow> u64 \<Rightarrow> u64 \<Rightarrow> (int + int \<times> mem) option" where
  "corrupt_packet libnet_do_checksum m iphdr tcphdr = do {
     let http_payload_len = (of_nat (length http_payload) :: u64);
     hl \<leftarrow> ip_hl m iphdr;
     let iphdr_len = (ucast hl * 4 :: u64);
     l \<leftarrow> ntohs m (ip_len_at iphdr);
     let ip_len = (ucast l :: u64);
     doff \<leftarrow> tcp_doff m tcphdr;
     let tcphdr_len = (ucast doff * 4 :: u64);
     let tcp_len = ip_len - iphdr_len;
     let data_len = tcp_len - tcphdr_len;
     let new_ip_len = ip_len - (data_len - http_payload_len);
     let new_tcp_len = new_ip_len - iphdr_len;
     m \<leftarrow> store_bytes m (tcphdr + tcphdr_len) (replicate (unat data_len) 0);
     if http_payload_len > data_len then Some (Inr (0, m))
     else do {
       m \<leftarrow> store_bytes m (tcphdr + tcphdr_len) http_payload;
       m \<leftarrow> store_bytes m (ip_len_at iphdr) (htons (ucast new_ip_len));
       (case libnet_do_checksum m iphdr IPPROTO_TCP new_tcp_len of
          None \<Rightarrow> Some (Inl 1)
        | Some m \<Rightarrow> do {
            m \<leftarrow> store_bytes m (ip_sum_at iphdr) [0, 0];
            (case libnet_do_checksum m iphdr IPPROTO_IP iphdr_len of
               None \<Rightarrow> Some (Inl 1)
             | Some m \<Rightarrow> Some (Inr (sint (ucast new_ip_len :: u32), m))) }) } }"

section \<open>The callback\<close>

text \<open>
  \<open>strstr(payload, needle)\<close> on the bytes in memory: it reads on until a match or a zero byte, which
  the packet need not contain.
\<close>

fun prefix_at :: "mem \<Rightarrow> u64 \<Rightarrow> byte list \<Rightarrow> bool option" where
  "prefix_at m a [] = Some True"
| "prefix_at m a (c # cs) = do { b \<leftarrow> m a; if b = c then prefix_at m (a + 1) cs else Some False }"

partial_function (option) strstr_at :: "mem \<Rightarrow> u64 \<Rightarrow> byte list \<Rightarrow> bool option" where
  "strstr_at m a needle = do {
     hit \<leftarrow> prefix_at m a needle;
     if hit then Some True
     else do { b \<leftarrow> m a; if b = 0 then Some False else strstr_at m (a + 1) needle } }"

text \<open>
  Printing a packet; what goes to the standard output is the list of the byte strings written.
\<close>

definition puts_bytes :: "byte list \<Rightarrow> byte list" where
  "puts_bytes s = s @ [10]"

definition dump_pkt ::
  "mem \<Rightarrow> byte list \<Rightarrow> byte list \<Rightarrow> u64 \<Rightarrow> int \<Rightarrow> byte list list \<Rightarrow> byte list list option" where
  "dump_pkt m beg fin p l out = do {
     bs \<leftarrow> load_bytes m p (nat l);
     Some (out @ [puts_bytes beg] @ map (\<lambda>b. [b]) bs @ [puts_bytes fin]) }"

definition paquet_origine :: "byte list" where
  "paquet_origine = [10, 112, 97, 113, 117, 101, 116, 32, 111, 114, 105, 103, 105, 110, 101, 10]"

definition paquet_modifie :: "byte list" where
  "paquet_modifie = [10, 112, 97, 113, 117, 101, 116, 32, 109, 111, 100, 105, 102, 105, 195, 169]"

definition dashes :: "byte list" where
  "dashes = [45, 45, 45, 45]"

definition PRIVMS :: "byte list" where
  "PRIVMS = [80, 82, 73, 86, 77, 83]"

text \<open>
  The verdict handed to the queue: the packet number, the decision, the length and the memory the
  packet is taken from. \<open>packet_id\<close> is the number in the header, if there is one; \<open>payload\<close> is the
  length (negative for an error) and address of the packet.
\<close>

record verdict =
  v_id :: int
  v_verdict :: int
  v_len :: int
  v_mem :: mem

definition process_packet ::
  "(mem \<Rightarrow> u64 \<Rightarrow> u8 \<Rightarrow> u64 \<Rightarrow> mem option) \<Rightarrow> int option \<Rightarrow> int \<Rightarrow> u64 \<Rightarrow> mem \<Rightarrow> byte list list \<Rightarrow>
   ((int + verdict) \<times> byte list list) option" where
  "process_packet libnet_do_checksum packet_id tlen buff m out = (
     let i = (case packet_id of Some n \<Rightarrow> n | None \<Rightarrow> 0);
         accept = (\<lambda>len m out. Some (Inr \<lparr> v_id = i, v_verdict = NF_ACCEPT, v_len = len, v_mem = m \<rparr>, out))
     in if tlen \<ge> 0 then do {
       p \<leftarrow> m (ip_p_at buff);
       if p = IPPROTO_TCP then do {
         hl \<leftarrow> ip_hl m buff;
         let tcphdr = buff + 4 * ucast hl;
         doff \<leftarrow> tcp_doff m tcphdr;
         let payload = tcphdr + ucast doff * 4;
         found \<leftarrow> strstr_at m payload PRIVMS;
         if found then do {
           out \<leftarrow> dump_pkt m paquet_origine ([10] @ dashes @ [10]) buff tlen out;
           r \<leftarrow> corrupt_packet libnet_do_checksum m buff tcphdr;
           (case r of
              Inl e \<Rightarrow> Some (Inl e, out)
            | Inr (len, m) \<Rightarrow> do {
                out \<leftarrow> dump_pkt m paquet_modifie dashes buff len out;
                accept len m out }) }
         else accept tlen m out }
       else accept tlen m out }
     else accept tlen m out)"

section \<open>Setting up\<close>

text \<open>
  \<open>nfq_ctx\<close>, of which the three pointers are only tested and handed on: whether they are there.
\<close>

record nfq_ctx =
  nc_handle :: bool
  nc_qhandle :: bool
  nc_nhandle :: bool
  nc_qfd :: int

definition nfq_ctx_0 :: nfq_ctx where
  "nfq_ctx_0 = \<lparr> nc_handle = False, nc_qhandle = False, nc_nhandle = False, nc_qfd = - 1 \<rparr>"

definition clean_nfq_ctx :: "nfq_ctx \<Rightarrow> nfq_ctx" where
  "clean_nfq_ctx c = c"

text \<open>
  The answers of libnetfilter_queue to the calls of \<open>init_appz\<close>, in their order; any failure ends
  the program.
\<close>

record nfq =
  nfq_open :: bool
  nfq_unbind_pf :: int
  nfq_bind_pf :: int
  nfq_create_queue :: bool
  nfq_set_mode :: int
  nfq_fd :: int

definition init_appz :: "nfq \<Rightarrow> nfq_ctx \<Rightarrow> int + int \<times> nfq_ctx" where
  "init_appz q c = (
     let c = c\<lparr> nc_handle := nfq_open q \<rparr>
     in if \<not> nc_handle c then Inl 1
     else if nfq_unbind_pf q < 0 then Inl 1
     else if nfq_bind_pf q < 0 then Inl 1
     else let c = c\<lparr> nc_qhandle := nfq_create_queue q \<rparr>
       in if \<not> nc_qhandle c then Inl 1
       else if nfq_set_mode q < 0 then Inl 1
       else let c = c\<lparr> nc_qfd := nfq_fd q \<rparr> in Inr (nc_qfd c, c))"

section \<open>What a callback does to a packet\<close>

lemma length_http_payload: "length http_payload = 20"
  by (simp add: http_payload_def)

lemma ucast_of_nat_small: "k < 2 ^ 64 \<Longrightarrow> ucast (of_nat k :: u64) = (of_nat k :: 'a::len word)"
  by (subst of_nat_unat [symmetric], subst unat_of_nat_less) simp_all

text \<open>The packet after the payload has been replaced, before the checksums.\<close>

lemma corrupt_packet_stores:
  assumes fields: "ip_hl m p = Some h" "ntohs m (ip_len_at p) = Some l" "tcp_doff m q = Some d"
    and q: "q = p + of_nat (4 * unat h)"
    and fits: "4 * unat h + 4 * unat d + n = unat l" "20 \<le> unat h * 4"
    and mp: "mapped m p (unat l)"
  shows "corrupt_packet cks m p q = (
    let data = p + of_nat (4 * unat h + 4 * unat d);
        m1 = put_bytes m data (replicate n 0)
    in if n < 20 then Some (Inr (0, m1))
    else
      let len = 4 * unat h + 4 * unat d + 20;
          m2 = put_bytes (put_bytes m1 data http_payload) (ip_len_at p) (htons (of_nat len))
      in case cks m2 p IPPROTO_TCP (of_nat (4 * unat d + 20)) of
        None \<Rightarrow> Some (Inl 1)
      | Some m3 \<Rightarrow> do {
          m4 \<leftarrow> store_bytes m3 (ip_sum_at p) [0, 0];
          (case cks m4 p IPPROTO_IP (of_nat (4 * unat h)) of
             None \<Rightarrow> Some (Inl 1)
           | Some m5 \<Rightarrow> Some (Inr (int len, m5))) })"
proof -
  define H D where "H = 4 * unat h" and "D = 4 * unat d"
  have l: "unat l = H + D + n" and small: "H + D + n < 2 ^ 16"
    using fits unsigned_less [of l, where 'a = nat] by (simp_all add: H_def D_def)
  have words: "(ucast h * 4 :: u64) = of_nat H" "(ucast d * 4 :: u64) = of_nat D"
    "(ucast l :: u64) = of_nat (H + D + n)"
    by (simp add: H_def, simp add: D_def) (simp only: l [symmetric] of_nat_unat)
  have lens: "of_nat (H + D + n) - of_nat H - of_nat D = (of_nat n :: u64)"
    "of_nat (H + D + n) - (of_nat n - of_nat 20) = (of_nat (H + D + 20) :: u64)"
    "of_nat (H + D + 20) - of_nat H = (of_nat (D + 20) :: u64)"
    by simp_all
  have n: "unat (of_nat n :: u64) = n" using small by (intro unat_of_nat_less) simp
  have less: "(of_nat n :: u64) < of_nat 20 \<longleftrightarrow> n < 20"
    by (simp add: word_less_nat_alt n)
  have data: "q + of_nat D = p + of_nat (H + D)"
    by (simp add: q H_def add.assoc)
  have st: "store_bytes m (p + of_nat (H + D)) (replicate n 0) =
      Some (put_bytes m (p + of_nat (H + D)) (replicate n 0))"
    using mapped_nat [OF mp, of "H + D" n] l by (simp add: store_bytes_def)
  show ?thesis
  proof (cases "n < 20")
    case True
    then show ?thesis
      using fields less st
      by (simp add: corrupt_packet_def Let_def words lens data n length_http_payload H_def [symmetric] D_def [symmetric]
        del: of_nat_add of_nat_diff of_nat_numeral)
  next
    case False
    let ?m1 = "put_bytes m (p + of_nat (H + D)) (replicate n 0)"
    have m1: "mapped ?m1 a k \<longleftrightarrow> mapped m a k" for a k
      using mapped_nat [OF mp, of "H + D" n] l by (intro mapped_put_bytes) simp
    have mp20: "mapped ?m1 (p + of_nat (H + D)) (length http_payload)"
      unfolding m1 length_http_payload using mapped_nat [OF mp, of "H + D" 20] l False by simp
    have st2: "store_bytes ?m1 (p + of_nat (H + D)) http_payload =
        Some (put_bytes ?m1 (p + of_nat (H + D)) http_payload)"
      by (simp only: store_bytes_def mp20 if_True)
    have m2: "mapped (put_bytes ?m1 (p + of_nat (H + D)) http_payload) a k \<longleftrightarrow> mapped m a k" for a k
      by (simp only: mapped_put_bytes [OF mp20] m1)
    have st3: "store_bytes (put_bytes ?m1 (p + of_nat (H + D)) http_payload) (ip_len_at p) (htons w) =
        Some (put_bytes (put_bytes ?m1 (p + of_nat (H + D)) http_payload) (ip_len_at p) (htons w))" for w
    proof -
      have "length (htons w) = 2" by (simp add: htons_def)
      moreover have "mapped m (ip_len_at p) 2"
        using mapped_nat [OF mp, of 2 2] l False by (simp add: ip_len_at_def)
      ultimately show ?thesis by (simp only: store_bytes_def m2 if_True)
    qed
    have u: "ucast (of_nat (H + D + 20) :: u64) = (of_nat (H + D + 20) :: u16)"
      "ucast (of_nat (H + D + 20) :: u64) = (of_nat (H + D + 20) :: u32)"
      using small by (intro ucast_of_nat_small, simp)+
    have si: "sint (of_nat (H + D + 20) :: u32) = int (H + D + 20)"
      using small False
      by (simp only: signed_of_nat) (subst signed_take_bit_int_eq_self, simp_all)
    show ?thesis
      using fields less st st2 st3 False
      by (simp add: corrupt_packet_def Let_def words lens data n u si length_http_payload H_def [symmetric] D_def [symmetric]
        del: of_nat_add of_nat_diff of_nat_numeral cong: option.case_cong)
  qed
qed

section \<open>Properties\<close>

text \<open>
  What libnet promises for a packet at \<open>p\<close> with its TCP header at \<open>q\<close>: the checksum is computed, and
  only the two checksum fields change.
\<close>

definition libnet_writes :: "u64 \<Rightarrow> u64 \<Rightarrow> u64 set" where
  "libnet_writes p q = {p + 10, p + 11, q + 16, q + 17}"

definition libnet_ok :: "(mem \<Rightarrow> u64 \<Rightarrow> u8 \<Rightarrow> u64 \<Rightarrow> mem option) \<Rightarrow> u64 \<Rightarrow> u64 \<Rightarrow> bool" where
  "libnet_ok cks p q \<longleftrightarrow> (\<forall>m proto n. \<exists>m'. cks m p proto n = Some m' \<and> dom m' = dom m \<and>
     (\<forall>a. a \<notin> libnet_writes p q \<longrightarrow> m' a = m a))"

lemma ntohs_htons: "push_bit 8 (ucast (ucast (drop_bit 8 w) :: byte)) OR ucast (ucast w :: byte) = (w :: u16)"
  by (rule bit_word_eqI) (auto simp: bit_or_iff bit_push_bit_iff bit_ucast_iff bit_drop_bit_eq)

lemma offset_neq:
  "x < 2 ^ 64 \<Longrightarrow> y < 2 ^ 64 \<Longrightarrow> x \<noteq> y \<Longrightarrow> p + of_nat x \<noteq> p + (of_nat y :: u64)"
  by (simp add: of_nat_word_inject)

lemma put_bytes_at:
  assumes "x < 2 ^ 64" "y + length bs \<le> 2 ^ 64"
  shows "put_bytes m (p + of_nat y) bs (p + (of_nat x :: u64)) =
    (if y \<le> x \<and> x < y + length bs then Some (bs ! (x - y)) else m (p + of_nat x))"
proof (cases "y \<le> x \<and> x < y + length bs")
  case True
  have "put_bytes m (p + of_nat y) bs (p + of_nat y + of_nat (x - y)) = Some (bs ! (x - y))"
    using True assms by (intro put_bytes_inside) auto
  then show ?thesis using True by (simp add: add.assoc flip: of_nat_add)
next
  case False
  have "p + of_nat x \<noteq> p + of_nat y + of_nat i" if "i < length bs" for i
  proof -
    have "x \<noteq> y + i" using False that by auto
    then show ?thesis using offset_neq [of x "y + i" p] assms that by (simp add: add.assoc)
  qed
  then show ?thesis using False by (auto intro: put_bytes_outside)
qed

text \<open>
  C28: for a TCP packet with well-formed headers and at least 20 bytes of payload, and a
  libnet that only writes the checksum fields, corrupt_packet returns the length of the
  headers plus 20, stores that length in the IP header, puts its text followed by zeros in
  place of the payload and leaves the other header bytes alone.
\<close>

theorem corrupt_packet_replaces:
  assumes fields: "ip_hl m p = Some h" "ntohs m (ip_len_at p) = Some l" "tcp_doff m q = Some d"
    and q: "q = p + of_nat (4 * unat h)"
    and fits: "4 * unat h + 4 * unat d + n = unat l" "20 \<le> unat h * 4" "20 \<le> unat d * 4" "20 \<le> n"
    and mp: "mapped m p (unat l)"
    and libnet: "libnet_ok cks p q"
  shows "\<exists>m'. corrupt_packet cks m p q = Some (Inr (int (4 * unat h + 4 * unat d + 20), m')) \<and>
    ntohs m' (ip_len_at p) = Some (of_nat (4 * unat h + 4 * unat d + 20)) \<and>
    (\<forall>k<n. m' (p + of_nat (4 * unat h + 4 * unat d + k)) = Some (if k < 20 then http_payload ! k else 0)) \<and>
    (\<forall>x<4 * unat h + 4 * unat d. x \<notin> {2, 3, 10, 11, 4 * unat h + 16, 4 * unat h + 17} \<longrightarrow>
      m' (p + of_nat x) = m (p + of_nat x))"
proof -
  define H D len where "H = 4 * unat h" and "D = 4 * unat d" and "len = H + D + 20"
  have small: "H + D + n < 2 ^ 16" and b: "20 \<le> H" "20 \<le> D" "unat l = H + D + n"
    using fits unsigned_less [of l, where 'a = nat] by (simp_all add: H_def D_def)
  define m2 where "m2 = put_bytes (put_bytes (put_bytes m (p + of_nat (H + D)) (replicate n 0))
    (p + of_nat (H + D)) http_payload) (p + of_nat 2) (htons (of_nat len))"
  have m2_at: "m2 (p + of_nat x) =
      (if x = 2 then Some (htons (of_nat len) ! 0) else if x = 3 then Some (htons (of_nat len) ! 1)
       else if H + D \<le> x \<and> x < H + D + n then Some (if x - (H + D) < 20 then http_payload ! (x - (H + D)) else 0)
       else m (p + of_nat x))" if "x < 2 ^ 16" for x
  proof -
    have lt: "x < 2 ^ 64" "2 + length (htons (of_nat len)) \<le> 2 ^ 64" "H + D + length http_payload \<le> 2 ^ 64"
      "H + D + length (replicate n (0 :: byte)) \<le> 2 ^ 64"
      using that small by (simp_all add: htons_def length_http_payload)
    have "x = 2 \<or> x = 3 \<or> \<not> (2 \<le> x \<and> x < 2 + length (htons (of_nat len)))"
      by (auto simp: htons_def)
    then show ?thesis
      unfolding m2_def put_bytes_at [OF lt(1,2)] put_bytes_at [OF lt(1,3)] put_bytes_at [OF lt(1,4)]
      using b(1) fits(4) by (auto simp: htons_def length_http_payload)
  qed
  have writes: "libnet_writes p q = {p + of_nat 10, p + of_nat 11, p + of_nat (H + 16), p + of_nat (H + 17)}"
    by (simp add: libnet_writes_def q H_def add.assoc)
  have away: "p + of_nat x \<notin> libnet_writes p q"
    if x: "x < 2 ^ 16" "x \<notin> {10, 11, H + 16, H + 17}" for x
  proof -
    have "x < 2 ^ 64" "H + 17 < 2 ^ 64" using x(1) small by simp_all
    then show ?thesis
      unfolding writes using x(2) offset_neq [of x _ p] by (simp del: of_nat_add of_nat_numeral)
  qed
  obtain m3 where m3: "cks m2 p IPPROTO_TCP (of_nat (D + 20)) = Some m3" "dom m3 = dom m2"
    "\<forall>a. a \<notin> libnet_writes p q \<longrightarrow> m3 a = m2 a"
    using libnet unfolding libnet_ok_def by blast
  have "p + of_nat 10 \<in> dom m3" "p + of_nat 11 \<in> dom m3"
  proof -
    have "m (p + of_nat 10) \<noteq> None" "m (p + of_nat 11) \<noteq> None"
      using mp b by (auto simp only: mapped_def)
    then have "p + of_nat 10 \<in> dom m2" "p + of_nat 11 \<in> dom m2"
      using m2_at [of 10] m2_at [of 11] b by (simp_all add: dom_def)
    then show "p + of_nat 10 \<in> dom m3" "p + of_nat 11 \<in> dom m3" by (simp_all only: m3(2))
  qed
  then have st: "store_bytes m3 (ip_sum_at p) [0, 0] = Some (put_bytes m3 (p + of_nat 10) [0, 0])"
    by (auto simp: store_bytes_def ip_sum_at_def add.assoc)
  define m4 where "m4 = put_bytes m3 (p + of_nat 10) [0, 0 :: byte]"
  obtain m5 where m5: "cks m4 p IPPROTO_IP (of_nat H) = Some m5" "\<forall>a. a \<notin> libnet_writes p q \<longrightarrow> m5 a = m4 a"
    using libnet unfolding libnet_ok_def by blast
  have run: "corrupt_packet cks m p q = Some (Inr (int len, m5))"
    using corrupt_packet_stores [OF fields q fits(1,2) mp, of cks] fits(4) m3(1) st m5(1)
    by (simp add: Let_def m2_def m4_def len_def H_def D_def ip_len_at_def)
  have m5_at: "m5 (p + of_nat x) = m2 (p + of_nat x)"
    if x: "x < 2 ^ 16" "x \<notin> {10, 11, H + 16, H + 17}" for x
  proof -
    have "put_bytes m3 (p + of_nat 10) [0, 0] (p + of_nat x) = m3 (p + of_nat x)"
      using x by (subst put_bytes_at) auto
    then show ?thesis using m3(3) m5(2) away [OF x] by (simp add: m4_def)
  qed
  have "ntohs m5 (ip_len_at p) = Some (of_nat len)"
  proof -
    have "m5 (p + 2) = Some (htons (of_nat len) ! 0)" "m5 (p + 3) = Some (htons (of_nat len) ! 1)"
      using m5_at [of 2] m5_at [of 3] m2_at [of 2] m2_at [of 3] b by simp_all
    then show ?thesis
      by (simp add: ntohs_def ip_len_at_def htons_def add.assoc ntohs_htons)
  qed
  moreover have "m5 (p + of_nat (H + D + k)) = Some (if k < 20 then http_payload ! k else 0)" if "k < n" for k
    using m5_at [of "H + D + k"] m2_at [of "H + D + k"] that small b by (simp del: of_nat_add)
  moreover have "m5 (p + of_nat x) = m (p + of_nat x)"
    if "x < H + D" "x \<notin> {2, 3, 10, 11, H + 16, H + 17}" for x
    using m5_at [of x] m2_at [of x] that small by simp
  ultimately show ?thesis
    using run unfolding len_def H_def D_def by blast
qed

definition example_packet :: mem where
  "example_packet = (\<lambda>_. Some 0)(64 \<mapsto> 0x45, 67 \<mapsto> 60, 73 \<mapsto> 6, 96 \<mapsto> 0x50,
     104 \<mapsto> 80, 105 \<mapsto> 82, 106 \<mapsto> 73, 107 \<mapsto> 86, 108 \<mapsto> 77, 109 \<mapsto> 83)"

lemma example_packet_fields:
  "ip_hl example_packet 64 = Some 5" "ntohs example_packet (ip_len_at 64) = Some 60"
  "tcp_doff example_packet 84 = Some 5" "mapped example_packet 64 k"
  by (simp_all add: example_packet_def ip_hl_def ntohs_def ip_len_at_def tcp_doff_def mapped_def)

theorem corrupt_packet_replaces_witness:
  "\<exists>m'. corrupt_packet (\<lambda>m _ _ _. Some m) example_packet 64 84 = Some (Inr (60, m')) \<and>
    m' 104 = Some 10 \<and> m' 105 = Some 106"
proof -
  have ok: "libnet_ok (\<lambda>m _ _ _. Some m) 64 84" by (simp add: libnet_ok_def)
  obtain m' where m': "corrupt_packet (\<lambda>m _ _ _. Some m) example_packet 64 84 = Some (Inr (60, m'))"
    "\<forall>k<20. m' (64 + of_nat (40 + k)) = Some (if k < 20 then http_payload ! k else 0)"
    using corrupt_packet_replaces [OF example_packet_fields(1,2,3) _ _ _ _ _ example_packet_fields(4) ok, of 20]
    by auto
  show ?thesis
    using m' m'(2) [rule_format, of 0] m'(2) [rule_format, of 1] by (simp add: http_payload_def)
qed

text \<open>
  A matching packet with less than 20 bytes of payload is handed back with its payload zeroed
  and with length 0.
\<close>

theorem process_packet_short_payload:
  assumes "0 \<le> tlen" "m (ip_p_at p) = Some IPPROTO_TCP" "load_bytes m p (nat tlen) = Some bs"
    and fields: "ip_hl m p = Some h" "ntohs m (ip_len_at p) = Some l" "tcp_doff m (p + of_nat (4 * unat h)) = Some d"
    and found: "strstr_at m (p + of_nat (4 * unat h + 4 * unat d)) PRIVMS = Some True"
    and fits: "4 * unat h + 4 * unat d + n = unat l" "20 \<le> unat h * 4" "n < 20"
    and mp: "mapped m p (unat l)"
  shows "process_packet cks (Some i) tlen p m out = Some (Inr \<lparr> v_id = i, v_verdict = NF_ACCEPT, v_len = 0,
      v_mem = put_bytes m (p + of_nat (4 * unat h + 4 * unat d)) (replicate n 0) \<rparr>,
    out @ [puts_bytes paquet_origine] @ map (\<lambda>b. [b]) bs @ [puts_bytes ([10] @ dashes @ [10])] @
      [puts_bytes paquet_modifie, puts_bytes dashes])"
proof -
  have "corrupt_packet cks m p (p + of_nat (4 * unat h)) =
      Some (Inr (0, put_bytes m (p + of_nat (4 * unat h + 4 * unat d)) (replicate n 0)))"
    using corrupt_packet_stores [OF fields refl fits(1,2) mp] fits(3) by simp
  then show ?thesis
    using assms(1-3) fields found by (simp add: process_packet_def Let_def dump_pkt_def add.assoc mult.commute)
qed

definition short_packet :: mem where
  "short_packet = example_packet(67 \<mapsto> 46)"

theorem process_packet_short_payload_witness:
  "\<exists>m' out. process_packet (\<lambda>m _ _ _. Some m) (Some 3) 46 64 short_packet [] =
    Some (Inr \<lparr> v_id = 3, v_verdict = NF_ACCEPT, v_len = 0, v_mem = m' \<rparr>, out)"
proof -
  have "strstr_at short_packet (64 + of_nat (4 * unat (5 :: u8) + 4 * unat (5 :: u8))) PRIVMS = Some True"
    by (subst strstr_at.simps) (simp add: PRIVMS_def short_packet_def example_packet_def)
  moreover have "short_packet a \<noteq> None" for a by (simp add: short_packet_def example_packet_def)
  then obtain bs where "load_bytes short_packet 64 (nat 46) = Some bs"
    using load_bytes_None_iff [of short_packet 64 "nat 46"] by (auto simp: mapped_def)
  ultimately show ?thesis
    using process_packet_short_payload [of 46 short_packet 64 bs 5 46 5 6 "\<lambda>m _ _ _. Some m" 3 "[]"]
    by (simp add: short_packet_def example_packet_def ip_p_at_def IPPROTO_TCP_def ip_hl_def ntohs_def
      ip_len_at_def tcp_doff_def mapped_def)
qed

end
