(* ===== verification/Squash_Program.thy ===== *)
theory Squash_Program
  imports Squash_Packet
begin

text \<open>
  The rest of \<open>nfqueue_example/squash_packet.c\<close>: the loop that polls the queue and \<open>main\<close>. The
  library takes a received message apart and calls \<open>process_packet\<close> for each packet in it; the
  loop has no end, so a run of the model is a finite number of its rounds.
\<close>

section \<open>State\<close>

text \<open>
  A packet as the library hands it to the callback: the number in its header, if it has one, the
  length (negative for none) and the address of its payload, and the memory the message is in. The
  state is what was sent back to the queue and printed.
\<close>

record packet =
  pk_id :: "int option"
  pk_len :: int
  pk_addr :: u64
  pk_mem :: mem

record appz =
  az_verdicts :: "verdict list"
  az_out :: "byte list list"

section \<open>The loop\<close>

text \<open>
  One round: \<open>poll\<close> answers, and if not with 0 a message is received and handed to
  \<open>nfq_handle_packet\<close>, which calls \<open>process_packet\<close> for the packets it finds in it: \<open>rd_received\<close>,
  which can be none.
\<close>

record round =
  rd_poll :: int
  rd_received :: "packet list"

type_synonym checksum = "mem \<Rightarrow> u64 \<Rightarrow> u8 \<Rightarrow> u64 \<Rightarrow> mem option"

primrec packet_callbacks :: "checksum \<Rightarrow> packet list \<Rightarrow> appz \<Rightarrow> (int + appz) option" where
  "packet_callbacks cks [] st = Some (Inr st)"
| "packet_callbacks cks (p # ps) st = do {
     (r, out) \<leftarrow> process_packet cks (pk_id p) (pk_len p) (pk_addr p) (pk_mem p) (az_out st);
     (case r of
        Inl e \<Rightarrow> Some (Inl e)
      | Inr v \<Rightarrow> packet_callbacks cks ps \<lparr> az_verdicts = az_verdicts st @ [v], az_out = out \<rparr>) }"

primrec appz_main_loop :: "checksum \<Rightarrow> round list \<Rightarrow> appz \<Rightarrow> (int + appz) option" where
  "appz_main_loop cks [] st = Some (Inr st)"
| "appz_main_loop cks (r # rs) st = (
     if rd_poll r \<noteq> 0 then do {
       x \<leftarrow> packet_callbacks cks (rd_received r) st;
       (case x of Inl e \<Rightarrow> Some (Inl e) | Inr st \<Rightarrow> appz_main_loop cks rs st) }
     else appz_main_loop cks rs st)"

text \<open>
  \<open>main\<close>: the status the program ends with on the left, the state of the running loop
  on the right.
\<close>

definition squash_main :: "nfq \<Rightarrow> checksum \<Rightarrow> round list \<Rightarrow> (int + appz) option" where
  "squash_main q cks rounds = (case init_appz q nfq_ctx_0 of
     Inl e \<Rightarrow> Some (Inl e)
   | Inr (ret, ctx) \<Rightarrow>
       if ret > 0 then appz_main_loop cks rounds \<lparr> az_verdicts = [], az_out = [] \<rparr>
       else Some (Inl 0))"

section \<open>One verdict per packet\<close>

definition packet_number :: "packet \<Rightarrow> int" where
  "packet_number p = (case pk_id p of Some n \<Rightarrow> n | None \<Rightarrow> 0)"

text \<open>The packets the rounds deliver.\<close>

definition delivered :: "round list \<Rightarrow> packet list" where
  "delivered rounds = concat (map (\<lambda>r. if rd_poll r \<noteq> 0 then rd_received r else []) rounds)"

text \<open>What a verdict says of a packet.\<close>

definition answers :: "packet \<Rightarrow> verdict \<Rightarrow> bool" where
  "answers p v \<longleftrightarrow> v_id v = packet_number p \<and> v_verdict v = NF_ACCEPT"

lemma process_packet_answers:
  "process_packet cks (pk_id p) (pk_len p) (pk_addr p) (pk_mem p) out = Some (Inr v, out') \<Longrightarrow> answers p v"
  by (auto simp: process_packet_def answers_def packet_number_def Let_def
    split: Option.bind_split_asm if_split_asm sum.split_asm prod.split_asm)

lemma packet_callbacks_answers:
  "packet_callbacks cks ps st = Some (Inr st') \<Longrightarrow>
   \<exists>vs. az_verdicts st' = az_verdicts st @ vs \<and> list_all2 answers ps vs"
proof (induction ps arbitrary: st)
  case Nil
  then show ?case by simp
next
  case (Cons p ps)
  then obtain v out where v: "process_packet cks (pk_id p) (pk_len p) (pk_addr p) (pk_mem p) (az_out st) = Some (Inr v, out)"
    and rest: "packet_callbacks cks ps \<lparr> az_verdicts = az_verdicts st @ [v], az_out = out \<rparr> = Some (Inr st')"
    by (auto split: Option.bind_split_asm sum.split_asm prod.split_asm)
  obtain vs where "az_verdicts st' = az_verdicts st @ [v] @ vs" "list_all2 answers ps vs"
    using Cons.IH [OF rest] by auto
  then show ?case using process_packet_answers [OF v] by (intro exI [of _ "v # vs"]) simp
qed

lemma appz_main_loop_answers:
  "appz_main_loop cks rounds st = Some (Inr st') \<Longrightarrow>
   \<exists>vs. az_verdicts st' = az_verdicts st @ vs \<and> list_all2 answers (delivered rounds) vs"
proof (induction rounds arbitrary: st)
  case Nil
  then show ?case by (simp add: delivered_def)
next
  case (Cons r rounds)
  have d: "delivered (r # rounds) = (if rd_poll r \<noteq> 0 then rd_received r else []) @ delivered rounds"
    by (simp add: delivered_def)
  show ?case
  proof (cases "rd_poll r = 0")
    case True
    then show ?thesis using Cons by (simp add: d)
  next
    case False
    then obtain st1 where h: "packet_callbacks cks (rd_received r) st = Some (Inr st1)"
      and rest: "appz_main_loop cks rounds st1 = Some (Inr st')"
      using Cons.prems by (auto split: Option.bind_split_asm sum.split_asm)
    obtain vs1 where "az_verdicts st1 = az_verdicts st @ vs1" "list_all2 answers (rd_received r) vs1"
      using packet_callbacks_answers [OF h] by blast
    moreover obtain vs2 where "az_verdicts st' = az_verdicts st1 @ vs2" "list_all2 answers (delivered rounds) vs2"
      using Cons.IH [OF rest] by blast
    ultimately show ?thesis
      using False by (intro exI [of _ "vs1 @ vs2"]) (simp add: d list_all2_appendI)
  qed
qed

text \<open>
  C27: after any number of rounds the running program has answered every packet the queue
  delivered exactly once, in order, with its own number and the verdict NF_ACCEPT; it runs
  only with an open queue and a positive descriptor, and ends with status 1, or with 0 when
  the descriptor is not positive.
\<close>

theorem squash_main_answers:
  assumes "squash_main q cks rounds = Some r"
  shows "(case r of
      Inr st \<Rightarrow> nfq_open q \<and> nfq_create_queue q \<and> 0 \<le> nfq_set_mode q \<and> 0 < nfq_fd q \<and>
        list_all2 answers (delivered rounds) (az_verdicts st)
    | Inl e \<Rightarrow> e = 0 \<and> nfq_fd q \<le> 0 \<or> e = 1)"
proof (cases r)
  case (Inr st)
  then have "init_appz q nfq_ctx_0 = Inr (nfq_fd q, \<lparr> nc_handle = True, nc_qhandle = True, nc_nhandle = False, nc_qfd = nfq_fd q \<rparr>)" "0 < nfq_fd q"
    and loop: "appz_main_loop cks rounds \<lparr> az_verdicts = [], az_out = [] \<rparr> = Some (Inr st)"
    using assms by (auto simp: squash_main_def init_appz_def nfq_ctx_0_def Let_def split: if_split_asm)
  then show ?thesis
    using Inr appz_main_loop_answers [OF loop] by (auto simp: init_appz_def Let_def split: if_split_asm)
next
  case (Inl e)
  have corrupt: "e = 1" if "corrupt_packet c m p t = Some (Inl e)" for c m p t e
    using that by (auto simp: corrupt_packet_def Let_def split: Option.bind_split_asm if_split_asm option.split_asm)
  have process: "e = 1" if "process_packet c i n p m o1 = Some (Inl e, o2)" for c i n p m o1 o2 e
    using that corrupt by (auto simp: process_packet_def Let_def
      split: Option.bind_split_asm if_split_asm sum.split_asm prod.split_asm)
  have handle: "e = 1" if "packet_callbacks cks ps st = Some (Inl e)" for ps st e
    using that process by (induction ps arbitrary: st)
      (auto split: Option.bind_split_asm sum.split_asm prod.split_asm)
  have "e = 1" if "appz_main_loop cks rounds st = Some (Inl e)" for st
    using that handle by (induction rounds arbitrary: st)
      (auto split: Option.bind_split_asm sum.split_asm if_split_asm)
  then show ?thesis
    using assms Inl by (auto simp: squash_main_def init_appz_def nfq_ctx_0_def Let_def split: if_split_asm)
qed

text \<open>A packet that matches, an idle round, and a packet that is no TCP packet.\<close>

definition example_rounds :: "round list" where
  "example_rounds = [\<lparr> rd_poll = 1, rd_received = [\<lparr> pk_id = Some 3, pk_len = 46, pk_addr = 64, pk_mem = short_packet \<rparr>] \<rparr>,
     \<lparr> rd_poll = 0, rd_received = [] \<rparr>,
     \<lparr> rd_poll = 1, rd_received = [\<lparr> pk_id = Some 4, pk_len = 20, pk_addr = 64, pk_mem = \<lambda>_. Some 0 \<rparr>] \<rparr>]"

definition example_nfq :: nfq where
  "example_nfq = \<lparr> nfq_open = True, nfq_unbind_pf = 0, nfq_bind_pf = 0, nfq_create_queue = True,
     nfq_set_mode = 0, nfq_fd = 5 \<rparr>"

theorem squash_main_answers_witness:
  "\<exists>st. squash_main example_nfq (\<lambda>m _ _ _. Some m) example_rounds = Some (Inr st) \<and>
     map v_id (az_verdicts st) = [3, 4]"
proof -
  obtain m' out where p: "process_packet (\<lambda>m _ _ _. Some m) (Some 3) 46 64 short_packet [] =
      Some (Inr \<lparr> v_id = 3, v_verdict = NF_ACCEPT, v_len = 0, v_mem = m' \<rparr>, out)"
    using process_packet_short_payload_witness by blast
  obtain st where st: "squash_main example_nfq (\<lambda>m _ _ _. Some m) example_rounds = Some (Inr st)"
    by (simp add: squash_main_def init_appz_def nfq_ctx_0_def Let_def example_nfq_def example_rounds_def p)
      (simp add: process_packet_def ip_p_at_def IPPROTO_TCP_def)
  show ?thesis
    using squash_main_answers [OF st] st
    by (auto simp: delivered_def example_rounds_def list_all2_Cons1 answers_def packet_number_def)
qed

end
