(* ===== verification/Looker_Programs.thy ===== *)
theory Looker_Programs
  imports Heap_Looker
begin

text \<open>
  \<open>heap_looker/f1.c\<close> and \<open>main.c\<close>, the programs the allocation log is tried on: each function calls
  the allocator through the library.
\<close>

section \<open>The programs\<close>

definition looker_f1 :: "(string \<Rightarrow> bool) \<Rightarrow> 's allocator \<Rightarrow> 's looker \<Rightarrow> 's looker" where
  "looker_f1 D A st = (let (p, st) = looker_malloc D A 4 st in looker_free D A p st)"

definition looker_f2 :: "(string \<Rightarrow> bool) \<Rightarrow> 's allocator \<Rightarrow> 's looker \<Rightarrow> 's looker" where
  "looker_f2 D A st = (let (p, st) = looker_calloc D A 4 4 st in looker_free D A p st)"

definition looker_f3 :: "(string \<Rightarrow> bool) \<Rightarrow> 's allocator \<Rightarrow> 's looker \<Rightarrow> 's looker" where
  "looker_f3 D A st = (
     let (p, st) = looker_malloc D A 2 st;
         (p, st) = looker_realloc D A p 6 st
     in looker_free D A p st)"

definition poet :: "(string \<Rightarrow> bool) \<Rightarrow> 's allocator \<Rightarrow> 's looker \<Rightarrow> int \<times> 's looker" where
  "poet D A st = (
     let st = looker_f1 D A st; st = looker_f2 D A st; st = looker_f3 D A st
     in (4, st))"

text \<open>\<open>strdup\<close> gets its block from \<open>malloc\<close>: the string and its terminator. Its result is not kept.\<close>

definition strdup :: "(string \<Rightarrow> bool) \<Rightarrow> 's allocator \<Rightarrow> string \<Rightarrow> 's looker \<Rightarrow> u64 option \<times> 's looker" where
  "strdup D A s st = looker_malloc D A (of_nat (length s + 1)) st"

definition looker_main :: "(string \<Rightarrow> bool) \<Rightarrow> 's allocator \<Rightarrow> 's looker \<Rightarrow> 's looker" where
  "looker_main D A st = (
     let st = heap_looker_init st;
         (r, st) = poet D A st;
         (p, st) = looker_malloc D A 4 st;
         (dup, st) = strdup D A ''coucou'' st;
         st = looker_free D A p st
     in heap_looker_exit st)"

section \<open>What they log\<close>

text \<open>An allocator that never fails; \<open>realloc\<close> of size 0 may return a null pointer.\<close>

definition always :: "'s allocator \<Rightarrow> bool" where
  "always A \<longleftrightarrow> (\<forall>s n. fst (a_malloc A s n) \<noteq> None) \<and> (\<forall>s a b. fst (a_calloc A s a b) \<noteq> None) \<and>
     (\<forall>s p n. n \<noteq> 0 \<longrightarrow> fst (a_realloc A s p n) \<noteq> None)"

lemmas looker_ops = looker_malloc_def looker_calloc_def looker_realloc_def looker_free_def load_func_if_def
  HEAP_LOOKER_WRITE_ALLOC_def HEAP_LOOKER_WRITE_FREE_def hl_print_def

lemma looker_alloc_logs:
  assumes "\<forall>f. D f" "hl_fp st" "always A"
  shows "\<exists>a st'. looker_malloc D A n st = (Some a, st') \<and> hl_fp st' \<and> hl_log st' = hl_log st @ [Alloc_ev a n]"
    and "\<exists>a st'. looker_calloc D A x y st = (Some a, st') \<and> hl_fp st' \<and> hl_log st' = hl_log st @ [Alloc_ev a (x * y)]"
    and "n \<noteq> 0 \<Longrightarrow> \<exists>a st'. looker_realloc D A p n st = (Some a, st') \<and> hl_fp st' \<and> hl_log st' = hl_log st @ [Alloc_ev a n]"
proof -
  obtain a s where "a_malloc A (hl_alloc st) n = (Some a, s)"
    using assms(3) unfolding always_def by (metis option.exhaust prod.collapse)
  then show "\<exists>a st'. looker_malloc D A n st = (Some a, st') \<and> hl_fp st' \<and> hl_log st' = hl_log st @ [Alloc_ev a n]"
    using assms(1,2) by (simp add: looker_ops)
  obtain b s where "a_calloc A (hl_alloc st) x y = (Some b, s)"
    using assms(3) unfolding always_def by (metis option.exhaust prod.collapse)
  then show "\<exists>a st'. looker_calloc D A x y st = (Some a, st') \<and> hl_fp st' \<and> hl_log st' = hl_log st @ [Alloc_ev a (x * y)]"
    using assms(1,2) by (simp add: looker_ops)
  assume "n \<noteq> 0"
  then obtain c s where "a_realloc A (hl_alloc st) p n = (Some c, s)"
    using assms(3) unfolding always_def by (metis option.exhaust prod.collapse)
  then show "\<exists>a st'. looker_realloc D A p n st = (Some a, st') \<and> hl_fp st' \<and> hl_log st' = hl_log st @ [Alloc_ev a n]"
    using assms(1,2) by (simp add: looker_ops)
qed

lemma looker_free_logs:
  "\<forall>f. D f \<Longrightarrow> hl_fp st \<Longrightarrow>
   hl_fp (looker_free D A p st) \<and> hl_log (looker_free D A p st) = hl_log st @ [Free_ev p]"
  by (simp add: looker_ops)

lemma looker_f1_logs:
  assumes "\<forall>f. D f" "hl_fp st" "always A"
  shows "\<exists>a. hl_fp (looker_f1 D A st) \<and>
    hl_log (looker_f1 D A st) = hl_log st @ [Alloc_ev a 4, Free_ev (Some a)]"
proof -
  obtain a st1 where 1: "looker_malloc D A 4 st = (Some a, st1)" "hl_fp st1"
    "hl_log st1 = hl_log st @ [Alloc_ev a 4]"
    using looker_alloc_logs(1) [OF assms, of 4] by blast
  then show ?thesis using looker_free_logs [OF assms(1) 1(2), of A "Some a"] by (simp add: looker_f1_def)
qed

lemma looker_f2_logs:
  assumes "\<forall>f. D f" "hl_fp st" "always A"
  shows "\<exists>a. hl_fp (looker_f2 D A st) \<and>
    hl_log (looker_f2 D A st) = hl_log st @ [Alloc_ev a 16, Free_ev (Some a)]"
proof -
  obtain a st1 where 1: "looker_calloc D A 4 4 st = (Some a, st1)" "hl_fp st1"
    "hl_log st1 = hl_log st @ [Alloc_ev a (4 * 4)]"
    using looker_alloc_logs(2) [OF assms, of 4 4] by blast
  then show ?thesis using looker_free_logs [OF assms(1) 1(2), of A "Some a"] by (simp add: looker_f2_def)
qed

lemma looker_f3_logs:
  assumes "\<forall>f. D f" "hl_fp st" "always A"
  shows "\<exists>a b. hl_fp (looker_f3 D A st) \<and>
    hl_log (looker_f3 D A st) = hl_log st @ [Alloc_ev a 2, Alloc_ev b 6, Free_ev (Some b)]"
proof -
  obtain a st1 where 1: "looker_malloc D A 2 st = (Some a, st1)" "hl_fp st1"
    "hl_log st1 = hl_log st @ [Alloc_ev a 2]"
    using looker_alloc_logs(1) [OF assms, of 2] by blast
  obtain b st2 where 2: "looker_realloc D A (Some a) 6 st1 = (Some b, st2)" "hl_fp st2"
    "hl_log st2 = hl_log st1 @ [Alloc_ev b 6]"
    using looker_alloc_logs(3) [OF assms(1) 1(2) assms(3), of 6 "Some a"] by fastforce
  show ?thesis using 1 2 looker_free_logs [OF assms(1) 2(2), of A "Some b"] by (simp add: looker_f3_def)
qed

text \<open>
  With an allocator that does not fail the test program logs exactly ten events; the log shows
  the block of strdup, which is leaked, and, when realloc moves it, the block realloc
  released.
\<close>

theorem looker_main_log:
  assumes "\<forall>f. D f" "always A" "hl_log st = []"
  shows "\<exists>a b c d e f. hl_log (looker_main D A st) =
      [Alloc_ev a 4, Free_ev (Some a), Alloc_ev b 16, Free_ev (Some b),
       Alloc_ev c 2, Alloc_ev d 6, Free_ev (Some d), Alloc_ev e 4, Alloc_ev f 7, Free_ev (Some e)] \<and>
    (f \<noteq> e \<longrightarrow> f \<in> replay {} (hl_log (looker_main D A st))) \<and>
    (c \<notin> {d, e} \<longrightarrow> c \<in> replay {} (hl_log (looker_main D A st)))"
proof -
  let ?st = "heap_looker_init st"
  have fp: "hl_fp ?st" "hl_log ?st = []" using assms(3) by (simp_all add: heap_looker_init_def)
  obtain a where 1: "hl_fp (looker_f1 D A ?st)"
    "hl_log (looker_f1 D A ?st) = [Alloc_ev a 4, Free_ev (Some a)]"
    using looker_f1_logs [OF assms(1) fp(1) assms(2)] fp(2) by auto
  obtain b where 2: "hl_fp (looker_f2 D A (looker_f1 D A ?st))"
    "hl_log (looker_f2 D A (looker_f1 D A ?st)) =
      [Alloc_ev a 4, Free_ev (Some a), Alloc_ev b 16, Free_ev (Some b)]"
    using looker_f2_logs [OF assms(1) 1(1) assms(2)] 1(2) by auto
  obtain c d where 3: "hl_fp (snd (poet D A ?st))" "hl_log (snd (poet D A ?st)) =
      [Alloc_ev a 4, Free_ev (Some a), Alloc_ev b 16, Free_ev (Some b),
       Alloc_ev c 2, Alloc_ev d 6, Free_ev (Some d)]"
    using looker_f3_logs [OF assms(1) 2(1) assms(2)] 2(2) by (auto simp: poet_def Let_def)
  obtain e st1 where 4: "looker_malloc D A 4 (snd (poet D A ?st)) = (Some e, st1)" "hl_fp st1"
    "hl_log st1 = hl_log (snd (poet D A ?st)) @ [Alloc_ev e 4]"
    using looker_alloc_logs(1) [OF assms(1) 3(1) assms(2), of 4] by blast
  obtain f st2 where 5: "strdup D A ''coucou'' st1 = (Some f, st2)" "hl_fp st2"
    "hl_log st2 = hl_log st1 @ [Alloc_ev f 7]"
    using looker_alloc_logs(1) [OF assms(1) 4(2) assms(2), of 7] by (auto simp: strdup_def)
  have "looker_main D A st = looker_free D A (Some e) st2"
    using 4(1) 5(1) by (simp add: looker_main_def Let_def heap_looker_exit_def case_prod_beta)
  then have log: "hl_log (looker_main D A st) =
      [Alloc_ev a 4, Free_ev (Some a), Alloc_ev b 16, Free_ev (Some b),
       Alloc_ev c 2, Alloc_ev d 6, Free_ev (Some d), Alloc_ev e 4, Alloc_ev f 7, Free_ev (Some e)]"
    using looker_free_logs [OF assms(1) 5(2), of A "Some e"] 3(2) 4(3) 5(3) by simp
  show ?thesis by (rule exI [of _ a], rule exI [of _ b], rule exI [of _ c], rule exI [of _ d],
      rule exI [of _ e], rule exI [of _ f]) (auto simp: log)
qed

theorem looker_main_log_witness:
  "{48, 96} \<subseteq> replay {} (hl_log (looker_main (\<lambda>_. True) bump bump_looker))"
proof -
  have log: "hl_log (looker_main (\<lambda>_. True) bump bump_looker) =
      [Alloc_ev 16 4, Free_ev (Some 16), Alloc_ev 32 16, Free_ev (Some 32), Alloc_ev 48 2, Alloc_ev 64 6,
       Free_ev (Some 64), Alloc_ev 80 4, Alloc_ev 96 7, Free_ev (Some 80)]"
    by (simp add: looker_main_def poet_def looker_f1_def looker_f2_def looker_f3_def strdup_def
      heap_looker_init_def heap_looker_exit_def bump_looker_def bump_def looker_ops)
  have "always bump" "hl_log bump_looker = []" by (simp_all add: always_def bump_def bump_looker_def)
  then obtain a b c d e f where r: "hl_log (looker_main (\<lambda>_. True) bump bump_looker) =
      [Alloc_ev a 4, Free_ev (Some a), Alloc_ev b 16, Free_ev (Some b), Alloc_ev c 2, Alloc_ev d 6,
       Free_ev (Some d), Alloc_ev e 4, Alloc_ev f 7, Free_ev (Some e)]"
    "f \<noteq> e \<longrightarrow> f \<in> replay {} (hl_log (looker_main (\<lambda>_. True) bump bump_looker))"
    "c \<notin> {d, e} \<longrightarrow> c \<in> replay {} (hl_log (looker_main (\<lambda>_. True) bump bump_looker))"
    using looker_main_log [of "\<lambda>_. True" bump bump_looker] by auto
  have "c = 48" "d = 64" "e = 80" "f = 96" using r(1) log by simp_all
  then show ?thesis using r(2,3) by simp
qed

end
