(* ===== verification/Modrefcnt.thy ===== *)
theory Modrefcnt
  imports Prelude
begin

text \<open>
  \<open>modrefcnt/modtest.c\<close>: a character device module. The kernel functions it calls are not part of
  the repository; what they answer is the record \<open>chr_kernel\<close>. What they hold on behalf of the
  module is a list of registrations, and undoing one that is not there is a fault.
\<close>

section \<open>Registrations\<close>

datatype registration = Chrdev_region | Class | Cdev | Device

definition undo :: "registration \<Rightarrow> registration list \<Rightarrow> registration list option" where
  "undo r held = (if r \<in> set held then Some (remove1 r held) else None)"

text \<open>
  \<open>0\<close> or a negative \<open>errno\<close> for the calls that return one; the class and the device are a pointer,
  or an error pointer on the left.
\<close>

record chr_kernel =
  k_alloc_chrdev_region :: int
  k_class_create :: "int + nat"
  k_cdev_add :: int
  k_device_create :: "int + nat"

record lbridgen_driver =
  lbclass :: "(int + nat) option"
  device :: "(int + nat) option"
  cdev_initialised :: bool
  cdev_owner :: bool

definition LBRIDGEN_DRIVER_INITIALIZER :: lbridgen_driver where
  "LBRIDGEN_DRIVER_INITIALIZER = \<lparr> lbclass = None, device = None, cdev_initialised = False, cdev_owner = False \<rparr>"

definition IS_ERR :: "int + nat \<Rightarrow> bool" where
  "IS_ERR p = (case p of Inl e \<Rightarrow> True | Inr a \<Rightarrow> False)"

section \<open>File operations\<close>

text \<open>The reference count of the module.\<close>

definition lb_open :: "int \<Rightarrow> int \<times> int" where
  "lb_open refcount = (0, refcount + 1)"

definition lb_read :: int where
  "lb_read = 0"

definition lb_release :: "int \<Rightarrow> int \<times> int" where
  "lb_release refcount = (0, refcount - 1)"

section \<open>Insertion and removal\<close>

text \<open>
  The labels of the error path, from the last to the first: each undoes one registration and falls
  through to the next.
\<close>

definition chrdev_class_create_err :: "int \<Rightarrow> lbridgen_driver \<Rightarrow> registration list \<Rightarrow>
    (int \<times> lbridgen_driver \<times> registration list) option" where
  "chrdev_class_create_err ret drv held = do {
     held \<leftarrow> undo Chrdev_region held;
     Some (ret, drv, held) }"

definition chrdev_chardev_add_error :: "int \<Rightarrow> lbridgen_driver \<Rightarrow> registration list \<Rightarrow>
    (int \<times> lbridgen_driver \<times> registration list) option" where
  "chrdev_chardev_add_error ret drv held = do {
     held \<leftarrow> undo Class held;
     chrdev_class_create_err ret drv held }"

definition chrdev_device_create_err :: "int \<Rightarrow> lbridgen_driver \<Rightarrow> registration list \<Rightarrow>
    (int \<times> lbridgen_driver \<times> registration list) option" where
  "chrdev_device_create_err ret drv held = do {
     held \<leftarrow> undo Cdev held;
     chrdev_chardev_add_error ret drv held }"

definition resget_create_char_device :: "chr_kernel \<Rightarrow> lbridgen_driver \<Rightarrow> registration list \<Rightarrow>
    (int \<times> lbridgen_driver \<times> registration list) option" where
  "resget_create_char_device K drv held = (
     let ret = k_alloc_chrdev_region K
     in if ret \<noteq> 0 then Some (ret, drv, held)
     else
       let held = Chrdev_region # held;
           drv = drv\<lparr> lbclass := Some (k_class_create K) \<rparr>
       in if IS_ERR (k_class_create K) then chrdev_class_create_err (- int (unat ENOMEM)) drv held
       else
         let held = Class # held;
             drv = drv\<lparr> cdev_initialised := True, cdev_owner := False \<rparr>;
             drv = drv\<lparr> cdev_owner := True \<rparr>;
             ret = k_cdev_add K
         in if ret \<noteq> 0 then chrdev_chardev_add_error ret drv held
         else
           let held = Cdev # held;
               drv = drv\<lparr> device := Some (k_device_create K) \<rparr>
           in if IS_ERR (k_device_create K) then chrdev_device_create_err ret drv held
           else Some (0, drv, Device # held))"

definition resget_init :: "chr_kernel \<Rightarrow> lbridgen_driver \<Rightarrow> registration list \<Rightarrow>
    (int \<times> lbridgen_driver \<times> registration list) option" where
  "resget_init K drv held = do {
     r \<leftarrow> resget_create_char_device K drv held;
     (if fst r \<noteq> 0 then Some r else Some (0, snd r)) }"

definition resget_exit :: "lbridgen_driver \<Rightarrow> registration list \<Rightarrow> registration list option" where
  "resget_exit drv held = do {
     held \<leftarrow> undo Cdev held;
     (if lbclass drv \<noteq> None then do {
        held \<leftarrow> undo Device held;
        undo Class held }
      else Some held) }"

text \<open>The life of the module: inserted, then removed if the insertion reported success.\<close>

definition resget_module :: "chr_kernel \<Rightarrow> registration list \<Rightarrow> (int \<times> registration list) option" where
  "resget_module K held = do {
     (ret, drv, held) \<leftarrow> resget_init K LBRIDGEN_DRIVER_INITIALIZER held;
     (if ret = 0 then map_option (Pair 0) (resget_exit drv held) else Some (ret, held)) }"

lemmas chrdev_err_defs = chrdev_class_create_err_def chrdev_chardev_add_error_def
  chrdev_device_create_err_def undo_def

section \<open>Properties\<close>

text \<open>
  A failed insertion undoes every registration; a failure of device_create does too, but is
  not reported.
\<close>

theorem resget_init_unwinds:
  "\<exists>ret drv' held'. resget_init K drv held = Some (ret, drv', held') \<and>
    (ret \<noteq> 0 \<longrightarrow> held' = held) \<and>
    (ret = 0 \<longrightarrow> held' = (if IS_ERR (k_device_create K) then held else Device # Cdev # Class # Chrdev_region # held)) \<and>
    (ret = 0 \<longleftrightarrow> k_alloc_chrdev_region K = 0 \<and> \<not> IS_ERR (k_class_create K) \<and> k_cdev_add K = 0)"
  by (simp add: resget_init_def resget_create_char_device_def chrdev_err_defs Let_def ENOMEM_def)

theorem resget_init_unwinds_witness:
  "\<exists>drv'. resget_init \<lparr> k_alloc_chrdev_region = 0, k_class_create = Inr 1, k_cdev_add = - 5,
     k_device_create = Inr 2 \<rparr> LBRIDGEN_DRIVER_INITIALIZER [] = Some (- 5, drv', [])"
proof -
  let ?K = "\<lparr> k_alloc_chrdev_region = 0, k_class_create = Inr 1, k_cdev_add = - 5, k_device_create = Inr 2 \<rparr>"
  have ret: "\<exists>drv' held'. resget_init ?K LBRIDGEN_DRIVER_INITIALIZER [] = Some (- 5, drv', held')"
    by (simp add: resget_init_def resget_create_char_device_def chrdev_err_defs Let_def IS_ERR_def)
  with resget_init_unwinds [of ?K LBRIDGEN_DRIVER_INITIALIZER "[]"] show ?thesis by auto
qed

text \<open>
  Inserting and removing the module: a failure of the region, the class or the character
  device is returned with every registration undone; a failure of device_create is reported as
  success and makes the removal undo what is not there; a complete life leaves the device
  number region registered.
\<close>

theorem resget_module_result:
  "resget_module K [] =
    (if k_alloc_chrdev_region K \<noteq> 0 then Some (k_alloc_chrdev_region K, [])
     else if IS_ERR (k_class_create K) then Some (- 12, [])
     else if k_cdev_add K \<noteq> 0 then Some (k_cdev_add K, [])
     else if IS_ERR (k_device_create K) then None
     else Some (0, [Chrdev_region]))"
  by (simp add: resget_module_def resget_init_def resget_create_char_device_def resget_exit_def
    chrdev_err_defs Let_def LBRIDGEN_DRIVER_INITIALIZER_def ENOMEM_def)

section \<open>The reference count\<close>

record file_operations =
  fop_owner :: bool
  fop_open :: "int \<Rightarrow> int \<times> int"
  fop_read :: int
  fop_release :: "int \<Rightarrow> int \<times> int"

definition lb_fops :: file_operations where
  "lb_fops = \<lparr> fop_owner = True, fop_open = lb_open, fop_read = lb_read, fop_release = lb_release \<rparr>"

text \<open>
  The module and the users of its device: the reference count, how many files are open, the driver
  and its registrations, and whether the module is there. The kernel takes references itself for
  every open file, before it calls \<open>lb_open\<close> and until after \<open>lb_release\<close>: one if the
  owner of the device is the module, which \<open>resget_create_char_device\<close> sets after \<open>cdev_init\<close> has
  cleared it, and one if the owner of the operations is. It removes a module only when the count is 0.
\<close>

definition owner_refs :: "lbridgen_driver \<Rightarrow> int" where
  "owner_refs drv = (if cdev_owner drv then 1 else 0) + (if fop_owner lb_fops then 1 else 0)"

record module_state =
  ms_refcount :: int
  ms_opens :: nat
  ms_driver :: lbridgen_driver
  ms_held :: "registration list"
  ms_loaded :: bool

inductive module_step :: "module_state \<Rightarrow> module_state \<Rightarrow> bool" where
  Open: "ms_loaded s \<Longrightarrow> Cdev \<in> set (ms_held s) \<Longrightarrow> fop_open lb_fops (ms_refcount s + owner_refs (ms_driver s)) = (0, n) \<Longrightarrow>
    module_step s (s\<lparr> ms_refcount := n, ms_opens := ms_opens s + 1 \<rparr>)"
| Read: "0 < ms_opens s \<Longrightarrow> fop_read lb_fops = 0 \<Longrightarrow> module_step s s"
| Release: "0 < ms_opens s \<Longrightarrow> fop_release lb_fops (ms_refcount s) = (0, n) \<Longrightarrow>
    module_step s (s\<lparr> ms_refcount := n - owner_refs (ms_driver s), ms_opens := ms_opens s - 1 \<rparr>)"
| Unload: "ms_loaded s \<Longrightarrow> ms_refcount s = 0 \<Longrightarrow> resget_exit (ms_driver s) (ms_held s) = Some held \<Longrightarrow>
    module_step s (s\<lparr> ms_held := held, ms_loaded := False \<rparr>)"

inductive module_reach :: "chr_kernel \<Rightarrow> module_state \<Rightarrow> bool" for K where
  Insert: "resget_init K LBRIDGEN_DRIVER_INITIALIZER [] = Some (0, drv, held) \<Longrightarrow>
    module_reach K \<lparr> ms_refcount = 0, ms_opens = 0, ms_driver = drv, ms_held = held, ms_loaded = True \<rparr>"
| Step: "module_reach K s \<Longrightarrow> module_step s s' \<Longrightarrow> module_reach K s'"

definition module_inv :: "module_state \<Rightarrow> bool" where
  "module_inv s \<longleftrightarrow> ms_refcount s = 3 * int (ms_opens s) \<and> (0 < ms_opens s \<longrightarrow> ms_loaded s) \<and>
     (ms_held s \<noteq> [] \<longrightarrow> cdev_owner (ms_driver s)) \<and> (0 < ms_opens s \<longrightarrow> ms_held s \<noteq> []) \<and>
     (ms_loaded s \<longrightarrow> lbclass (ms_driver s) \<noteq> None \<and> ms_held s \<in> {[], [Device, Cdev, Class, Chrdev_region]}) \<and>
     (\<not> ms_loaded s \<longrightarrow> ms_held s = [Chrdev_region])"

lemma resget_init_held:
  "resget_init K LBRIDGEN_DRIVER_INITIALIZER [] = Some (0, drv, held) \<Longrightarrow>
   lbclass drv \<noteq> None \<and> (held \<noteq> [] \<longrightarrow> cdev_owner drv) \<and> held \<in> {[], [Device, Cdev, Class, Chrdev_region]}"
  by (auto simp: resget_init_def resget_create_char_device_def chrdev_err_defs Let_def ENOMEM_def
    split: if_split_asm)

lemma module_step_inv: "module_step s s' \<Longrightarrow> module_inv s \<Longrightarrow> module_inv s'"
  by (induction rule: module_step.induct)
    (auto simp: module_inv_def owner_refs_def lb_fops_def lb_open_def lb_release_def resget_exit_def undo_def bind_simps)

lemma module_reach_inv: "module_reach K s \<Longrightarrow> module_inv s"
proof (induction rule: module_reach.induct)
  case (Insert drv held)
  then show ?case using resget_init_held [OF Insert] by (auto simp: module_inv_def)
next
  case (Step s s')
  then show ?case by (blast intro: module_step_inv)
qed

text \<open>
  C29: in every reachable state of the inserted module its reference count is three for each
  open file, no file is open when it is gone, it can be removed exactly when no file is open,
  provided its device exists, and a removal leaves the device number region registered.
\<close>

theorem module_refcount:
  assumes "module_reach K s"
  shows "ms_refcount s = 3 * int (ms_opens s) \<and>
    (0 < ms_opens s \<longrightarrow> ms_loaded s) \<and>
    (ms_loaded s \<and> Cdev \<in> set (ms_held s) \<longrightarrow>
      (\<exists>s'. module_step s s' \<and> \<not> ms_loaded s') = (ms_opens s = 0)) \<and>
    (\<not> ms_loaded s \<longrightarrow> ms_held s = [Chrdev_region])"
proof -
  have inv: "module_inv s" by (rule module_reach_inv [OF assms])
  have "(\<exists>s'. module_step s s' \<and> \<not> ms_loaded s') = (ms_opens s = 0)"
    if l: "ms_loaded s" "Cdev \<in> set (ms_held s)"
  proof
    assume "ms_opens s = 0"
    moreover have "resget_exit (ms_driver s) (ms_held s) = Some [Chrdev_region]"
      using inv l by (auto simp: module_inv_def resget_exit_def undo_def)
    ultimately show "\<exists>s'. module_step s s' \<and> \<not> ms_loaded s'"
      using l inv Unload [of s "[Chrdev_region]"] by (auto simp: module_inv_def)
  next
    assume "\<exists>s'. module_step s s' \<and> \<not> ms_loaded s'"
    then obtain s' where "module_step s s'" "\<not> ms_loaded s'" by blast
    then show "ms_opens s = 0" using l(1) inv by cases (auto simp: module_inv_def)
  qed
  then show ?thesis using inv by (auto simp: module_inv_def)
qed

text \<open>Inserted and opened once.\<close>

theorem module_refcount_witness:
  "\<exists>s. module_reach \<lparr> k_alloc_chrdev_region = 0, k_class_create = Inr 1, k_cdev_add = 0, k_device_create = Inr 2 \<rparr> s \<and>
     ms_opens s = 1 \<and> ms_refcount s = 3 \<and> ms_loaded s"
proof -
  let ?K = "\<lparr> k_alloc_chrdev_region = 0, k_class_create = Inr 1, k_cdev_add = 0, k_device_create = Inr 2 \<rparr>"
  obtain drv where i: "resget_init ?K LBRIDGEN_DRIVER_INITIALIZER [] =
      Some (0, drv, [Device, Cdev, Class, Chrdev_region])" "cdev_owner drv"
    by (simp add: resget_init_def resget_create_char_device_def Let_def IS_ERR_def)
  from Step [OF Insert [OF i(1)] Open] obtain s where s: "module_reach ?K s" "ms_opens s = 1"
    by (auto simp: lb_fops_def lb_open_def owner_refs_def)
  from module_refcount [OF s(1)] s show ?thesis by (intro exI [of _ s]) auto
qed

end
