(* ===== verification/Dso_Plugin.thy ===== *)
theory Dso_Plugin
  imports Posix_Files
begin

text \<open>
  \<open>dso/dso_plugin.c\<close> and the macros of \<open>dso/dso_plugin.h\<close>: loading a shared object and one symbol
  of it. The dynamic loader is not part of the repository: \<open>dlopen\<close> and \<open>dlsym\<close> are arguments, and
  \<open>dlclose\<close> of a handle that is not open is a fault.
\<close>

section \<open>The loader\<close>

record loader =
  l_dlopen :: "string \<Rightarrow> nat option"
  l_dlsym :: "nat \<Rightarrow> string \<Rightarrow> nat option"

definition dl_open :: "loader \<Rightarrow> string \<Rightarrow> 'p held \<Rightarrow> nat option \<times> 'p held" where
  "dl_open L file held = (case l_dlopen L file of
     None \<Rightarrow> (None, held) | Some h \<Rightarrow> (Some h, acquire (Dso h) held))"

definition dl_close :: "nat \<Rightarrow> 'p held \<Rightarrow> 'p held option" where
  "dl_close h held = (if Dso h \<in> set held then Some (release (Dso h) held) else None)"

section \<open>Plugins\<close>

record dso_plugin_desc =
  dso_vmem :: "nat option"
  dso_vsym :: "nat option"

definition dso_plugin_exit :: "dso_plugin_desc option \<Rightarrow> 'p held \<Rightarrow> 'p held option" where
  "dso_plugin_exit p held = (case p of
     Some p \<Rightarrow> (case dso_vmem p of Some h \<Rightarrow> dl_close h held | None \<Rightarrow> Some held)
   | None \<Rightarrow> Some held)"

definition dso_plugin_init ::
  "loader \<Rightarrow> dso_plugin_desc option \<Rightarrow> string option \<Rightarrow> string option \<Rightarrow> 'p held \<Rightarrow>
   (int \<times> dso_plugin_desc option \<times> 'p held) option" where
  "dso_plugin_init L p file ent held = (case (p, file, ent) of
     (Some p, Some file, Some ent) \<Rightarrow>
       (case dl_open L file held of
          (None, held) \<Rightarrow> Some (- 1, Some (p\<lparr> dso_vmem := None \<rparr>), held)
        | (Some h, held) \<Rightarrow>
            let p = p\<lparr> dso_vmem := Some h, dso_vsym := l_dlsym L h ent \<rparr>
            in if dso_vsym p = None then do { held \<leftarrow> dl_close h held; Some (- 1, Some p, held) }
            else Some (0, Some p, held))
   | _ \<Rightarrow> Some (- 1, p, held))"

definition dso_plugin_get_entry :: "dso_plugin_desc option \<Rightarrow> nat option" where
  "dso_plugin_get_entry dso = (case dso of Some d \<Rightarrow> dso_vsym d | None \<Rightarrow> None)"

definition dso_plugin_get_sym ::
  "loader \<Rightarrow> dso_plugin_desc option \<Rightarrow> string \<Rightarrow> (nat option \<times> dso_plugin_desc option) option" where
  "dso_plugin_get_sym L dso symname = (case dso of
     None \<Rightarrow> Some (None, None)
   | Some d \<Rightarrow> (case dso_vmem d of
       None \<Rightarrow> None
     | Some h \<Rightarrow>
         let d = d\<lparr> dso_vsym := l_dlsym L h symname \<rparr>
         in Some (dso_plugin_get_entry (Some d), Some d)))"

section \<open>Resources\<close>

lemma dso_plugin_init_cases:
  "\<exists>r p' held'. dso_plugin_init L p file ent held = Some (r, p', held') \<and>
    (r \<noteq> 0 \<longrightarrow> held' = held) \<and> (r = 0 \<longrightarrow> dso_plugin_exit p' held' = Some held \<and> dso_plugin_get_entry p' \<noteq> None)"
  by (auto simp: dso_plugin_init_def dl_open_def dl_close_def dso_plugin_exit_def dso_plugin_get_entry_def
    Let_def acquire_def release_def split: option.split)

text \<open>A session, for the interface of openers; closing it is a call of \<open>dso_plugin_exit\<close>.\<close>

type_synonym dso_env = "loader \<times> dso_plugin_desc \<times> string \<times> string"

definition dso_session_open :: "dso_env \<Rightarrow> 'p held \<Rightarrow> (dso_plugin_desc option option \<times> 'p held) option" where
  "dso_session_open env held = (case env of (L, p, file, ent) \<Rightarrow>
     map_option (\<lambda>(r, p', held'). (if r = 0 then Some p' else None, held'))
       (dso_plugin_init L (Some p) (Some file) (Some ent) held))"

definition dso_session_close :: "dso_plugin_desc option \<Rightarrow> 'p held \<Rightarrow> 'p held" where
  "dso_session_close p held = the (dso_plugin_exit p held)"

interpretation dso: open_close "\<lambda>_. True" dso_session_open dso_session_close
proof (unfold_locales, goal_cases)
  case (1 k held held')
  obtain L p path ent where "k = (L, p, path, ent)" by (cases k)
  then show ?case
    using 1 dso_plugin_init_cases [of L "Some p" "Some path" "Some ent" held]
    by (auto simp: dso_session_open_def split: if_split_asm)
next
  case (2 k held d held')
  obtain L p path ent where "k = (L, p, path, ent)" by (cases k)
  then show ?case
    using 2 dso_plugin_init_cases [of L "Some p" "Some path" "Some ent" held]
    by (auto simp: dso_session_open_def dso_session_close_def split: if_split_asm)
qed

section \<open>Properties\<close>

text \<open>
  Loading a plugin and leaving it gives back the handle when the symbol exists; when the
  symbol is missing dso_plugin_init closes the handle but keeps it in the descriptor, and
  dso_plugin_exit closes it a second time.
\<close>

theorem dso_plugin_life:
  assumes "Dso h \<notin> set held" "l_dlopen L path = Some h"
  shows "case l_dlsym L h ent of
      None \<Rightarrow> \<exists>p'. dso_plugin_init L (Some p) (Some path) (Some ent) held = Some (- 1, p', held) \<and>
        dso_plugin_exit p' held = None
    | Some a \<Rightarrow> \<exists>p'. dso_plugin_init L (Some p) (Some path) (Some ent) held = Some (0, p', Dso h # held) \<and>
        dso_plugin_get_entry p' = Some a \<and> dso_plugin_exit p' (Dso h # held) = Some held"
  using assms
  by (simp add: dso_plugin_init_def dl_open_def dl_close_def dso_plugin_exit_def dso_plugin_get_entry_def
    acquire_def release_def split: option.split)

theorem dso_plugin_life_witness:
  "\<exists>p'. dso_plugin_init \<lparr> l_dlopen = \<lambda>_. Some 1, l_dlsym = \<lambda>_ _. None \<rparr>
      (Some \<lparr> dso_vmem = None, dso_vsym = None \<rparr>) (Some ''x'') (Some ''y'') ([] :: u32 held) = Some (- 1, p', []) \<and>
    dso_plugin_exit p' ([] :: u32 held) = None"
  using dso_plugin_life [where h = 1 and held = "[] :: u32 held" and ent = "''y''" and path = "''x''"
    and L = "\<lparr> l_dlopen = \<lambda>_. Some 1, l_dlsym = \<lambda>_ _. None \<rparr>"
    and p = "\<lparr> dso_vmem = None, dso_vsym = None \<rparr>"] by simp

end
