(* ===== verification/Dso_Test.thy ===== *)
theory Dso_Test
  imports Dso_Plugin Dbg_Print
begin

text \<open>
  The plugin of \<open>dso/test\<close>, the program that loads it with \<open>dso_plugin.c\<close>, and the object of
  \<open>dso/interface.c\<close>. What a call through the address \<open>dlsym\<close> found runs is the argument \<open>code\<close>; for
  the plugin of the repository it is \<open>get_plugintest\<close>.
\<close>

section \<open>Objects with a display function\<close>

record plugin_test =
  pt_display :: "string \<Rightarrow> printed \<Rightarrow> printed"

definition func :: "string \<Rightarrow> printed \<Rightarrow> printed" where
  "func p out = put_text Stdout (''hello plugin = '' @ p @ newline) out"

definition get_plugintest :: plugin_test where
  "get_plugintest = \<lparr> pt_display = func \<rparr>"

record zestruct =
  ze_display :: "printed \<Rightarrow> printed"

definition zestruct_display :: "printed \<Rightarrow> printed" where
  "zestruct_display out = put_text Stdout (''hello plugin'' @ newline) out"

definition getzestruct :: zestruct where
  "getzestruct = \<lparr> ze_display = zestruct_display \<rparr>"

section \<open>The program\<close>

text \<open>\<open>file\<close> is \<open>__FILE__\<close>. A call through a null pointer or of an unknown address is a fault.\<close>

definition dso_test_main ::
  "loader \<Rightarrow> (nat \<Rightarrow> plugin_test option) \<Rightarrow> string \<Rightarrow> dso_plugin_desc \<Rightarrow> 'p held \<Rightarrow>
   (int \<times> printed \<times> 'p held) option" where
  "dso_test_main L code src_file plugin held = do {
     (r, p, held) \<leftarrow> dso_plugin_init L (Some plugin) (Some ''./libplugintest.so'') (Some ''get_plugintest'') held;
     if r < 0 then Some (0, [], held)
     else do {
       ptr \<leftarrow> dso_plugin_get_entry p;
       test \<leftarrow> code ptr;
       let out = pt_display test src_file [];
       held \<leftarrow> dso_plugin_exit p held;
       Some (0, out, held) } }"

section \<open>Properties\<close>

text \<open>
  With the plugin of the repository the test program prints one line when the plugin and its
  entry are found and nothing otherwise, ends with status 0 and closes what it opened.
\<close>

theorem dso_test_main_result:
  assumes "\<forall>h a. l_dlopen L ''./libplugintest.so'' = Some h \<longrightarrow> l_dlsym L h ''get_plugintest'' = Some a \<longrightarrow>
    code a = Some get_plugintest"
  shows "dso_test_main L code src_file plugin held = Some (0,
    (if (\<exists>h a. l_dlopen L ''./libplugintest.so'' = Some h \<and> l_dlsym L h ''get_plugintest'' = Some a)
     then [(Stdout, ''hello plugin = '' @ src_file @ newline)] else []), held)"
  using assms
  by (auto simp: dso_test_main_def dso_plugin_init_def dl_open_def dl_close_def dso_plugin_exit_def
    dso_plugin_get_entry_def get_plugintest_def func_def put_text_def acquire_def release_def Let_def
    split: option.split)

theorem dso_test_main_result_witness:
  "dso_test_main \<lparr> l_dlopen = \<lambda>_. Some 1, l_dlsym = \<lambda>_ _. Some 9 \<rparr> (\<lambda>_. Some get_plugintest) ''main.c''
     \<lparr> dso_vmem = None, dso_vsym = None \<rparr> [Fd 1 :: u32 resource] =
   Some (0, [(Stdout, ''hello plugin = main.c'' @ newline)], [Fd 1])"
  using dso_test_main_result [of "\<lparr> l_dlopen = \<lambda>_. Some 1, l_dlsym = \<lambda>_ _. Some 9 \<rparr>" "\<lambda>_. Some get_plugintest"
    "''main.c''" "\<lparr> dso_vmem = None, dso_vsym = None \<rparr>" "[Fd 1 :: u32 resource]"] by simp

end
