(* ===== verification/Netplug.thy ===== *)
theory Netplug
  imports Dbg_Print
begin

text \<open>
  \<open>netplug/net_plug.c\<close>: a security module that refuses IPv4 sockets while a USB key is absent. The
  kernel's symbol table, \<open>register_security\<close> and \<open>usb_find_device\<close> are arguments. A device found is
  a reference to it, counted, which \<open>usb_put_dev\<close> gives back. Of what is printed, the line of the
  removal is modelled.
\<close>

definition EPERM :: int where "EPERM = 1"
definition AF_INET :: int where "AF_INET = 2"

text \<open>The two static function pointers, and whether the hook is registered.\<close>

record netfreeze =
  rs :: "nat option"
  ufd :: "nat option"
  registered :: bool

definition netfreeze_static :: netfreeze where
  "netfreeze_static = \<lparr> rs = None, ufd = None, registered = False \<rparr>"

text \<open>
  \<open>find\<close> is what the function at an address answers: whether the device is there, for the vendor
  and product the module was loaded with. A call through a null pointer is a fault.
\<close>

definition vendor_id :: int where "vendor_id = 0x0781"
definition product_id :: int where "product_id = 0x5566"

definition netfreeze_socket ::
  "(nat \<Rightarrow> int \<Rightarrow> int \<Rightarrow> bool) \<Rightarrow> int \<Rightarrow> int \<Rightarrow> netfreeze \<Rightarrow> int \<Rightarrow> nat \<Rightarrow> (int \<times> nat) option" where
  "netfreeze_socket find_dev vendor product s family refs = (case ufd s of
     None \<Rightarrow> None
   | Some f \<Rightarrow>
       let dev = find_dev f vendor product;
           refs = (if dev then refs + 1 else refs)
       in if \<not> dev \<and> family = AF_INET then Some (- EPERM, refs)
       else Some (0, if dev then refs - 1 else refs))"

definition netfreeze_init ::
  "(string \<Rightarrow> nat option) \<Rightarrow> (nat \<Rightarrow> int) \<Rightarrow> netfreeze \<Rightarrow> int \<times> netfreeze" where
  "netfreeze_init kallsyms_lookup_name register_security s = (
     let s = s\<lparr> rs := kallsyms_lookup_name ''register_security'' \<rparr>;
         s = s\<lparr> ufd := kallsyms_lookup_name ''usb_find_device'' \<rparr>
     in case (rs s, ufd s) of
       (Some r, Some f) \<Rightarrow>
         if register_security r \<noteq> 0 then (- int (unat EINVAL), s)
         else (0, s\<lparr> registered := True \<rparr>)
     | _ \<Rightarrow> (- 1, s))"

text \<open>The removal prints a line; the hook stays registered.\<close>

definition netfreeze_exit :: "printed \<Rightarrow> netfreeze \<Rightarrow> printed \<times> netfreeze" where
  "netfreeze_exit log s = (put_text Stdout (''LSM exit bye'' @ newline) log, s)"

text \<open>
  The kernel makes a socket: it asks the hook when one is registered, and running it is a fault once
  the module is gone.
\<close>

definition kernel_socket ::
  "(nat \<Rightarrow> int \<Rightarrow> int \<Rightarrow> bool) \<Rightarrow> bool \<Rightarrow> netfreeze \<Rightarrow> int \<Rightarrow> nat \<Rightarrow> (int \<times> nat) option" where
  "kernel_socket find_dev loaded s family refs =
    (if \<not> registered s then Some (0, refs)
     else if \<not> loaded then None
     else netfreeze_socket find_dev vendor_id product_id s family refs)"

section \<open>Properties\<close>

text \<open>
  The module is inserted exactly when its hook is registered. While it is there, an IPv4 socket is
  refused exactly when the device is absent and no reference to the device is lost; after its
  removal every attempt to make a socket is a fault.
\<close>

theorem netfreeze_module_life:
  assumes "netfreeze_init lookup register netfreeze_static = (r, s)"
  shows "(registered s \<longleftrightarrow> r = 0) \<and>
    (r = 0 \<longrightarrow> (\<exists>f. lookup ''usb_find_device'' = Some f \<and>
      kernel_socket find_dev True s family refs =
        Some (if family = AF_INET \<and> \<not> find_dev f vendor_id product_id then - EPERM else 0, refs)) \<and>
      kernel_socket find_dev False (snd (netfreeze_exit log s)) family refs = None)"
  using assms
  by (auto simp: netfreeze_init_def netfreeze_socket_def netfreeze_static_def netfreeze_exit_def kernel_socket_def
    EINVAL_def Let_def split: option.split option.split_asm if_split_asm)

theorem netfreeze_module_life_witness:
  "kernel_socket (\<lambda>_ _ _. False) True (snd (netfreeze_init (\<lambda>_. Some 7) (\<lambda>_. 0) netfreeze_static)) AF_INET 0 = Some (- 1, 0) \<and>
   kernel_socket (\<lambda>_ _ _. False) False (snd (netfreeze_init (\<lambda>_. Some 7) (\<lambda>_. 0) netfreeze_static)) AF_INET 0 = None"
  using netfreeze_module_life [of "\<lambda>_. Some 7" "\<lambda>_. 0" 0 _ "\<lambda>_ _ _. False" AF_INET 0]
  by (simp add: netfreeze_init_def netfreeze_static_def netfreeze_exit_def EPERM_def)

end
