(* ===== verification/Thread_Name.thy ===== *)
theory Thread_Name
  imports C_Memory Dbg_Print
begin

text \<open>
  \<open>thread_name/thsetname.c\<close>: the name a thread hands to \<open>prctl(PR_SET_NAME)\<close>. A C string is the list
  of its bytes before the terminator; the kernel keeps at most 15 of them.
\<close>

definition MAX_NAME_LEN :: nat where "MAX_NAME_LEN = 16"
definition TASK_COMM_LEN :: nat where "TASK_COMM_LEN = 16"

text \<open>\<open>char name[MAX_NAME_LEN + 1]\<close> after \<open>strncpy\<close> and the store of the terminator.\<close>

definition set_thread_name_buffer :: "byte list \<Rightarrow> byte list" where
  "set_thread_name_buffer thread_name =
    (let copied = take MAX_NAME_LEN (thread_name @ replicate MAX_NAME_LEN 0) in copied @ [0])"

definition prctl_set_name :: "byte list \<Rightarrow> byte list" where
  "prctl_set_name buf = take (TASK_COMM_LEN - 1) (takeWhile (\<lambda>b. b \<noteq> 0) buf)"

definition set_thread_name :: "byte list \<Rightarrow> byte list" where
  "set_thread_name thread_name = prctl_set_name (set_thread_name_buffer thread_name)"

definition input_thread_name :: "byte list" where
  "input_thread_name = set_thread_name (map of_char ''input_thread'')"

definition output_thread_name :: "byte list" where
  "output_thread_name = set_thread_name (map of_char ''output_thread'')"

text \<open>The buffer always holds a terminated string, and the name is a prefix of the one given.\<close>

theorem set_thread_name_prefix:
  assumes "0 \<notin> set s"
  shows "set_thread_name s = take 15 s" "length (set_thread_name_buffer s) = MAX_NAME_LEN + 1"
proof -
  have "takeWhile (\<lambda>b. b \<noteq> 0) (take 16 (s @ replicate 16 0) @ [0]) = take 16 s"
  proof (cases "length s \<le> 16")
    case True
    have "takeWhile (\<lambda>b. b \<noteq> 0) (s @ replicate k 0 @ [0]) = s" for k
    proof -
      have "takeWhile (\<lambda>b. b \<noteq> 0) (replicate k 0 @ [0 :: byte]) = []" by (cases k) simp_all
      then show ?thesis using assms by (subst takeWhile_append2) auto
    qed
    then show ?thesis using True by (simp add: take_append)
  next
    case False
    moreover have "0 \<notin> set (take 16 s)" using assms by (meson in_set_takeD)
    ultimately show ?thesis by (subst takeWhile_append2) auto
  qed
  then show "set_thread_name s = take 15 s"
    by (simp add: set_thread_name_def set_thread_name_buffer_def prctl_set_name_def MAX_NAME_LEN_def
      TASK_COMM_LEN_def min_def)
qed (simp add: set_thread_name_buffer_def MAX_NAME_LEN_def)

section \<open>The program\<close>

text \<open>
  A thread that was not created, one that has not run yet, and one in its endless loop of \<open>sleep\<close>,
  with the name it gave itself; \<open>Ended\<close> is what \<open>pthread_join\<close> waits for.
\<close>

datatype thread = Absent | Running | Sleeping "byte list" | Ended

inductive thread_step :: "byte list \<Rightarrow> thread \<Rightarrow> thread \<Rightarrow> bool" for name where
  Set_name: "thread_step name Running (Sleeping name)"
| Sleep: "thread_step name (Sleeping n) (Sleeping n)"

definition input_thread :: "thread \<Rightarrow> thread \<Rightarrow> bool" where
  "input_thread = thread_step input_thread_name"

definition output_thread :: "thread \<Rightarrow> thread \<Rightarrow> bool" where
  "output_thread = thread_step output_thread_name"

datatype main_pc = Start | Create_input | Create_output | Explain | Join_input | Join_output | Returned

record th_program =
  tp_pc :: main_pc
  tp_input :: thread
  tp_output :: thread
  tp_out :: printed

definition th_start :: th_program where
  "th_start = \<lparr> tp_pc = Start, tp_input = Absent, tp_output = Absent, tp_out = [] \<rparr>"

text \<open>
  One step of \<open>main\<close>, whose thread creations may fail unnoticed, or of one of the threads.
\<close>

inductive th_step :: "th_program \<Rightarrow> th_program \<Rightarrow> bool" where
  Announce: "tp_pc s = Start \<Longrightarrow>
    th_step s (s\<lparr> tp_pc := Create_input, tp_out := put_text Stdout (''Threads with names'' @ newline) (tp_out s) \<rparr>)"
| New_input: "tp_pc s = Create_input \<Longrightarrow> t \<in> {Running, Absent} \<Longrightarrow>
    th_step s (s\<lparr> tp_pc := Create_output, tp_input := t \<rparr>)"
| New_output: "tp_pc s = Create_output \<Longrightarrow> t \<in> {Running, Absent} \<Longrightarrow>
    th_step s (s\<lparr> tp_pc := Explain, tp_output := t \<rparr>)"
| Tell: "tp_pc s = Explain \<Longrightarrow>
    th_step s (s\<lparr> tp_pc := Join_input, tp_out := put_text Stdout
      (''now, read thread name with: ps -Leo pid,tid,class,rtprio,ni,pri,psr,pcpu,stat,wchan:14,comm'' @ newline)
      (tp_out s) \<rparr>)"
| Joined_input: "tp_pc s = Join_input \<Longrightarrow> tp_input s = Ended \<Longrightarrow> th_step s (s\<lparr> tp_pc := Join_output \<rparr>)"
| Joined_output: "tp_pc s = Join_output \<Longrightarrow> tp_output s = Ended \<Longrightarrow> th_step s (s\<lparr> tp_pc := Returned \<rparr>)"
| Input: "input_thread (tp_input s) t \<Longrightarrow> th_step s (s\<lparr> tp_input := t \<rparr>)"
| Output: "output_thread (tp_output s) t \<Longrightarrow> th_step s (s\<lparr> tp_output := t \<rparr>)"

definition th_inv :: "th_program \<Rightarrow> bool" where
  "th_inv s \<longleftrightarrow>
     (tp_pc s \<in> {Start, Create_input} \<longrightarrow> tp_input s = Absent) \<and>
     (tp_pc s \<in> {Start, Create_input, Create_output} \<longrightarrow> tp_output s = Absent) \<and>
     tp_pc s \<notin> {Join_output, Returned} \<and>
     tp_input s \<in> {Absent, Running, Sleeping input_thread_name} \<and>
     tp_output s \<in> {Absent, Running, Sleeping output_thread_name}"

inductive_cases thread_stepE: "thread_step name t t'"

lemma input_thread_states:
  "input_thread t t' \<Longrightarrow> t \<in> {Absent, Running, Sleeping input_thread_name} \<Longrightarrow> t \<noteq> Absent \<and> t' = Sleeping input_thread_name"
  "output_thread t t' \<Longrightarrow> t \<in> {Absent, Running, Sleeping output_thread_name} \<Longrightarrow> t \<noteq> Absent \<and> t' = Sleeping output_thread_name"
  by (auto simp: input_thread_def output_thread_def elim: thread_stepE)

lemma th_step_inv:
  assumes "th_step s s'" "th_inv s"
  shows "th_inv s'"
  using assms
proof cases
  case (Input t)
  then show ?thesis using assms(2) input_thread_states(1) [of "tp_input s" t] by (auto simp: th_inv_def)
next
  case (Output t)
  then show ?thesis using assms(2) input_thread_states(2) [of "tp_output s" t] by (auto simp: th_inv_def)
qed (auto simp: th_inv_def)

lemma thread_names:
  "input_thread_name = map of_char ''input_thread''" "output_thread_name = map of_char ''output_thread''"
proof -
  show "input_thread_name = map of_char ''input_thread''"
    using set_thread_name_prefix(1) [of "map of_char ''input_thread''"] by (simp add: input_thread_name_def)
  show "output_thread_name = map of_char ''output_thread''"
    using set_thread_name_prefix(1) [of "map of_char ''output_thread''"] by (simp add: output_thread_name_def)
qed

text \<open>
  In every order of the steps main never returns and each thread that has begun to sleep has
  the name that was given to it, uncut.
\<close>

theorem th_program_names:
  assumes "th_step\<^sup>*\<^sup>* th_start s"
  shows "tp_pc s \<noteq> Returned \<and>
    tp_input s \<in> {Absent, Running, Sleeping (map of_char ''input_thread'')} \<and>
    tp_output s \<in> {Absent, Running, Sleeping (map of_char ''output_thread'')}"
proof -
  have inv: "th_inv s"
    using assms
  proof (induction rule: rtranclp_induct)
    case base
    then show ?case by (simp add: th_inv_def th_start_def)
  next
    case (step s s')
    then show ?case by (blast intro: th_step_inv)
  qed
  then show ?thesis using inv by (auto simp: th_inv_def thread_names)
qed

theorem th_program_names_witness:
  "\<exists>s. th_step\<^sup>*\<^sup>* th_start s \<and> tp_pc s = Create_output \<and> tp_pc s \<noteq> Returned \<and>
     tp_input s = Sleeping (map of_char ''input_thread'')"
proof -
  let ?s1 = "th_start\<lparr> tp_pc := Create_input, tp_out := put_text Stdout (''Threads with names'' @ newline) (tp_out th_start) \<rparr>"
  let ?s2 = "?s1\<lparr> tp_pc := Create_output, tp_input := Running \<rparr>"
  let ?s3 = "?s2\<lparr> tp_input := Sleeping input_thread_name \<rparr>"
  have "th_step th_start ?s1" by (rule Announce) (simp add: th_start_def)
  moreover have "th_step ?s1 ?s2" by (rule New_input) simp_all
  moreover have "th_step ?s2 ?s3" by (rule Input) (simp add: input_thread_def Set_name)
  ultimately have r: "th_step\<^sup>*\<^sup>* th_start ?s3" by (meson converse_rtranclp_into_rtranclp rtranclp.rtrancl_refl)
  show ?thesis using th_program_names [OF r] r by (intro exI [of _ ?s3]) (simp add: thread_names)
qed

end
