(* ===== verification/Utf8_Lossy.thy ===== *)
theory Utf8_Lossy
  imports C_Memory
begin

text \<open>
  \<open>String::from_utf8_lossy\<close> of the standard library of Rust, on the bytes of the string it returns.
  Well-formed characters stay; each longest prefix of a character that is not continued becomes the
  replacement character U+FFFD, and so does a byte that starts none.
\<close>

definition utf8_replacement :: "byte list" where
  "utf8_replacement = [0xEF, 0xBF, 0xBD]"

text \<open>The number of bytes of the character a byte starts, 0 if it starts none.\<close>

definition utf8_width :: "byte \<Rightarrow> nat" where
  "utf8_width a = (
     if a < 0x80 then 1
     else if 0xC2 \<le> a \<and> a \<le> 0xDF then 2
     else if 0xE0 \<le> a \<and> a \<le> 0xEF then 3
     else if 0xF0 \<le> a \<and> a \<le> 0xF4 then 4
     else 0)"

definition utf8_cont :: "byte \<Rightarrow> bool" where
  "utf8_cont b \<longleftrightarrow> 0x80 \<le> b \<and> b \<le> 0xBF"

text \<open>The second byte: no overlong forms, no surrogates, nothing above U+10FFFF.\<close>

definition utf8_second :: "byte \<Rightarrow> byte \<Rightarrow> bool" where
  "utf8_second a b \<longleftrightarrow> (
     if a = 0xE0 then 0xA0 \<le> b \<and> b \<le> 0xBF
     else if a = 0xED then 0x80 \<le> b \<and> b \<le> 0x9F
     else if a = 0xF0 then 0x90 \<le> b \<and> b \<le> 0xBF
     else if a = 0xF4 then 0x80 \<le> b \<and> b \<le> 0x8F
     else utf8_cont b)"

text \<open>How many of the bytes after \<open>a\<close> continue its character.\<close>

definition utf8_continued :: "byte \<Rightarrow> byte list \<Rightarrow> nat" where
  "utf8_continued a s = (case take (utf8_width a - 1) s of
     [] \<Rightarrow> 0
   | b # bs \<Rightarrow> if utf8_second a b then 1 + length (takeWhile utf8_cont bs) else 0)"

function utf8_lossy :: "byte list \<Rightarrow> byte list" where
  "utf8_lossy [] = []"
| "utf8_lossy (a # s) = (
     let k = utf8_continued a s
     in (if k + 1 = utf8_width a then a # take k s else utf8_replacement) @ utf8_lossy (drop k s))"
  by pat_completeness auto
termination
  by (relation "measure length") auto

lemma utf8_ascii: "\<forall>b\<in>set s. b < 0x80 \<Longrightarrow> utf8_lossy s = s"
  by (induction s) (simp_all add: utf8_continued_def utf8_width_def)

text \<open>A character at the end of a block that lacks its last byte, and the same character in full.\<close>

lemma utf8_lossy_cut:
  "utf8_lossy [0x61, 0xE2, 0x82] = 0x61 # utf8_replacement"
  "utf8_lossy [0xE2, 0x82, 0xAC] = [0xE2, 0x82, 0xAC]"
  by (simp_all add: utf8_continued_def utf8_width_def utf8_second_def utf8_cont_def Let_def)

end
