(* ===== verification/Double_Buffer.thy ===== *)
theory Double_Buffer
  imports Utf8_Lossy Dbg_Print
begin

text \<open>
  \<open>double_buffering/dblbuffering/src/lib.rs\<close>: a worker that prints several files side by side. Each
  file has a reader thread with two buffers; while the worker prints one, the thread fills the
  other. They talk through channels, which are lists here. A step of the model is one message sent
  or received, or one critical section on a buffer; a blocked thread has no step. The operating
  system is an argument: what a file contains, how many bytes a read may return, and the texts of its
  errors. The output has the lines of all threads in the order they were printed.
\<close>

section \<open>Buffers\<close>

record ece_buffer =
  eb_buffer :: "byte list"
  eb_len :: nat

definition ece_buffer_bank_new :: "nat \<Rightarrow> ece_buffer" where
  "ece_buffer_bank_new capacity = \<lparr> eb_buffer = replicate capacity 0, eb_len = 0 \<rparr>"

definition ece_buffers_new :: "nat \<Rightarrow> ece_buffer list" where
  "ece_buffers_new capacity = [ece_buffer_bank_new capacity, ece_buffer_bank_new capacity]"

text \<open>\<open>bank_id & 1\<close> on an unsigned number.\<close>

definition bank_slot :: "nat \<Rightarrow> nat" where
  "bank_slot bank_id = bank_id mod 2"

definition get_bank :: "ece_buffer list \<Rightarrow> nat \<Rightarrow> ece_buffer" where
  "get_bank banks bank_id = banks ! bank_slot bank_id"

definition apply_bank :: "ece_buffer list \<Rightarrow> nat \<Rightarrow> (ece_buffer \<Rightarrow> ece_buffer) \<Rightarrow> ece_buffer list" where
  "apply_bank banks bank_id action = banks[bank_slot bank_id := action (get_bank banks bank_id)]"

section \<open>Output\<close>

text \<open>
  A line of the worker, which is bytes that \<open>from_utf8_lossy\<close> returned and the newline of \<open>println\<close>; a
  message of the thread of a reader, on the standard output; and the message of a panic, on the
  standard error, of a reader or of the thread that uses the worker. A line is written at once, as
  \<open>println\<close> holds the lock of the output; what the runtime puts before the message of a panic, the name
  of the thread and the place, is left out.
\<close>

datatype ece_line = Worker_line "byte list" | Reader_line nat string | Panic_line "nat option" string

definition block_text :: "byte list \<Rightarrow> byte list" where
  "block_text buffer = utf8_lossy buffer @ [0x0A]"

section \<open>Jobs and readers\<close>

record ece_job =
  jb_offset :: nat
  jb_len :: nat
  jb_finished :: bool
  jb_filename :: "string option"

text \<open>
  A thread before \<open>recv\<close>, before it reads for a job, before it sends the acknowledgement of a job,
  and at its end, by \<open>break\<close> or by a panic.
\<close>

datatype reader_at = At_recv | At_read ece_job | At_ack ece_job | Thread_ended | Thread_panicked

text \<open>
  A reader with its thread: the shared banks, the channel with its jobs, and the local variables
  \<open>f\<close> (what is left of the open file) and \<open>first_bank\<close>. The sending end of the channel is kept by the
  worker as long as the thread runs, so \<open>recv\<close> never fails, and the receiving end by the reader, so
  \<open>send\<close> never fails. Only this thread locks the receiving end.
\<close>

record ece_reader =
  rd_banks :: "ece_buffer list"
  rd_queue :: "ece_job list"
  rd_file :: "byte list option"
  rd_first_bank :: nat
  rd_at :: reader_at

definition ece_reader_new :: "nat \<Rightarrow> ece_reader" where
  "ece_reader_new capacity = \<lparr> rd_banks = ece_buffers_new capacity, rd_queue = [], rd_file = None,
     rd_first_bank = 0, rd_at = At_recv \<rparr>"

text \<open>
  \<open>os_open\<close>: the contents of the file of a name, or the error of opening it. \<open>os_read i k\<close>: for the
  \<open>k\<close>-th read of reader \<open>i\<close> the number of bytes it may return at most, or its error. An error is its text.
\<close>

record ece_os =
  os_open :: "string \<Rightarrow> string + byte list"
  os_read :: "nat \<Rightarrow> nat \<Rightarrow> string + nat"

text \<open>
  The closure that reads into a buffer, with the number of bytes read, the rest of the file and the
  messages it prints. After an error the buffer keeps its bytes and its length.
\<close>

definition read_into :: "string + nat \<Rightarrow> byte list \<Rightarrow> ece_buffer \<Rightarrow> nat \<times> ece_buffer \<times> byte list \<times> string list" where
  "read_into answer rest b = (case answer of
     Inl e \<Rightarrow> (0, b, rest, [''cannot read content '' @ e @ newline])
   | Inr n \<Rightarrow>
       let s = min n (min (length (eb_buffer b)) (length rest))
       in (s, \<lparr> eb_buffer = take s rest @ drop s (eb_buffer b), eb_len = s \<rparr>, drop s rest, []))"

text \<open>
  One step of the thread of reader \<open>i\<close>, what it sends to the listener and what it prints. The panic of
  \<open>expect\<close> prints its message and the error.
\<close>

definition reader_step :: "ece_os \<Rightarrow> nat \<Rightarrow> ece_reader \<Rightarrow> (ece_reader \<times> ece_job list \<times> ece_line list) option" where
  "reader_step K i rd = (case rd_at rd of
     At_recv \<Rightarrow> (case rd_queue rd of
       [] \<Rightarrow> None
     | r # q \<Rightarrow>
         let rd = rd\<lparr> rd_queue := q \<rparr>
         in if jb_finished r then Some (rd\<lparr> rd_at := Thread_ended \<rparr>, [], [])
         else (case (case jb_filename r of
                 Some name \<Rightarrow> map_sum id Some (os_open K name)
               | None \<Rightarrow> Inr (rd_file rd)) of
             Inl e \<Rightarrow> Some (rd\<lparr> rd_at := Thread_panicked \<rparr>, [],
               [Panic_line (Some i) (''cannot open file: '' @ e @ newline)])
           | Inr f \<Rightarrow>
               let rd = rd\<lparr> rd_file := f \<rparr>
               in if jb_len r = 0 \<or> f = None then Some (rd, [], [])
               else Some (rd\<lparr> rd_at := At_read r \<rparr>, [], [])))
   | At_read r \<Rightarrow> (case rd_file rd of
       None \<Rightarrow> None
     | Some rest \<Rightarrow>
         let (bytes_read, b, rest, msgs) =
           read_into (os_read K i (rd_first_bank rd)) rest (get_bank (rd_banks rd) (rd_first_bank rd))
         in Some (rd\<lparr> rd_banks := apply_bank (rd_banks rd) (rd_first_bank rd) (\<lambda>_. b), rd_file := Some rest,
              rd_at := At_ack (r\<lparr> jb_len := bytes_read \<rparr>) \<rparr>, [], map (Reader_line i) msgs))
   | At_ack r \<Rightarrow> Some (rd\<lparr> rd_first_bank := rd_first_bank rd + 1, rd_at := At_recv \<rparr>, [r], [])
   | Thread_ended \<Rightarrow> None
   | Thread_panicked \<Rightarrow> None)"

section \<open>The worker\<close>

text \<open>
  Where the thread that uses the worker is: in no call; in \<open>work\<close>, about to open the file of reader
  \<open>n\<close>, to send a job to it (before the loop or in it), to receive the acknowledgement that follows \<open>k\<close>
  others, or to print the buffer of reader \<open>n\<close>; in \<open>drop\<close>, about to end or to join reader \<open>n\<close>.
\<close>

datatype work_at = Idle | Opening nat "string list" | Sending bool nat | Waiting nat | Writing nat
  | Dropping nat | Joining nat | Dropped | Main_panicked

record ece_worker =
  ew_readers :: "ece_reader list"
  ew_capacity :: nat
  ew_listener :: "ece_job list"
  ew_at :: work_at
  ew_offset :: nat
  ew_bank_read :: nat
  ew_len :: nat
  ew_out :: "ece_line list"

definition ece_worker_new :: "nat \<Rightarrow> nat \<Rightarrow> ece_worker" where
  "ece_worker_new nr capacity = \<lparr> ew_readers = replicate nr (ece_reader_new capacity), ew_capacity = capacity,
     ew_listener = [], ew_at = Idle, ew_offset = 0, ew_bank_read = 0, ew_len = 0, ew_out = [] \<rparr>"

text \<open>The field \<open>nrs_readers\<close> is set once, to the length of \<open>readers\<close>, which does not change.\<close>

definition nrs_readers :: "ece_worker \<Rightarrow> nat" where
  "nrs_readers w = length (ew_readers w)"

definition work :: "string list \<Rightarrow> ece_worker \<Rightarrow> ece_worker" where
  "work filenames w = w\<lparr> ew_offset := 0, ew_bank_read := 0, ew_at := Opening 0 filenames \<rparr>"

definition drop_worker :: "ece_worker \<Rightarrow> ece_worker" where
  "drop_worker w = w\<lparr> ew_at := Dropping 0 \<rparr>"

definition send :: "nat \<Rightarrow> ece_job \<Rightarrow> ece_worker \<Rightarrow> ece_worker" where
  "send n job w = w\<lparr> ew_readers := (ew_readers w)[n := (ew_readers w ! n)\<lparr> rd_queue := rd_queue (ew_readers w ! n) @ [job] \<rparr>] \<rparr>"

definition open_job :: "string \<Rightarrow> ece_job" where
  "open_job filename = \<lparr> jb_offset = 0, jb_len = 0, jb_finished = False, jb_filename = Some filename \<rparr>"

definition work_job :: "nat \<Rightarrow> nat \<Rightarrow> bool \<Rightarrow> ece_job" where
  "work_job offset capacity finished = \<lparr> jb_offset = offset, jb_len = capacity, jb_finished = finished, jb_filename = None \<rparr>"

text \<open>
  \<open>open_files\<close> and \<open>send_work\<close> send to one reader after the other; \<open>wait_readers\<close> receives as many
  acknowledgements as there are readers (without readers nothing can send, and it returns);
  \<open>process_writer\<close> prints all bytes of a buffer, as the text \<open>from_utf8_lossy\<close> makes of them.
\<close>

definition open_files :: "nat \<Rightarrow> string list \<Rightarrow> ece_worker \<Rightarrow> ece_worker" where
  "open_files n filenames w =
    (if n < length filenames \<and> n < nrs_readers w
     then (send n (open_job (filenames ! n)) w)\<lparr> ew_at := Opening (n + 1) filenames \<rparr>
     else w\<lparr> ew_at := Sending True 0 \<rparr>)"

definition send_work :: "bool \<Rightarrow> nat \<Rightarrow> ece_worker \<Rightarrow> ece_worker" where
  "send_work first n w =
    (if n < nrs_readers w
     then (send n (work_job (ew_offset w) (ew_capacity w) False) w)\<lparr> ew_at := Sending first (n + 1) \<rparr>
     else w\<lparr> ew_offset := ew_offset w + ew_capacity w, ew_len := 0, ew_at := if first then Waiting 0 else Writing 0 \<rparr>)"

definition wait_readers :: "nat \<Rightarrow> ece_worker \<Rightarrow> ece_worker option" where
  "wait_readers job_done w =
    (if nrs_readers w = 0 then Some (w\<lparr> ew_at := Sending False 0 \<rparr>)
     else (case ew_listener w of
       [] \<Rightarrow> None
     | _ # l \<Rightarrow> Some (w\<lparr> ew_listener := l,
         ew_at := if job_done + 1 = nrs_readers w then Sending False 0 else Waiting (job_done + 1) \<rparr>)))"

definition process_writer :: "nat \<Rightarrow> ece_worker \<Rightarrow> ece_worker" where
  "process_writer n w =
    (if n < nrs_readers w
     then let b = get_bank (rd_banks (ew_readers w ! n)) (ew_bank_read w)
       in w\<lparr> ew_len := eb_len b, ew_out := ew_out w @ [Worker_line (block_text (eb_buffer b))], ew_at := Writing (n + 1) \<rparr>
     else w\<lparr> ew_bank_read := (ew_bank_read w + 1) mod 2,
       ew_at := if ew_len w < ew_capacity w then Idle else Waiting 0 \<rparr>)"

definition drop_send :: "nat \<Rightarrow> ece_worker \<Rightarrow> ece_worker" where
  "drop_send n w =
    (if n < nrs_readers w
     then (send n (work_job 0 (ew_capacity w) True) w)\<lparr> ew_at := Dropping (n + 1) \<rparr>
     else w\<lparr> ew_at := Joining 0 \<rparr>)"

definition drop_join :: "nat \<Rightarrow> ece_worker \<Rightarrow> ece_worker option" where
  "drop_join n w =
    (if n < nrs_readers w
     then (case rd_at (ew_readers w ! n) of
         Thread_ended \<Rightarrow> Some (w\<lparr> ew_at := Joining (n + 1) \<rparr>)
       | Thread_panicked \<Rightarrow> Some (w\<lparr> ew_at := Main_panicked,
           ew_out := ew_out w @ [Panic_line None (''joining thread: Any { .. }'' @ newline)] \<rparr>)
       | _ \<Rightarrow> None)
     else Some (w\<lparr> ew_at := Dropped \<rparr>))"

definition main_step :: "ece_worker \<Rightarrow> ece_worker option" where
  "main_step w = (case ew_at w of
     Opening n filenames \<Rightarrow> Some (open_files n filenames w)
   | Sending first n \<Rightarrow> Some (send_work first n w)
   | Waiting k \<Rightarrow> wait_readers k w
   | Writing n \<Rightarrow> Some (process_writer n w)
   | Dropping n \<Rightarrow> Some (drop_send n w)
   | Joining n \<Rightarrow> drop_join n w
   | _ \<Rightarrow> None)"

text \<open>Any thread that can go on may be the next one to do so.\<close>

inductive ece_step :: "ece_os \<Rightarrow> ece_worker \<Rightarrow> ece_worker \<Rightarrow> bool" for K where
  Main: "main_step w = Some w' \<Longrightarrow> ece_step K w w'"
| Reader: "i < nrs_readers w \<Longrightarrow> reader_step K i (ew_readers w ! i) = Some (rd, acks, lines) \<Longrightarrow>
    ece_step K w (w\<lparr> ew_readers := (ew_readers w)[i := rd], ew_listener := ew_listener w @ acks,
      ew_out := ew_out w @ lines \<rparr>)"

inductive_cases ece_stepE: "ece_step K w w'"

section \<open>The lines of one thread\<close>

fun worker_lines :: "ece_line list \<Rightarrow> byte list list" where
  "worker_lines [] = []"
| "worker_lines (Worker_line s # out) = s # worker_lines out"
| "worker_lines (_ # out) = worker_lines out"

definition reader_lines :: "nat \<Rightarrow> ece_line list \<Rightarrow> ece_line list" where
  "reader_lines i out = filter (\<lambda>l. case l of Reader_line j s \<Rightarrow> j = i | _ \<Rightarrow> False) out"

text \<open>What the \<open>k\<close>-th read of reader \<open>i\<close> prints, and the reads whose messages it has printed.\<close>

definition read_lines :: "ece_os \<Rightarrow> nat \<Rightarrow> nat \<Rightarrow> ece_line list" where
  "read_lines K i k = (case os_read K i k of
     Inl e \<Rightarrow> [Reader_line i (''cannot read content '' @ e @ newline)]
   | Inr n \<Rightarrow> [])"

lemma read_lines_cases: "read_lines K i k = [] \<or> (\<exists>t. read_lines K i k = [Reader_line i t])"
  by (simp add: read_lines_def split: sum.split)

definition reads_done :: "ece_reader \<Rightarrow> nat" where
  "reads_done rd = rd_first_bank rd + (case rd_at rd of At_ack r \<Rightarrow> 1 | _ \<Rightarrow> 0)"

lemma worker_lines_append [simp]: "worker_lines (a @ b) = worker_lines a @ worker_lines b"
  by (induction a rule: worker_lines.induct) simp_all

lemma reader_lines_simps [simp]:
  "reader_lines i [] = []" "reader_lines i (a @ b) = reader_lines i a @ reader_lines i b"
  "reader_lines i [Worker_line s] = []" "reader_lines i [Panic_line p t] = []"
  "reader_lines i [Reader_line j t] = (if j = i then [Reader_line j t] else [])"
  by (simp_all add: reader_lines_def)

lemma worker_lines_Nil: "worker_lines out = [] \<longleftrightarrow> (\<forall>s. Worker_line s \<notin> set out)"
  by (induction out rule: worker_lines.induct) auto

text \<open>A thread prints a line for each read that fails, and one if it panics.\<close>

lemma reader_step_lines:
  assumes "reader_step K i rd = Some (rd', acks, lines)"
  shows "worker_lines lines = [] \<and>
    (if \<exists>r. rd_at rd = At_read r then lines = read_lines K i (rd_first_bank rd) \<and> reads_done rd' = Suc (reads_done rd)
     else reads_done rd' = reads_done rd \<and>
       (if rd_at rd' = Thread_panicked then \<exists>t. lines = [Panic_line (Some i) t] else lines = []))"
  using assms
  by (auto simp: reader_step_def reads_done_def read_lines_def read_into_def Let_def split_beta
    split: reader_at.split_asm list.split_asm option.split_asm if_split_asm sum.splits sum.split_asm)

end
