(* ===== verification/Double_Buffer_Runs.thy ===== *)
theory Double_Buffer_Runs
  imports Double_Buffer
begin

text \<open>
  Runs of \<open>work\<close> on a new worker. The reference is a program without threads: reader \<open>i\<close> reads its
  file block after block into its two buffers in turn, and the blocks are printed round by round.
  Every interleaving of the threads prints what that program prints, none blocks, and every run is
  finite.
\<close>

section \<open>The program without threads\<close>

primrec seq_read :: "ece_os \<Rightarrow> nat \<Rightarrow> nat \<Rightarrow> byte list \<Rightarrow> nat \<Rightarrow> ece_buffer list \<times> byte list" where
  "seq_read K cap i content 0 = (ece_buffers_new cap, content)"
| "seq_read K cap i content (Suc k) = (
     let (banks, rest) = seq_read K cap i content k;
         (s, b, rest, msgs) = read_into (os_read K i k) rest (get_bank banks k)
     in (apply_bank banks k (\<lambda>_. b), rest))"

definition seq_block :: "ece_os \<Rightarrow> nat \<Rightarrow> nat \<Rightarrow> byte list \<Rightarrow> nat \<Rightarrow> ece_buffer" where
  "seq_block K cap i content r = get_bank (fst (seq_read K cap i content (Suc r))) r"

definition seq_round :: "ece_os \<Rightarrow> nat \<Rightarrow> byte list list \<Rightarrow> nat \<Rightarrow> byte list list" where
  "seq_round K cap contents r = map (\<lambda>i. block_text (eb_buffer (seq_block K cap i (contents ! i) r))) [0..<length contents]"

definition seq_out :: "ece_os \<Rightarrow> nat \<Rightarrow> byte list list \<Rightarrow> nat \<Rightarrow> byte list list" where
  "seq_out K cap contents rounds = concat (map (seq_round K cap contents) [0..<rounds])"

text \<open>The length of the last reader's block, on which the loop goes.\<close>

definition seq_len :: "ece_os \<Rightarrow> nat \<Rightarrow> byte list list \<Rightarrow> nat \<Rightarrow> nat" where
  "seq_len K cap contents r = eb_len (seq_block K cap (length contents - 1) (last contents) r)"

lemma length_seq_banks: "length (fst (seq_read K cap i content k)) = 2"
  by (induction k) (simp_all add: ece_buffers_new_def apply_bank_def split_beta)

lemma get_apply_bank:
  "length banks = 2 \<Longrightarrow> get_bank (apply_bank banks k f) j =
    (if j mod 2 = k mod 2 then f (get_bank banks k) else get_bank banks j)"
  by (simp add: get_bank_def apply_bank_def bank_slot_def nth_list_update)

text \<open>The next read goes to the other bank.\<close>

lemma seq_block_next:
  "get_bank (fst (seq_read K cap i content (Suc (Suc r)))) r = seq_block K cap i content r"
proof -
  have "r mod 2 \<noteq> Suc r mod 2" by presburger
  then show ?thesis
    unfolding seq_block_def seq_read.simps(2) [of K cap i content "Suc r"]
    by (simp add: split_beta get_apply_bank length_seq_banks del: seq_read.simps)
qed

section \<open>What a thread has done\<close>

definition pending_jobs :: "nat \<Rightarrow> nat \<Rightarrow> nat \<Rightarrow> ece_job list" where
  "pending_jobs cap d sent = map (\<lambda>m. work_job (m * cap) cap False) [d..<sent]"

text \<open>
  Reader \<open>i\<close> with its file, when \<open>sent\<close> jobs were sent to it: it has not yet opened the file, or has
  done its first \<open>rd_first_bank\<close> jobs, like the program without threads, and has the others before it.
\<close>

definition rd_inv :: "ece_os \<Rightarrow> nat \<Rightarrow> nat \<Rightarrow> string \<Rightarrow> byte list \<Rightarrow> bool \<Rightarrow> nat \<Rightarrow> ece_reader \<Rightarrow> bool" where
  "rd_inv K cap i name content opened sent rd \<longleftrightarrow> (
     let d = rd_first_bank rd;
         done = (\<lambda>k. rd_banks rd = fst (seq_read K cap i content k) \<and> rd_file rd = Some (snd (seq_read K cap i content k)))
     in (case rd_at rd of
       At_recv \<Rightarrow>
         rd_file rd = None \<and> d = 0 \<and> rd_banks rd = ece_buffers_new cap \<and> (opened \<or> sent = 0) \<and>
           rd_queue rd = (if opened then [open_job name] else []) @ pending_jobs cap 0 sent \<or>
         opened \<and> done d \<and> d \<le> sent \<and> rd_queue rd = pending_jobs cap d sent
     | At_read r \<Rightarrow> opened \<and> done d \<and> d < sent \<and> rd_queue rd = pending_jobs cap (Suc d) sent
     | At_ack r \<Rightarrow> opened \<and> done (Suc d) \<and> d < sent \<and> rd_queue rd = pending_jobs cap (Suc d) sent
     | _ \<Rightarrow> False))"

lemma pending_jobs_Cons: "d < sent \<Longrightarrow> pending_jobs cap d sent = work_job (d * cap) cap False # pending_jobs cap (Suc d) sent"
  by (simp add: pending_jobs_def upt_conv_Cons)

lemma pending_jobs_empty [simp]: "pending_jobs cap d d = []"
  by (simp add: pending_jobs_def)

lemma rd_inv_new: "rd_inv K cap i name content False 0 (ece_reader_new cap)"
  by (simp add: rd_inv_def ece_reader_new_def)

lemma rd_inv_open:
  "rd_inv K cap i name content False 0 rd \<Longrightarrow>
   rd_inv K cap i name content True 0 (rd\<lparr> rd_queue := rd_queue rd @ [open_job name] \<rparr>)"
  by (auto simp: rd_inv_def Let_def split: reader_at.splits)

lemma rd_inv_send:
  "rd_inv K cap i name content True sent rd \<Longrightarrow>
   rd_inv K cap i name content True (Suc sent) (rd\<lparr> rd_queue := rd_queue rd @ [work_job (sent * cap) cap False] \<rparr>)"
  by (auto simp: rd_inv_def Let_def pending_jobs_def split: reader_at.splits)

lemma rd_inv_le: "rd_inv K cap i name content opened sent rd \<Longrightarrow> rd_first_bank rd \<le> sent"
  by (auto simp: rd_inv_def Let_def split: reader_at.splits)

lemma rd_inv_step:
  assumes inv: "rd_inv K cap i name content opened sent rd" and step: "reader_step K i rd = Some (rd', acks, lines)"
    and os: "os_open K name = Inr content" "0 < cap"
  shows "rd_inv K cap i name content opened sent rd' \<and> rd_first_bank rd' = rd_first_bank rd + length acks"
proof (cases "rd_at rd")
  case At_recv
  then obtain r q where q: "rd_queue rd = r # q" using step by (auto simp: reader_step_def split: list.splits)
  show ?thesis
  proof (cases "rd_file rd = None")
    case True
    then have "r = open_job name" "q = pending_jobs cap 0 sent" "opened" "rd_first_bank rd = 0"
      "rd_banks rd = ece_buffers_new cap"
      using inv At_recv q by (auto simp: rd_inv_def Let_def split: if_splits)
    then show ?thesis
      using step os At_recv q by (auto simp: reader_step_def rd_inv_def open_job_def Let_def)
  next
    case False
    then have i: "opened" "rd_first_bank rd < sent" "r = work_job (rd_first_bank rd * cap) cap False"
      "q = pending_jobs cap (Suc (rd_first_bank rd)) sent"
      "rd_banks rd = fst (seq_read K cap i content (rd_first_bank rd))"
      "rd_file rd = Some (snd (seq_read K cap i content (rd_first_bank rd)))"
      using inv At_recv q by (auto simp: rd_inv_def Let_def pending_jobs_def upt_eq_Cons_conv split: if_splits)
    then show ?thesis
      using step os At_recv q by (auto simp: reader_step_def rd_inv_def work_job_def Let_def)
  qed
next
  case (At_read r)
  then show ?thesis
    using inv step by (auto simp: reader_step_def rd_inv_def Let_def split_beta split: option.splits)
next
  case (At_ack r)
  then show ?thesis using inv step by (auto simp: reader_step_def rd_inv_def Let_def)
qed (use inv in \<open>auto simp: rd_inv_def\<close>)

text \<open>A thread with a job left can go on.\<close>

lemma rd_inv_progress:
  assumes inv: "rd_inv K cap i name content True sent rd" "rd_first_bank rd < sent" "os_open K name = Inr content"
  shows "reader_step K i rd \<noteq> None"
  using assms by (auto simp: rd_inv_def reader_step_def pending_jobs_Cons open_job_def work_job_def Let_def split_beta
    split: reader_at.splits option.splits)

section \<open>What the worker has done\<close>

text \<open>
  A run: the operating system, the capacity, the names of the files and their contents. The round \<open>r\<close>
  the worker is in counts the completed calls of \<open>process_writer\<close>.
\<close>

definition jobs_sent :: "work_at \<Rightarrow> nat \<Rightarrow> nat \<Rightarrow> nat" where
  "jobs_sent at r i = (case at of
     Opening n fs \<Rightarrow> 0
   | Sending first n \<Rightarrow> (if first then 0 else r + 1) + (if i < n then 1 else 0)
   | Waiting k \<Rightarrow> r + 1
   | Writing n \<Rightarrow> r + 2
   | _ \<Rightarrow> r + 1)"

definition opened_before :: "work_at \<Rightarrow> nat \<Rightarrow> bool" where
  "opened_before at i = (case at of Opening n fs \<Rightarrow> i < n | _ \<Rightarrow> True)"

definition acks_received :: "nat \<Rightarrow> work_at \<Rightarrow> nat \<Rightarrow> nat" where
  "acks_received nr at r = (case at of
     Opening n fs \<Rightarrow> 0
   | Sending first n \<Rightarrow> if first then 0 else (r + 1) * nr
   | Waiting k \<Rightarrow> r * nr + k
   | Writing n \<Rightarrow> (r + 1) * nr
   | _ \<Rightarrow> r * nr)"

definition jobs_done :: "work_at \<Rightarrow> nat \<Rightarrow> nat" where
  "jobs_done at r = (case at of
     Opening n fs \<Rightarrow> 0
   | Sending first n \<Rightarrow> if first then 0 else r + 1
   | Writing n \<Rightarrow> r + 1
   | _ \<Rightarrow> r)"

definition at_inv :: "ece_os \<Rightarrow> nat \<Rightarrow> string list \<Rightarrow> byte list list \<Rightarrow> nat \<Rightarrow> ece_worker \<Rightarrow> bool" where
  "at_inv K cap fs contents r w \<longleftrightarrow> (case ew_at w of
     Opening n fs' \<Rightarrow> fs' = fs \<and> n \<le> length contents \<and> r = 0 \<and> ew_offset w = 0
   | Sending first n \<Rightarrow> n \<le> length contents \<and> (if first then r = 0 \<and> ew_offset w = 0 else ew_offset w = (r + 1) * cap)
   | Waiting k \<Rightarrow> k < length contents \<and> ew_offset w = (r + 1) * cap
   | Writing n \<Rightarrow> n \<le> length contents \<and> ew_offset w = (r + 2) * cap \<and>
       (0 < n \<longrightarrow> ew_len w = eb_len (seq_block K cap (n - 1) (contents ! (n - 1)) r))
   | Idle \<Rightarrow> 0 < r \<and> seq_len K cap contents (r - 1) < cap
   | _ \<Rightarrow> False)"

definition out_inv :: "ece_os \<Rightarrow> nat \<Rightarrow> byte list list \<Rightarrow> nat \<Rightarrow> ece_worker \<Rightarrow> bool" where
  "out_inv K cap contents r w \<longleftrightarrow>
     worker_lines (ew_out w) = seq_out K cap contents r @ (case ew_at w of Writing n \<Rightarrow> take n (seq_round K cap contents r) | _ \<Rightarrow> []) \<and>
     (\<forall>r'. (if ew_at w = Idle then Suc r' < r else r' < r) \<longrightarrow> cap \<le> seq_len K cap contents r')"

definition ew_inv :: "ece_os \<Rightarrow> nat \<Rightarrow> string list \<Rightarrow> byte list list \<Rightarrow> nat \<Rightarrow> ece_worker \<Rightarrow> bool" where
  "ew_inv K cap fs contents r w \<longleftrightarrow>
     nrs_readers w = length contents \<and> ew_capacity w = cap \<and> (ew_at w \<noteq> Idle \<longrightarrow> ew_bank_read w = r mod 2) \<and>
     at_inv K cap fs contents r w \<and> out_inv K cap contents r w \<and>
     (\<forall>i<length contents. rd_inv K cap i (fs ! i) (contents ! i) (opened_before (ew_at w) i) (jobs_sent (ew_at w) r i) (ew_readers w ! i) \<and>
        jobs_done (ew_at w) r \<le> rd_first_bank (ew_readers w ! i)) \<and>
     length (ew_listener w) + acks_received (length contents) (ew_at w) r = sum_list (map rd_first_bank (ew_readers w))"

text \<open>The files of a run.\<close>

definition files_ok :: "ece_os \<Rightarrow> nat \<Rightarrow> string list \<Rightarrow> byte list list \<Rightarrow> bool" where
  "files_ok K cap fs contents \<longleftrightarrow> 0 < cap \<and> contents \<noteq> [] \<and> length contents \<le> length fs \<and>
     (\<forall>i<length contents. os_open K (fs ! i) = Inr (contents ! i))"

lemma files_okD:
  "files_ok K cap fs contents \<Longrightarrow> 0 < cap" "files_ok K cap fs contents \<Longrightarrow> 0 < length contents"
  "files_ok K cap fs contents \<Longrightarrow> i < length contents \<Longrightarrow> os_open K (fs ! i) = Inr (contents ! i)"
  "files_ok K cap fs contents \<Longrightarrow> length contents \<le> length fs"
  by (simp_all add: files_ok_def)

lemma ew_inv_start:
  assumes "files_ok K cap fs contents"
  shows "ew_inv K cap fs contents 0 (work fs (ece_worker_new (length contents) cap))"
  using assms
  by (simp add: ew_inv_def work_def ece_worker_new_def nrs_readers_def at_inv_def out_inv_def opened_before_def
    jobs_sent_def jobs_done_def acks_received_def seq_out_def rd_inv_new sum_list_replicate map_replicate
    ece_reader_new_def [of cap, THEN arg_cong [where f = rd_first_bank]])

text \<open>A step of a thread.\<close>

lemma ew_inv_reader:
  assumes files: "files_ok K cap fs contents" and inv: "ew_inv K cap fs contents r w"
    and i: "i < nrs_readers w" and step: "reader_step K i (ew_readers w ! i) = Some (rd, acks, lines)"
  shows "ew_inv K cap fs contents r (w\<lparr> ew_readers := (ew_readers w)[i := rd], ew_listener := ew_listener w @ acks,
    ew_out := ew_out w @ lines \<rparr>)"
proof -
  let ?at = "ew_at w"
  have n: "nrs_readers w = length contents" "i < length contents" "i < length (ew_readers w)"
    using inv i by (simp_all add: ew_inv_def nrs_readers_def)
  have "rd_inv K cap i (fs ! i) (contents ! i) (opened_before ?at i) (jobs_sent ?at r i) (ew_readers w ! i)"
    using inv n(2) by (simp add: ew_inv_def)
  from rd_inv_step [OF this step files_okD(3) [OF files n(2)] files_okD(1) [OF files]]
  have rd: "rd_inv K cap i (fs ! i) (contents ! i) (opened_before ?at i) (jobs_sent ?at r i) rd"
    "rd_first_bank rd = rd_first_bank (ew_readers w ! i) + length acks" by auto
  have "sum_list (map rd_first_bank ((ew_readers w)[i := rd])) =
      sum_list (map rd_first_bank (ew_readers w)) + length acks"
    using sum_list_map_update [OF n(3), of rd_first_bank rd] rd(2) by simp
  moreover have "worker_lines lines = []" using reader_step_lines [OF step] by blast
  then have "at_inv K cap fs contents r (w\<lparr> ew_readers := x, ew_listener := y, ew_out := ew_out w @ lines \<rparr>) = at_inv K cap fs contents r w"
    "out_inv K cap contents r (w\<lparr> ew_readers := x, ew_listener := y, ew_out := ew_out w @ lines \<rparr>) = out_inv K cap contents r w" for x y
    by (cases "ew_at w"; simp add: at_inv_def out_inv_def)+
  ultimately show ?thesis
    using inv rd n by (auto simp: ew_inv_def nrs_readers_def nth_list_update)
qed

text \<open>A message of the worker.\<close>

lemma send_frame [simp]:
  "nrs_readers (send n j w) = nrs_readers w" "length (ew_readers (send n j w)) = length (ew_readers w)" "ew_capacity (send n j w) = ew_capacity w"
  "ew_listener (send n j w) = ew_listener w" "ew_offset (send n j w) = ew_offset w"
  "ew_bank_read (send n j w) = ew_bank_read w" "ew_len (send n j w) = ew_len w" "ew_out (send n j w) = ew_out w"
  by (simp_all add: send_def nrs_readers_def)

lemma send_readers:
  "ew_readers (send n j w) = (ew_readers w)[n := (ew_readers w ! n)\<lparr> rd_queue := rd_queue (ew_readers w ! n) @ [j] \<rparr>]"
  by (simp add: send_def)

lemma send_done: "n < nrs_readers w \<Longrightarrow> sum_list (map rd_first_bank (ew_readers (send n j w))) = sum_list (map rd_first_bank (ew_readers w))"
  using sum_list_map_update [of n "ew_readers w" rd_first_bank "(ew_readers w ! n)\<lparr> rd_queue := rd_queue (ew_readers w ! n) @ [j] \<rparr>"]
  by (simp add: send_readers nrs_readers_def)

lemma ew_inv_open_files:
  assumes files: "files_ok K cap fs contents" and inv: "ew_inv K cap fs contents r w" and at: "ew_at w = Opening n fs'"
  shows "ew_inv K cap fs contents r (open_files n fs' w)"
proof -
  have w: "nrs_readers w = length contents" "length contents \<le> length fs" "fs' = fs" "n \<le> length contents" "r = 0"
    "\<forall>i<length contents. rd_inv K cap i (fs ! i) (contents ! i) (i < n) 0 (ew_readers w ! i)"
    using inv at files_okD(4) [OF files] by (simp_all add: ew_inv_def at_inv_def opened_before_def jobs_sent_def)
  show ?thesis
  proof (cases "n < length contents")
    case True
    have "rd_inv K cap i (fs ! i) (contents ! i) (i < Suc n) 0 (ew_readers (send n (open_job (fs ! n)) w) ! i)"
      if "i < length contents" for i
      using w that True rd_inv_open [of K cap n "fs ! n" "contents ! n" "ew_readers w ! n"]
      by (cases "i = n") (auto simp: send_readers nth_list_update nrs_readers_def less_Suc_eq)
    then show ?thesis
      using inv at w True
      by (auto simp: ew_inv_def at_inv_def out_inv_def open_files_def opened_before_def jobs_sent_def jobs_done_def
        acks_received_def send_done [unfolded nrs_readers_def] nrs_readers_def)
  next
    case False
    then have "n = length contents" using w(4) by simp
    then show ?thesis
      using inv at w
      by (auto simp: ew_inv_def at_inv_def out_inv_def open_files_def opened_before_def jobs_sent_def jobs_done_def
        acks_received_def nrs_readers_def)
  qed
qed

lemma ew_inv_send_work:
  assumes files: "files_ok K cap fs contents" and inv: "ew_inv K cap fs contents r w" and at: "ew_at w = Sending first n"
  shows "ew_inv K cap fs contents r (send_work first n w)"
proof -
  define s where "s = (if first then 0 else r + 1)"
  have w: "nrs_readers w = length contents" "ew_capacity w = cap" "n \<le> length contents" "ew_offset w = s * cap"
    "first \<longrightarrow> r = 0"
    "\<forall>i<length contents. rd_inv K cap i (fs ! i) (contents ! i) True (s + (if i < n then 1 else 0)) (ew_readers w ! i)"
    using inv at by (simp_all add: s_def ew_inv_def at_inv_def opened_before_def jobs_sent_def split: if_splits)
  show ?thesis
  proof (cases "n < length contents")
    case True
    let ?j = "work_job (ew_offset w) cap False"
    have "rd_inv K cap i (fs ! i) (contents ! i) True (s + (if i < Suc n then 1 else 0)) (ew_readers (send n ?j w) ! i)"
      if "i < length contents" for i
    proof (cases "i = n")
      case True
      have "rd_inv K cap n (fs ! n) (contents ! n) True s (ew_readers w ! n)"
        using w(6) \<open>n < length contents\<close> by force
      from rd_inv_send [OF this] show ?thesis
        using w(1,4) True \<open>n < length contents\<close> by (simp add: send_readers nrs_readers_def)
    next
      case False
      then show ?thesis
        using w(1,6) that by (simp add: send_readers nth_list_update nrs_readers_def less_Suc_eq)
    qed
    moreover have "jobs_done (Sending first n) r \<le> rd_first_bank (ew_readers (send n ?j w) ! i)" if "i < length contents" for i
      using inv at that by (cases "i = n") (auto simp: ew_inv_def send_readers nth_list_update nrs_readers_def)
    ultimately show ?thesis
      using inv at w True send_done [of n w ?j]
      by (auto simp: ew_inv_def at_inv_def out_inv_def send_work_def opened_before_def jobs_sent_def jobs_done_def
        acks_received_def nrs_readers_def s_def)
  next
    case False
    then have "n = length contents" using w(3) by simp
    then show ?thesis
      using inv at w files_okD(2) [OF files]
      by (auto simp: ew_inv_def at_inv_def out_inv_def send_work_def opened_before_def jobs_sent_def jobs_done_def
        acks_received_def nrs_readers_def s_def split: if_splits)
  qed
qed

text \<open>
  The last acknowledgement of a round: every thread has done every job, because none can have done
  more than it was sent.
\<close>

lemma sum_list_all_eq:
  fixes f :: "'a \<Rightarrow> nat"
  assumes "\<forall>i<length xs. f (xs ! i) \<le> b" "length xs * b \<le> sum_list (map f xs)"
  shows "sum_list (map f xs) = length xs * b \<and> (\<forall>i<length xs. f (xs ! i) = b)"
  using assms
proof (induction xs)
  case (Cons x xs)
  have le: "f x \<le> b" "\<forall>i<length xs. f (xs ! i) \<le> b" using Cons.prems(1) by force+
  have "sum_list (map f xs) \<le> length xs * b"
    using sum_list_mono [of xs f "\<lambda>_. b"] le(2) by (auto simp: in_set_conv_nth sum_list_triv)
  then have "f x = b" "length xs * b \<le> sum_list (map f xs)" using le(1) Cons.prems(2) by simp_all
  then show ?case using Cons.IH le by (auto simp: nth_Cons split: nat.splits)
qed simp

lemma ew_inv_wait_readers:
  assumes files: "files_ok K cap fs contents" and inv: "ew_inv K cap fs contents r w" and at: "ew_at w = Waiting k"
    and step: "wait_readers k w = Some w'"
  shows "ew_inv K cap fs contents r w'"
proof -
  have nr: "0 < length contents" by (rule files_okD(2) [OF files])
  have w: "nrs_readers w = length contents" "k < length contents"
    "length (ew_listener w) + (r * length contents + k) = sum_list (map rd_first_bank (ew_readers w))"
    "\<forall>i<length contents. rd_inv K cap i (fs ! i) (contents ! i) True (r + 1) (ew_readers w ! i)"
    using inv at by (simp_all add: ew_inv_def at_inv_def opened_before_def jobs_sent_def acks_received_def)
  obtain a l where l: "ew_listener w = a # l"
    and w': "w' = w\<lparr> ew_listener := l, ew_at := if Suc k = length contents then Sending False 0 else Waiting (Suc k) \<rparr>"
    using step nr w(1) by (auto simp: wait_readers_def split: list.splits)
  show ?thesis
  proof (cases "Suc k = length contents")
    case True
    have "\<forall>i<length (ew_readers w). rd_first_bank (ew_readers w ! i) \<le> r + 1"
      using w(1,4) rd_inv_le by (fastforce simp: nrs_readers_def)
    moreover have "length (ew_readers w) * (r + 1) \<le> sum_list (map rd_first_bank (ew_readers w))"
      using w(1,3) l True by (simp add: nrs_readers_def algebra_simps)
    ultimately have "sum_list (map rd_first_bank (ew_readers w)) = length (ew_readers w) * (r + 1) \<and>
        (\<forall>i<length (ew_readers w). rd_first_bank (ew_readers w ! i) = r + 1)"
      by (rule sum_list_all_eq)
    moreover from this have "length (ew_listener w) = 1"
      using w(1,3) True by (simp add: nrs_readers_def algebra_simps)
    then have "l = []" using l by simp
    ultimately show ?thesis
      using inv at l True w(1) w'
      by (auto simp: ew_inv_def at_inv_def out_inv_def opened_before_def jobs_sent_def jobs_done_def acks_received_def
        nrs_readers_def algebra_simps)
  next
    case False
    then show ?thesis
      using inv at l w(1,2) w'
      by (auto simp: ew_inv_def at_inv_def out_inv_def opened_before_def jobs_sent_def jobs_done_def acks_received_def
        nrs_readers_def)
  qed
qed

text \<open>The bank the worker prints is not the one the thread is filling.\<close>

lemma rd_inv_block:
  assumes "rd_inv K cap i name content True (r + 2) rd" "r + 1 \<le> rd_first_bank rd"
  shows "get_bank (rd_banks rd) (r mod 2) = seq_block K cap i content r"
proof -
  have "get_bank banks (r mod 2) = get_bank banks r" for banks by (simp add: get_bank_def bank_slot_def)
  moreover have "get_bank (fst (seq_read K cap i content d)) r = seq_block K cap i content r"
    if "r + 1 \<le> d" "d \<le> r + 2" for d
  proof -
    have "d = Suc r \<or> d = Suc (Suc r)" using that by auto
    then show ?thesis using seq_block_next by (auto simp: seq_block_def simp del: seq_read.simps)
  qed
  moreover have "\<exists>d. r + 1 \<le> d \<and> d \<le> r + 2 \<and> rd_banks rd = fst (seq_read K cap i content d)"
  proof (cases "rd_at rd")
    case At_recv
    then show ?thesis using assms by (intro exI [of _ "rd_first_bank rd"]) (auto simp: rd_inv_def Let_def)
  next
    case (At_read j)
    then show ?thesis using assms by (intro exI [of _ "rd_first_bank rd"]) (auto simp: rd_inv_def Let_def)
  next
    case (At_ack j)
    then show ?thesis
      using assms by (intro exI [of _ "Suc (rd_first_bank rd)"]) (auto simp: rd_inv_def Let_def simp del: seq_read.simps)
  qed (use assms(1) in \<open>simp_all add: rd_inv_def\<close>)
  ultimately show ?thesis by auto
qed

lemma length_seq_round [simp]: "length (seq_round K cap contents r) = length contents"
  by (simp add: seq_round_def)

lemma seq_out_Suc: "seq_out K cap contents (Suc r) = seq_out K cap contents r @ seq_round K cap contents r"
  by (simp add: seq_out_def)

lemma ew_inv_process_writer:
  assumes files: "files_ok K cap fs contents" and inv: "ew_inv K cap fs contents r w" and at: "ew_at w = Writing n"
  shows "ew_inv K cap fs contents (if n < length contents then r else Suc r) (process_writer n w)"
proof -
  have w: "nrs_readers w = length contents" "ew_capacity w = cap" "ew_bank_read w = r mod 2" "n \<le> length contents"
    "ew_offset w = (r + 2) * cap" "0 < n \<longrightarrow> ew_len w = eb_len (seq_block K cap (n - 1) (contents ! (n - 1)) r)"
    "worker_lines (ew_out w) = seq_out K cap contents r @ take n (seq_round K cap contents r)"
    "\<forall>r'<r. cap \<le> seq_len K cap contents r'"
    using inv at by (simp_all add: ew_inv_def at_inv_def out_inv_def)
  have rd: "rd_inv K cap i (fs ! i) (contents ! i) True (r + 2) (ew_readers w ! i)"
    "r + 1 \<le> rd_first_bank (ew_readers w ! i)" if "i < length contents" for i
    using inv at that by (auto simp: ew_inv_def opened_before_def jobs_sent_def jobs_done_def)
  have acks: "length (ew_listener w) + (r + 1) * length contents = sum_list (map rd_first_bank (ew_readers w))"
    using inv at by (simp add: ew_inv_def acks_received_def)
  show ?thesis
  proof (cases "n < length contents")
    case True
    have b: "get_bank (rd_banks (ew_readers w ! n)) (r mod 2) = seq_block K cap n (contents ! n) r"
      by (rule rd_inv_block [OF rd [OF True]])
    have "take (Suc n) (seq_round K cap contents r) =
        take n (seq_round K cap contents r) @ [block_text (eb_buffer (seq_block K cap n (contents ! n) r))]"
      using True by (simp add: take_Suc_conv_app_nth) (simp add: seq_round_def)
    then show ?thesis
      using True w rd acks b
      by (simp add: process_writer_def ew_inv_def at_inv_def out_inv_def Let_def opened_before_def jobs_sent_def
        jobs_done_def acks_received_def nrs_readers_def)
  next
    case False
    then have n: "n = length contents" using w(4) by simp
    moreover have "0 < length contents" by (rule files_okD(2) [OF files])
    ultimately have len: "ew_len w = seq_len K cap contents r"
      using w(6) by (simp add: seq_len_def last_conv_nth)
    have out: "worker_lines (ew_out w) = seq_out K cap contents (Suc r)" using w(7) n by (simp add: seq_out_Suc)
    have more: "cap \<le> seq_len K cap contents r'" if "cap \<le> seq_len K cap contents r" "r' < Suc r" for r'
      using w(8) that by (cases "r' = r") auto
    have next_bank: "Suc (r mod 2) mod 2 = Suc r mod 2" by presburger
    show ?thesis
      using n w(1,2,3,5,8) rd acks len out more next_bank \<open>0 < length contents\<close>
      by (auto simp: process_writer_def ew_inv_def at_inv_def out_inv_def opened_before_def jobs_sent_def
        jobs_done_def acks_received_def nrs_readers_def Suc_le_eq intro: less_imp_le)
  qed
qed

definition next_round :: "nat \<Rightarrow> ece_worker \<Rightarrow> nat \<Rightarrow> nat" where
  "next_round nr w r = (case ew_at w of Writing n \<Rightarrow> if n < nr then r else Suc r | _ \<Rightarrow> r)"

lemma ew_inv_main:
  assumes files: "files_ok K cap fs contents" and inv: "ew_inv K cap fs contents r w" and step: "main_step w = Some w'"
  shows "ew_inv K cap fs contents (next_round (length contents) w r) w'"
proof (cases "ew_at w")
  case (Opening n fs')
  then show ?thesis using ew_inv_open_files [OF files inv] step by (auto simp: main_step_def next_round_def)
next
  case (Sending first n)
  then show ?thesis using ew_inv_send_work [OF files inv] step by (auto simp: main_step_def next_round_def)
next
  case (Waiting k)
  then show ?thesis using ew_inv_wait_readers [OF files inv] step by (auto simp: main_step_def next_round_def)
next
  case (Writing n)
  then show ?thesis
    using ew_inv_process_writer [OF files inv Writing] step by (simp add: main_step_def next_round_def split: if_splits)
qed (use inv step in \<open>auto simp: ew_inv_def at_inv_def main_step_def\<close>)

section \<open>Every run ends\<close>

text \<open>
  At most \<open>4\<close> steps of a thread for each message before it, and, with \<open>R\<close> rounds, a fixed number of
  steps of the worker.
\<close>

definition reader_left :: "ece_reader \<Rightarrow> nat" where
  "reader_left rd = 4 * length (rd_queue rd) + (case rd_at rd of At_read r \<Rightarrow> 3 | At_ack r \<Rightarrow> 2 | _ \<Rightarrow> 0)"

definition round_steps :: "nat \<Rightarrow> nat" where
  "round_steps nr = 3 * nr + 3"

definition main_left :: "nat \<Rightarrow> nat \<Rightarrow> nat \<Rightarrow> work_at \<Rightarrow> nat" where
  "main_left R nr r at = (case at of
     Opening n fs \<Rightarrow> R * round_steps nr + 3 + nr + (nr - n)
   | Sending first n \<Rightarrow> if first then R * round_steps nr + 1 + (nr - n) else (R - r) * round_steps nr - nr - n
   | Waiting k \<Rightarrow> (R - r) * round_steps nr - k
   | Writing n \<Rightarrow> (R - r) * round_steps nr - 2 * nr - 1 - n
   | _ \<Rightarrow> 0)"

definition steps_left :: "nat \<Rightarrow> nat \<Rightarrow> nat \<Rightarrow> ece_worker \<Rightarrow> nat" where
  "steps_left R nr r w = 5 * main_left R nr r (ew_at w) + sum_list (map reader_left (ew_readers w))"

lemma reader_step_left: "reader_step K i rd = Some (rd', acks, lines) \<Longrightarrow> reader_left rd' < reader_left rd"
  by (auto simp: reader_step_def reader_left_def Let_def split_beta
    split: reader_at.split_asm list.split_asm option.split_asm if_split_asm sum.split_asm)

lemma send_left:
  "n < nrs_readers w \<Longrightarrow>
   sum_list (map reader_left (ew_readers (send n j w))) = sum_list (map reader_left (ew_readers w)) + 4"
  using sum_list_map_update [of n "ew_readers w" reader_left "(ew_readers w ! n)\<lparr> rd_queue := rd_queue (ew_readers w ! n) @ [j] \<rparr>"]
  by (simp add: send_readers nrs_readers_def reader_left_def split: reader_at.splits)

lemma rounds_left: "r < R \<Longrightarrow> round_steps nr \<le> (R - r) * round_steps nr \<and>
    (R - r) * round_steps nr = round_steps nr + (R - Suc r) * round_steps nr"
  by (metis Suc_diff_Suc le_add1 mult_Suc)

lemma main_step_left:
  assumes inv: "ew_inv K cap fs contents r w" and step: "main_step w = Some w'"
    and R: "seq_len K cap contents (R - 1) < cap" "0 < R" and nr: "0 < length contents"
  shows "steps_left R (length contents) (next_round (length contents) w r) w' < steps_left R (length contents) r w"
proof -
  have w: "nrs_readers w = length contents" using inv by (simp add: ew_inv_def)
  have r: "r < R" if "ew_at w \<noteq> Idle"
  proof (rule ccontr)
    assume "\<not> r < R"
    then have "R - 1 < r" using R(2) by simp
    then show False using inv that R(1) by (force simp: ew_inv_def out_inv_def)
  qed
  show ?thesis
  proof (cases "ew_at w")
    case (Opening n fs')
    then show ?thesis
      using inv step w send_left [of n w]
      by (auto simp: ew_inv_def at_inv_def main_step_def open_files_def steps_left_def main_left_def next_round_def)
  next
    case (Sending first n)
    then have n: "n \<le> length contents" using inv by (simp add: ew_inv_def at_inv_def)
    show ?thesis
      using inv step w n Sending send_left [of n w] r rounds_left [of r R "length contents"]
      by (auto simp: ew_inv_def at_inv_def main_step_def send_work_def steps_left_def main_left_def next_round_def
        round_steps_def)
  next
    case (Waiting k)
    then show ?thesis
      using inv step w nr r rounds_left [of r R "length contents"]
      by (auto simp: ew_inv_def at_inv_def main_step_def wait_readers_def steps_left_def main_left_def next_round_def
        round_steps_def split: list.split_asm)
  next
    case (Writing n)
    define X Y N where "X = (R - r) * round_steps (length contents)"
      and "Y = (R - Suc r) * round_steps (length contents)" and "N = length contents"
    have XY: "X = 3 * N + 3 + Y" and n: "n \<le> N"
      using rounds_left [of r R N] r inv Writing
      by (simp_all add: X_def Y_def N_def round_steps_def ew_inv_def at_inv_def)
    have w': "w' = process_writer n w" using step Writing by (simp add: main_step_def)
    have "main_left R N (next_round N w r) (ew_at w') < main_left R N r (ew_at w)"
    proof (cases "n < N")
      case True
      then show ?thesis
        using w Writing XY n unfolding w'
        by (simp add: process_writer_def next_round_def main_left_def Let_def N_def [symmetric] X_def [symmetric, folded N_def])
    next
      case False
      then have "ew_at w' \<in> {Idle, Waiting 0}" "next_round N w r = Suc r"
        using w Writing by (simp_all add: w' process_writer_def next_round_def N_def)
      then show ?thesis
        using Writing XY n by (auto simp: main_left_def X_def [symmetric, folded N_def] Y_def [symmetric, folded N_def])
    qed
    moreover have "ew_readers w' = ew_readers w" by (simp add: w' process_writer_def Let_def)
    ultimately show ?thesis by (simp add: steps_left_def N_def)
  qed (use inv step in \<open>auto simp: ew_inv_def at_inv_def main_step_def\<close>)
qed

lemma ew_inv_step:
  assumes files: "files_ok K cap fs contents" and inv: "ew_inv K cap fs contents r w" and step: "ece_step K w w'"
  shows "\<exists>r'. ew_inv K cap fs contents r' w' \<and> (\<forall>R. 0 < R \<longrightarrow> seq_len K cap contents (R - 1) < cap \<longrightarrow>
    steps_left R (length contents) r' w' < steps_left R (length contents) r w)"
  using step
proof cases
  case Main
  then show ?thesis
    using ew_inv_main [OF files inv] main_step_left [OF inv] files_okD(2) [OF files] by blast
next
  case (Reader i rd acks lines)
  then have i: "i < length (ew_readers w)" by (simp add: nrs_readers_def)
  have "steps_left R (length contents) r w' < steps_left R (length contents) r w" for R
    using sum_list_map_update [OF i, of reader_left rd] reader_step_left [OF Reader(3)] Reader(1) by (simp add: steps_left_def)
  then show ?thesis using ew_inv_reader [OF files inv Reader(2,3)] Reader(1) by blast
qed

lemma ew_inv_run:
  assumes files: "files_ok K cap fs contents"
    and run: "(ece_step K ^^ n) (work fs (ece_worker_new (length contents) cap)) w"
  shows "\<exists>r. ew_inv K cap fs contents r w \<and> (\<forall>R. 0 < R \<longrightarrow> seq_len K cap contents (R - 1) < cap \<longrightarrow>
    n + steps_left R (length contents) r w \<le> 5 * (R * round_steps (length contents) + 3 + 2 * length contents))"
  using run
proof (induction n arbitrary: w)
  case 0
  then have w: "w = work fs (ece_worker_new (length contents) cap)" by simp
  have "steps_left R (length contents) 0 w = 5 * (R * round_steps (length contents) + 3 + 2 * length contents)" for R
    by (simp add: w steps_left_def main_left_def work_def ece_worker_new_def sum_list_replicate map_replicate
      reader_left_def ece_reader_new_def)
  then show ?case using ew_inv_start [OF files] w by auto
next
  case (Suc n)
  then obtain w1 where w1: "(ece_step K ^^ n) (work fs (ece_worker_new (length contents) cap)) w1" "ece_step K w1 w" by auto
  obtain r where r: "ew_inv K cap fs contents r w1" and le: "\<And>R. 0 < R \<Longrightarrow> seq_len K cap contents (R - 1) < cap \<Longrightarrow>
      n + steps_left R (length contents) r w1 \<le> 5 * (R * round_steps (length contents) + 3 + 2 * length contents)"
    using Suc.IH [OF w1(1)] by blast
  obtain r' where r': "ew_inv K cap fs contents r' w" and less: "\<And>R. 0 < R \<Longrightarrow> seq_len K cap contents (R - 1) < cap \<Longrightarrow>
      steps_left R (length contents) r' w < steps_left R (length contents) r w1"
    using ew_inv_step [OF files r w1(2)] by blast
  have "Suc n + steps_left R (length contents) r' w \<le> 5 * (R * round_steps (length contents) + 3 + 2 * length contents)"
    if "0 < R" "seq_len K cap contents (R - 1) < cap" for R
    using le [OF that] less [OF that] by linarith
  then show ?case using r' by blast
qed

lemma ew_inv_reach:
  assumes "files_ok K cap fs contents" "(ece_step K)\<^sup>*\<^sup>* (work fs (ece_worker_new (length contents) cap)) w"
  shows "\<exists>r. ew_inv K cap fs contents r w"
  using assms ew_inv_run by (metis rtranclp_power)

text \<open>
  No thread is stuck: a worker that waits for an acknowledgement has sent more jobs than were done.
\<close>

lemma ew_inv_progress:
  assumes files: "files_ok K cap fs contents" and inv: "ew_inv K cap fs contents r w"
  shows "ew_at w = Idle \<or> (\<exists>w'. ece_step K w w')"
proof (cases "\<exists>k. ew_at w = Waiting k \<and> ew_listener w = []")
  case True
  then obtain k where k: "ew_at w = Waiting k" "ew_listener w = []" by blast
  then have w: "nrs_readers w = length contents" "k < length contents"
    "r * length contents + k = sum_list (map rd_first_bank (ew_readers w))"
    "\<forall>i<length contents. rd_inv K cap i (fs ! i) (contents ! i) True (r + 1) (ew_readers w ! i)"
    using inv by (simp_all add: ew_inv_def at_inv_def opened_before_def jobs_sent_def acks_received_def)
  have "\<exists>i<length contents. rd_first_bank (ew_readers w ! i) < r + 1"
  proof (rule ccontr)
    assume "\<not> ?thesis"
    then have "r + 1 \<le> rd_first_bank x" if "x \<in> set (ew_readers w)" for x
    proof -
      obtain i where "i < length contents" "x = ew_readers w ! i"
        using \<open>x \<in> set (ew_readers w)\<close> w(1) by (auto simp: in_set_conv_nth nrs_readers_def)
      then show ?thesis using \<open>\<not> (\<exists>i<length contents. rd_first_bank (ew_readers w ! i) < r + 1)\<close> by (meson not_less)
    qed
    then have "length (ew_readers w) * (r + 1) \<le> sum_list (map rd_first_bank (ew_readers w))"
      using sum_list_mono [of "ew_readers w" "\<lambda>_. r + 1" rd_first_bank] by (simp add: sum_list_triv)
    then show False using w(1,2,3) by (simp add: nrs_readers_def algebra_simps)
  qed
  then obtain i where i: "i < length contents" "rd_first_bank (ew_readers w ! i) < r + 1" by blast
  have "rd_inv K cap i (fs ! i) (contents ! i) True (r + 1) (ew_readers w ! i)" using w(4) i(1) by blast
  from rd_inv_progress [OF this i(2) files_okD(3) [OF files i(1)]]
  obtain rd acks lines where "reader_step K i (ew_readers w ! i) = Some (rd, acks, lines)"
    by (metis not_None_eq prod.exhaust)
  then show ?thesis using i(1) w(1) Reader [of i w K rd acks lines] by auto
next
  case False
  then have "ew_at w = Idle \<or> main_step w \<noteq> None"
    using inv by (auto simp: ew_inv_def at_inv_def main_step_def wait_readers_def split: work_at.splits list.splits)
  then show ?thesis using Main by blast
qed

section \<open>The lines the threads print\<close>

text \<open>
  In any run, whatever its files: each reader has printed the messages of its reads so far, in their
  order, and a message of a panic belongs to a thread that panicked.
\<close>

definition line_ok :: "work_at \<Rightarrow> ece_reader list \<Rightarrow> ece_line \<Rightarrow> bool" where
  "line_ok at rs l \<longleftrightarrow> (case l of
     Worker_line s \<Rightarrow> True
   | Reader_line i t \<Rightarrow> i < length rs
   | Panic_line None t \<Rightarrow> at = Main_panicked
   | Panic_line (Some i) t \<Rightarrow> i < length rs \<and> rd_at (rs ! i) = Thread_panicked)"

definition lines_inv :: "ece_os \<Rightarrow> ece_worker \<Rightarrow> bool" where
  "lines_inv K w \<longleftrightarrow>
     (\<forall>i<nrs_readers w. reader_lines i (ew_out w) = concat (map (read_lines K i) [0..<reads_done (ew_readers w ! i)])) \<and>
     (\<forall>l\<in>set (ew_out w). line_ok (ew_at w) (ew_readers w) l)"

lemma send_threads:
  "i < nrs_readers w \<Longrightarrow> reads_done (ew_readers (send n j w) ! i) = reads_done (ew_readers w ! i) \<and>
   rd_at (ew_readers (send n j w) ! i) = rd_at (ew_readers w ! i)"
  by (cases "i = n") (simp_all add: send_readers nrs_readers_def reads_done_def)

lemma main_step_lines:
  assumes "main_step w = Some w'"
  shows "nrs_readers w' = nrs_readers w \<and> ew_at w \<noteq> Main_panicked \<and>
    (\<forall>i<nrs_readers w. reads_done (ew_readers w' ! i) = reads_done (ew_readers w ! i) \<and>
       rd_at (ew_readers w' ! i) = rd_at (ew_readers w ! i)) \<and>
    (ew_out w' = ew_out w \<or> (\<exists>s. ew_out w' = ew_out w @ [Worker_line s]) \<or>
     (\<exists>t. ew_at w' = Main_panicked \<and> ew_out w' = ew_out w @ [Panic_line None t]))"
proof -
  have frame: "nrs_readers (w\<lparr> ew_at := x \<rparr>) = nrs_readers w" for w x by (simp add: nrs_readers_def)
  show ?thesis
    using assms send_threads
    by (cases "ew_at w")
      (auto simp: main_step_def open_files_def send_work_def wait_readers_def process_writer_def drop_send_def drop_join_def
        Let_def nrs_readers_def send_frame(2) [unfolded nrs_readers_def]
        split: if_split_asm list.split_asm reader_at.split_asm)
qed

lemma lines_inv_start: "lines_inv K (work fs (ece_worker_new nr cap))"
  by (simp add: lines_inv_def work_def ece_worker_new_def nrs_readers_def reads_done_def ece_reader_new_def)

lemma lines_inv_main:
  assumes "main_step w = Some w'" "lines_inv K w"
  shows "lines_inv K w'"
proof -
  note m = main_step_lines [OF assms(1)]
  have old: "\<forall>i<nrs_readers w'. reader_lines i (ew_out w) = concat (map (read_lines K i) [0..<reads_done (ew_readers w' ! i)])"
    using assms(2) m by (simp add: lines_inv_def)
  have "line_ok (ew_at w') (ew_readers w') l" if "line_ok (ew_at w) (ew_readers w) l" for l
    using that m by (auto simp: line_ok_def nrs_readers_def split: ece_line.splits option.splits)
  then have all: "\<forall>l\<in>set (ew_out w). line_ok (ew_at w') (ew_readers w') l"
    using assms(2) by (simp add: lines_inv_def)
  from m consider "ew_out w' = ew_out w" | s where "ew_out w' = ew_out w @ [Worker_line s]"
    | t where "ew_at w' = Main_panicked" "ew_out w' = ew_out w @ [Panic_line None t]" by blast
  then show ?thesis using old all unfolding lines_inv_def by cases (auto simp: line_ok_def)
qed

lemma lines_inv_reader:
  assumes step: "reader_step K j (ew_readers w ! j) = Some (rd, acks, lines)" and j: "j < nrs_readers w"
    and inv: "lines_inv K w"
  shows "lines_inv K (w\<lparr> ew_readers := (ew_readers w)[j := rd], ew_listener := ew_listener w @ acks, ew_out := ew_out w @ lines \<rparr>)"
    (is "lines_inv K ?w")
proof -
  let ?old = "ew_readers w ! j"
  have n: "nrs_readers ?w = nrs_readers w" "ew_readers ?w ! j = rd"
    "\<And>i. i \<noteq> j \<Longrightarrow> ew_readers ?w ! i = ew_readers w ! i"
    using j by (simp_all add: nrs_readers_def)
  note sl = reader_step_lines [OF step]
  have np: "rd_at ?old \<noteq> Thread_panicked" using step by (auto simp: reader_step_def)
  have kinds: "\<forall>l\<in>set lines. (\<exists>t. l = Reader_line j t) \<or> (\<exists>t. l = Panic_line (Some j) t \<and> rd_at rd = Thread_panicked)"
    using sl by (auto simp: read_lines_def split: if_split_asm sum.split_asm)
  have other: "reader_lines i lines = []" if "i \<noteq> j" for i
    using kinds that by (auto simp: reader_lines_def filter_empty_conv)
  have own: "reader_lines j (ew_out w @ lines) = concat (map (read_lines K j) [0..<reads_done rd])"
  proof (cases "\<exists>r. rd_at ?old = At_read r")
    case True
    then have "lines = read_lines K j (reads_done ?old)" "reads_done rd = Suc (reads_done ?old)"
      using sl by (auto simp: reads_done_def)
    moreover have "reader_lines j (read_lines K j k) = read_lines K j k" for k
      by (simp add: read_lines_def split: sum.split)
    ultimately show ?thesis using inv j by (simp add: lines_inv_def)
  next
    case False
    then have "reads_done rd = reads_done ?old" "reader_lines j lines = []"
      using sl by (auto split: if_split_asm)
    then show ?thesis using inv j by (simp add: lines_inv_def)
  qed
  have "reader_lines i (ew_out ?w) = concat (map (read_lines K i) [0..<reads_done (ew_readers ?w ! i)])" if "i < nrs_readers w" for i
    using inv that own other n(2,3) by (cases "i = j") (simp_all add: lines_inv_def)
  moreover have "line_ok (ew_at w) ((ew_readers w)[j := rd]) l" if "l \<in> set (ew_out w @ lines)" for l
  proof (cases "l \<in> set (ew_out w)")
    case True
    then have "line_ok (ew_at w) (ew_readers w) l" using inv by (simp add: lines_inv_def)
    then show ?thesis using np j by (auto simp: line_ok_def nth_list_update nrs_readers_def split: ece_line.splits option.splits)
  next
    case False
    then have "l \<in> set lines" using that by simp
    then consider t where "l = Reader_line j t" | t where "l = Panic_line (Some j) t" "rd_at rd = Thread_panicked"
      using kinds by blast
    then show ?thesis using j by cases (simp_all add: line_ok_def nrs_readers_def)
  qed
  ultimately show ?thesis unfolding lines_inv_def by (simp add: n(1))
qed

lemma lines_inv_step: "ece_step K w w' \<Longrightarrow> lines_inv K w \<Longrightarrow> lines_inv K w'"
  by (erule ece_stepE) (auto intro: lines_inv_main lines_inv_reader)

lemma lines_inv_run: "(ece_step K)\<^sup>*\<^sup>* w w' \<Longrightarrow> lines_inv K w \<Longrightarrow> lines_inv K w'"
  by (induction rule: rtranclp_induct) (auto intro: lines_inv_step)

lemma lines_inv_reader_line:
  assumes "lines_inv K w" "Reader_line i t \<in> set (ew_out w)"
  shows "i < length (ew_readers w) \<and> (\<exists>k. read_lines K i k = [Reader_line i t])"
proof -
  have i: "i < length (ew_readers w)" using assms by (auto simp: lines_inv_def line_ok_def)
  have "Reader_line i t \<in> set (reader_lines i (ew_out w))" using assms(2) by (simp add: reader_lines_def)
  then have "Reader_line i t \<in> set (concat (map (read_lines K i) [0..<reads_done (ew_readers w ! i)]))"
    using assms(1) i by (simp add: lines_inv_def nrs_readers_def)
  then obtain k where "Reader_line i t \<in> set (read_lines K i k)" by auto
  then have "read_lines K i k = [Reader_line i t]" by (cases "os_read K i k") (simp_all add: read_lines_def)
  then show ?thesis using i by blast
qed

end
