(* ===== verification/Double_Buffer_Properties.thy ===== *)
theory Double_Buffer_Properties
  imports Double_Buffer_Runs
begin

text \<open>
  What a run of the double-buffered worker prints, and that it ends.
\<close>

section \<open>The files\<close>

lemma read_into_length: "length (eb_buffer (fst (snd (read_into a rest b)))) = length (eb_buffer b)"
  by (simp add: read_into_def Let_def split: sum.split)

lemma length_seq_buffer: "length (eb_buffer (get_bank (fst (seq_read K cap i content k)) j)) = cap"
proof (induction k arbitrary: j)
  case 0
  have "j mod 2 = 0 \<or> j mod 2 = 1" by presburger
  then show ?case by (auto simp: ece_buffers_new_def get_bank_def bank_slot_def ece_buffer_bank_new_def)
next
  case (Suc k)
  then show ?case by (simp add: split_beta get_apply_bank length_seq_banks read_into_length)
qed

text \<open>The bytes a read without error consumes.\<close>

lemma seq_block_read:
  fixes content :: "byte list" and cap :: nat
  assumes "os_read K i r = Inr n"
  defines "rest \<equiv> snd (seq_read K cap i content r)"
  defines "s \<equiv> min n (min cap (length rest))"
  shows "seq_block K cap i content r = \<lparr> eb_buffer = take s rest @ drop s (eb_buffer (get_bank (fst (seq_read K cap i content r)) r)), eb_len = s \<rparr>"
    and "snd (seq_read K cap i content (Suc r)) = drop s rest"
  by (simp_all add: seq_block_def split_beta get_apply_bank length_seq_banks read_into_def assms(1) length_seq_buffer
    Let_def rest_def s_def)

lemma seq_consumed:
  assumes "\<forall>k. \<not> isl (os_read K i k)"
  shows "(\<forall>r<k. cap \<le> eb_len (seq_block K cap i content r)) \<Longrightarrow>
    length (snd (seq_read K cap i content k)) + k * cap \<le> length content"
proof (induction k)
  case (Suc k)
  obtain n where n: "os_read K i k = Inr n" using assms by (metis isl_def sum.exhaust)
  have "cap \<le> eb_len (seq_block K cap i content k)" using Suc.prems by blast
  then show ?case
    using Suc seq_block_read [where content = content and cap = cap, OF n] by simp
qed simp

lemma rounds_bound:
  assumes "\<forall>k. \<not> isl (os_read K (length contents - 1) k)" "0 < cap"
  shows "\<exists>R. 0 < R \<and> R \<le> length (last contents) div cap + 1 \<and> seq_len K cap contents (R - 1) < cap"
proof (rule ccontr)
  assume none: "\<not> ?thesis"
  let ?q = "length (last contents) div cap"
  have "cap \<le> seq_len K cap contents r" if "r < Suc ?q" for r
    using none that by (metis Suc_eq_plus1 Suc_leI diff_Suc_1 not_le zero_less_Suc)
  then have "Suc ?q * cap \<le> length (last contents)"
    using seq_consumed [OF assms(1), of "Suc ?q" cap "last contents"] by (simp add: seq_len_def)
  then show False using assms(2) by (metis Suc_n_not_le_n less_eq_div_iff_mult_less_eq)
qed

section \<open>Properties\<close>

lemma work_result:
  assumes "files_ok K cap fs contents" "(ece_step K)\<^sup>*\<^sup>* (work fs (ece_worker_new (length contents) cap)) w" "ew_at w = Idle"
  shows "\<exists>R>0. worker_lines (ew_out w) = seq_out K cap contents R \<and> seq_len K cap contents (R - 1) < cap \<and>
    (\<forall>r<R - 1. cap \<le> seq_len K cap contents r)"
proof -
  obtain r where "ew_inv K cap fs contents r w" using ew_inv_reach [OF assms(1,2)] by blast
  then show ?thesis using assms(3) by (intro exI [of _ r]) (auto simp: ew_inv_def at_inv_def out_inv_def)
qed

text \<open>The messages of the threads: those of the reads that failed, and none of a panic.\<close>

lemma run_lines:
  assumes "files_ok K cap fs contents" "(ece_step K)\<^sup>*\<^sup>* (work fs (ece_worker_new (length contents) cap)) w"
  shows "\<forall>i<length contents. reader_lines i (ew_out w) = concat (map (read_lines K i) [0..<reads_done (ew_readers w ! i)])"
    and "\<forall>l\<in>set (ew_out w). case l of Worker_line s \<Rightarrow> True | Reader_line i t \<Rightarrow> i < length contents | Panic_line p t \<Rightarrow> False"
    and "\<forall>rd\<in>set (ew_readers w). rd_at rd \<noteq> Thread_panicked"
proof -
  obtain r where inv: "ew_inv K cap fs contents r w" using ew_inv_reach [OF assms] by blast
  have lines: "lines_inv K w" using lines_inv_run [OF assms(2) lines_inv_start] .
  have n: "length (ew_readers w) = length contents" using inv by (simp add: ew_inv_def nrs_readers_def)
  show "\<forall>i<length contents. reader_lines i (ew_out w) = concat (map (read_lines K i) [0..<reads_done (ew_readers w ! i)])"
    using lines n by (simp add: lines_inv_def nrs_readers_def)
  have calm: "rd_at (ew_readers w ! i) \<noteq> Thread_panicked" if "i < length contents" for i
    using that inv by (force simp: ew_inv_def rd_inv_def Let_def)
  then show "\<forall>rd\<in>set (ew_readers w). rd_at rd \<noteq> Thread_panicked" using n by (auto simp: in_set_conv_nth)
  have "ew_at w \<noteq> Main_panicked" using inv by (auto simp: ew_inv_def at_inv_def)
  then have "case l of Worker_line s \<Rightarrow> True | Reader_line i t \<Rightarrow> i < length contents | Panic_line p t \<Rightarrow> False"
    if "line_ok (ew_at w) (ew_readers w) l" for l
    using that calm n by (auto simp: line_ok_def split: ece_line.splits option.splits)
  then show "\<forall>l\<in>set (ew_out w). case l of Worker_line s \<Rightarrow> True | Reader_line i t \<Rightarrow> i < length contents | Panic_line p t \<Rightarrow> False"
    using lines unfolding lines_inv_def by blast
qed

text \<open>
  C19: when the capacity is not 0, there is a reader and every reader has a file that can be
  opened, then in every order of the steps of the threads, at any time of the first call of
  work on a new worker, the lines the worker has printed are the first lines of a program
  without threads, which reads each file block after block into its two buffers and prints the
  text of each buffer; when work has returned they are those of the rounds up to the first in
  which the last file gives less than a whole block. Among these lines, each reader thread has
  printed the messages of those of its reads so far that failed, in their order and at places
  that depend on the schedule; nothing else is printed, and no thread panics.
\<close>

theorem double_buffer_prints:
  assumes "files_ok K cap fs contents" "(ece_step K)\<^sup>*\<^sup>* (work fs (ece_worker_new (length contents) cap)) w"
  shows "(\<exists>r more. seq_out K cap contents r = worker_lines (ew_out w) @ more) \<and>
    (\<forall>i<length contents. reader_lines i (ew_out w) = concat (map (read_lines K i) [0..<reads_done (ew_readers w ! i)])) \<and>
    (\<forall>l\<in>set (ew_out w). case l of Worker_line s \<Rightarrow> True | Reader_line i t \<Rightarrow> i < length contents | Panic_line p t \<Rightarrow> False) \<and>
    (\<forall>rd\<in>set (ew_readers w). rd_at rd \<noteq> Thread_panicked) \<and>
    (ew_at w = Idle \<longrightarrow> (\<exists>R>0. worker_lines (ew_out w) = seq_out K cap contents R \<and> seq_len K cap contents (R - 1) < cap \<and>
       (\<forall>r<R - 1. cap \<le> seq_len K cap contents r)))"
proof -
  obtain r where inv: "ew_inv K cap fs contents r w" using ew_inv_reach [OF assms] by blast
  have out: "\<exists>more. seq_out K cap contents (Suc r) = worker_lines (ew_out w) @ more"
  proof (cases "\<exists>n. ew_at w = Writing n")
    case True
    then obtain n where "worker_lines (ew_out w) = seq_out K cap contents r @ take n (seq_round K cap contents r)"
      using inv by (auto simp: ew_inv_def out_inv_def)
    then show ?thesis
      by (intro exI [of _ "drop n (seq_round K cap contents r)"]) (simp add: seq_out_Suc)
  next
    case False
    then show ?thesis using inv by (auto simp: ew_inv_def out_inv_def seq_out_Suc split: work_at.split_asm)
  qed
  show ?thesis
    using out work_result [OF assms] run_lines [OF assms] by blast
qed

text \<open>
  C20: when the capacity is not 0, there is a reader, every reader has a file that can be
  opened and no read of the last file fails, every run of the first call of work on a new
  worker has a number of steps bounded by the length of that file, in every order of the
  steps, and it never stops before work has returned: under these conditions no order blocks
  the threads.
\<close>

theorem double_buffer_ends:
  assumes "files_ok K cap fs contents" "\<forall>k. \<not> isl (os_read K (length contents - 1) k)"
    and "(ece_step K ^^ n) (work fs (ece_worker_new (length contents) cap)) w"
  shows "n \<le> 5 * ((length (last contents) div cap + 1) * (3 * length contents + 3) + 3 + 2 * length contents) \<and>
    (ew_at w = Idle \<or> (\<exists>w'. ece_step K w w'))"
proof -
  obtain r where inv: "ew_inv K cap fs contents r w" and left: "\<And>R. 0 < R \<Longrightarrow> seq_len K cap contents (R - 1) < cap \<Longrightarrow>
      n + steps_left R (length contents) r w \<le> 5 * (R * round_steps (length contents) + 3 + 2 * length contents)"
    using ew_inv_run [OF assms(1,3)] by blast
  obtain R where R: "0 < R" "R \<le> length (last contents) div cap + 1" "seq_len K cap contents (R - 1) < cap"
    using rounds_bound [OF assms(2) files_okD(1) [OF assms(1)]] by blast
  have "R * round_steps (length contents) \<le> (length (last contents) div cap + 1) * round_steps (length contents)"
    using R(2) by (rule mult_le_mono1)
  then have "n \<le> 5 * ((length (last contents) div cap + 1) * (3 * length contents + 3) + 3 + 2 * length contents)"
    using left [OF R(1,3)] by (simp add: round_steps_def)
  then show ?thesis using ew_inv_progress [OF assms(1) inv] by blast
qed

section \<open>What is printed\<close>

text \<open>Reads that return whole blocks as long as the file has them.\<close>

definition full_reads :: "ece_os \<Rightarrow> nat \<Rightarrow> nat \<Rightarrow> bool" where
  "full_reads K cap nr \<longleftrightarrow> (\<forall>i<nr. \<forall>k. case os_read K i k of Inl e \<Rightarrow> False | Inr n \<Rightarrow> cap \<le> n)"

lemma full_readsD:
  assumes "full_reads K cap nr" "i < nr"
  obtains n where "os_read K i k = Inr n" "cap \<le> n"
  using assms by (cases "os_read K i k") (auto simp: full_reads_def split: sum.splits dest!: spec)

definition file_block :: "nat \<Rightarrow> byte list \<Rightarrow> nat \<Rightarrow> byte list" where
  "file_block cap content r = take cap (drop (r * cap) content)"

lemma seq_rest:
  assumes "full_reads K cap nr" "i < nr"
  shows "snd (seq_read K cap i content k) = drop (k * cap) content"
proof (induction k)
  case (Suc k)
  obtain n where n: "os_read K i k = Inr n" "cap \<le> n" by (rule full_readsD [OF assms])
  show ?case
    unfolding seq_block_read(2) [where content = content and cap = cap, OF n(1)] Suc
    using n(2) by (cases "cap \<le> length (drop (k * cap) content)") (auto simp: min_def algebra_simps)
qed simp

lemma seq_old_bank:
  "get_bank (fst (seq_read K cap i content r)) r =
    (if r < 2 then ece_buffer_bank_new cap else seq_block K cap i content (r - 2))"
proof -
  consider "r = 0" | "r = 1" | q where "r = Suc (Suc q)" by (metis One_nat_def not0_implies_Suc)
  then show ?thesis
  proof cases
    case 3
    have "get_bank b (Suc (Suc q)) = get_bank b q" for b by (simp add: get_bank_def bank_slot_def)
    then show ?thesis using 3 seq_block_next by (simp del: seq_read.simps)
  qed (simp_all add: ece_buffers_new_def get_bank_def bank_slot_def apply_bank_def split_beta)
qed

lemma seq_block_full:
  assumes "full_reads K cap nr" "i < nr"
  shows "seq_block K cap i content r = \<lparr> eb_buffer = file_block cap content r @
      drop (length (file_block cap content r)) (if r < 2 then replicate cap 0 else eb_buffer (seq_block K cap i content (r - 2))),
    eb_len = length (file_block cap content r) \<rparr>"
proof -
  obtain n where n: "os_read K i r = Inr n" "cap \<le> n" by (rule full_readsD [OF assms])
  have "min n (min cap (length (drop (r * cap) content))) = length (file_block cap content r)"
    using n(2) by (simp add: file_block_def)
  moreover have "take (length (file_block cap content r)) (drop (r * cap) content) = file_block cap content r"
    unfolding file_block_def by (metis append_take_drop_id append_eq_conv_conj)
  ultimately show ?thesis
    unfolding seq_block_read(1) [where content = content and cap = cap, OF n(1)] seq_rest [OF assms] seq_old_bank
    by (simp add: ece_buffer_bank_new_def)
qed

text \<open>
  What a buffer shows in round \<open>r\<close>: the block of the file, and behind a short block what the buffer
  still holds, of the block two rounds before or the zeros of a new buffer.
\<close>

fun shown_buffer :: "nat \<Rightarrow> byte list \<Rightarrow> nat \<Rightarrow> byte list" where
  "shown_buffer cap content r =
     file_block cap content r @ drop (length (file_block cap content r))
       (if r < 2 then replicate cap 0 else shown_buffer cap content (r - 2))"

declare shown_buffer.simps [simp del]

lemma seq_block_shown:
  assumes "full_reads K cap nr" "i < nr"
  shows "eb_buffer (seq_block K cap i content r) = shown_buffer cap content r"
proof (induction r rule: less_induct)
  case (less r)
  then have "\<not> r < 2 \<Longrightarrow> eb_buffer (seq_block K cap i content (r - 2)) = shown_buffer cap content (r - 2)" by simp
  then show ?case
    unfolding shown_buffer.simps [of cap content r] seq_block_full [OF assms, of content r] by simp
qed

lemma no_read_lines:
  assumes "full_reads K cap nr" "i < nr"
  shows "read_lines K i k = []"
  by (rule full_readsD [OF assms, of k]) (simp add: read_lines_def)

lemma only_worker_lines: "\<forall>l\<in>set out. \<exists>s. l = Worker_line s \<Longrightarrow> out = map Worker_line (worker_lines out)"
  by (induction out rule: worker_lines.induct) auto

text \<open>
  C21: when the capacity is not 0, there is a reader, every reader has a file that can be
  opened, and no read fails or returns less than a whole block as long as there is one, then
  the output of the first call of work on a new worker, once it has returned, is exactly,
  round after round and for each file, a line with the lossy UTF-8 text of the whole buffer:
  the block of the file at that round, and behind a short block what the buffer still holds of
  the block two rounds before, or zeros; the number of rounds is that of the last file alone,
  so that the rest of a longer file is not printed. A character that a block cuts is printed
  as replacement characters.
\<close>

theorem double_buffer_output:
  assumes "files_ok K cap fs contents" "full_reads K cap (length contents)"
    and "(ece_step K)\<^sup>*\<^sup>* (work fs (ece_worker_new (length contents) cap)) w" "ew_at w = Idle"
  shows "ew_out w = map Worker_line (concat (map (\<lambda>r. map (\<lambda>i. block_text (shown_buffer cap (contents ! i) r)) [0..<length contents])
    [0..<length (last contents) div cap + 1]))"
proof -
  let ?n = "length contents" and ?L = "length (last contents)"
  have cap: "0 < cap" "0 < ?n" using files_okD [OF assms(1)] by blast+
  obtain R where R: "0 < R" "worker_lines (ew_out w) = seq_out K cap contents R" "seq_len K cap contents (R - 1) < cap"
    "\<forall>r<R - 1. cap \<le> seq_len K cap contents r"
    using work_result [OF assms(1,3,4)] by blast
  have len: "seq_len K cap contents r = min cap (?L - r * cap)" for r
  proof -
    have "?n - 1 < ?n" using cap(2) by simp
    from seq_block_full [OF assms(2) this, of "last contents" r] show ?thesis
      by (simp add: seq_len_def file_block_def)
  qed
  have rounds: "?L div cap + 1 = R"
  proof -
    have "\<not> (R - 1) * cap + cap \<le> ?L" using R(3) len by (auto simp: min_def split: if_splits)
    then have hi: "?L < R * cap" using R(1) by (cases R) (auto simp: algebra_simps)
    have "(R - 1) * cap \<le> ?L"
    proof (cases "R = 1")
      case False
      then have "cap \<le> seq_len K cap contents (R - 2)" using R(1,4) by simp
      then have "(R - 2) * cap + cap \<le> ?L" using len cap(1) by (auto simp: min_def split: if_splits)
      moreover have "R - 1 = Suc (R - 2)" using R(1) False by simp
      ultimately show ?thesis by simp
    qed simp
    then have "?L div cap = R - 1" using hi R(1) cap(1) by (intro div_nat_eqI) (simp_all add: algebra_simps)
    then show ?thesis using R(1) by simp
  qed
  have "seq_round K cap contents r = map (\<lambda>i. block_text (shown_buffer cap (contents ! i) r)) [0..<?n]" for r
    using seq_block_shown [OF assms(2)] by (simp add: seq_round_def)
  then have out: "worker_lines (ew_out w) = concat (map (\<lambda>r. map (\<lambda>i. block_text (shown_buffer cap (contents ! i) r)) [0..<?n])
      [0..<?L div cap + 1])"
    unfolding rounds R(2) seq_out_def by presburger
  have "\<exists>s. l = Worker_line s" if l: "l \<in> set (ew_out w)" for l
  proof (cases l)
    case (Reader_line i t)
    then have "i < ?n" using run_lines(2) [OF assms(1,3)] l by fastforce
    then have "reader_lines i (ew_out w) = []"
      using run_lines(1) [OF assms(1,3)] no_read_lines [OF assms(2)] by simp
    then show ?thesis using Reader_line l by (auto simp: reader_lines_def filter_empty_conv)
  qed (use run_lines(2) [OF assms(1,3)] l in fastforce)+
  then show ?thesis using only_worker_lines [of "ew_out w"] unfolding out by blast
qed

section \<open>Runs by a schedule\<close>

text \<open>A run is evaluated from the order in which the worker (\<open>None\<close>) and the readers step.\<close>

definition sched_step :: "ece_os \<Rightarrow> nat option \<Rightarrow> ece_worker \<Rightarrow> ece_worker option" where
  "sched_step K actor w = (case actor of
     None \<Rightarrow> main_step w
   | Some i \<Rightarrow> if i < nrs_readers w then (case reader_step K i (ew_readers w ! i) of
         None \<Rightarrow> None
       | Some (rd, acks, lines) \<Rightarrow> Some (w\<lparr> ew_readers := (ew_readers w)[i := rd], ew_listener := ew_listener w @ acks,
           ew_out := ew_out w @ lines \<rparr>))
     else None)"

fun sched_run :: "ece_os \<Rightarrow> nat option list \<Rightarrow> ece_worker \<Rightarrow> ece_worker option" where
  "sched_run K [] w = Some w"
| "sched_run K (a # as) w = (case sched_step K a w of None \<Rightarrow> None | Some w' \<Rightarrow> sched_run K as w')"

lemma sched_step_ece: "sched_step K a w = Some w' \<Longrightarrow> ece_step K w w'"
  by (auto simp: sched_step_def intro: ece_step.intros split: option.split_asm if_split_asm prod.split_asm)

lemma sched_run_steps: "sched_run K as w = Some w' \<Longrightarrow> (ece_step K ^^ length as) w w'"
proof (induction as arbitrary: w)
  case (Cons a as)
  then obtain w1 where "sched_step K a w = Some w1" "sched_run K as w1 = Some w'" by (auto split: option.split_asm)
  then show ?case using Cons.IH sched_step_ece by (metis length_Cons relpowp_Suc_I2)
qed simp

lemma sched_run_reach: "sched_run K as w = Some w' \<Longrightarrow> (ece_step K)\<^sup>*\<^sup>* w w'"
  using sched_run_steps rtranclp_power by fastforce

text \<open>
  Two files, of five bytes and three, with a capacity of two; and the same files when only the first
  read of the first one succeeds.
\<close>

definition example_os :: ece_os where
  "example_os = \<lparr> os_open = \<lambda>name. if name = ''p'' then Inr [1, 2, 3, 4, 5] else if name = ''q'' then Inr [6, 7, 8]
       else Inl ''ENOENT'',
     os_read = \<lambda>_ _. Inr 2 \<rparr>"

definition failing_os :: ece_os where
  "failing_os = example_os\<lparr> os_read := \<lambda>i k. if i = 0 \<and> 0 < k then Inl ''EIO'' else Inr 2 \<rparr>"

definition example_start :: ece_worker where
  "example_start = work [''p'', ''q''] (ece_worker_new 2 2)"

definition example_schedule :: "nat option list" where
  "example_schedule = replicate 6 None @ [Some 1, Some 0, Some 1, Some 1, Some 0, Some 1, Some 0, Some 0] @
     replicate 8 None @ [Some 0, Some 1, Some 0, Some 1, Some 1, Some 0] @ replicate 8 None"

definition failing_lines :: "ece_line list" where
  "failing_lines = map Worker_line [[1, 2, 10], [6, 7, 10]] @ [Reader_line 0 (''cannot read content '' @ ''EIO'' @ newline)] @
     map Worker_line [[0, 0, 10], [8, 0, 10]]"

lemma example_files:
  "files_ok example_os 2 [''p'', ''q''] [[1, 2, 3, 4, 5], [6, 7, 8]]"
  "files_ok failing_os 2 [''p'', ''q''] [[1, 2, 3, 4, 5], [6, 7, 8]]"
  by (auto simp: files_ok_def failing_os_def example_os_def less_Suc_eq numeral_2_eq_2)

lemma example_run:
  "map_option (\<lambda>w. (ew_at w, ew_out w)) (sched_run example_os example_schedule example_start) =
     Some (Idle, map Worker_line [[1, 2, 10], [6, 7, 10], [3, 4, 10], [8, 0, 10]])"
  "map_option (\<lambda>w. (ew_at w, ew_out w)) (sched_run failing_os example_schedule example_start) = Some (Idle, failing_lines)"
  by code_simp+

lemma example_start_work: "work [''p'', ''q''] (ece_worker_new (length [[1, 2, 3, 4, 5], [6, 7, 8 :: byte]]) 2) = example_start"
  by (simp add: example_start_def numeral_2_eq_2)

theorem double_buffer_prints_witness:
  "\<exists>w. (ece_step failing_os)\<^sup>*\<^sup>* example_start w \<and> ew_out w = failing_lines \<and>
     reader_lines 0 (ew_out w) = concat (map (read_lines failing_os 0) [0..<reads_done (ew_readers w ! 0)]) \<and>
     (\<exists>R>0. worker_lines (ew_out w) = seq_out failing_os 2 [[1, 2, 3, 4, 5], [6, 7, 8]] R)"
proof -
  obtain w where run: "sched_run failing_os example_schedule example_start = Some w" and w: "ew_at w = Idle"
    "ew_out w = failing_lines"
    using example_run(2) by (cases "sched_run failing_os example_schedule example_start") auto
  note reach = sched_run_reach [OF run]
  have two: "(0 :: nat) < length [[1, 2, 3, 4, 5], [6, 7, 8 :: byte]]" by simp
  have steps: "(ece_step failing_os)\<^sup>*\<^sup>* (work [''p'', ''q''] (ece_worker_new (length [[1, 2, 3, 4, 5], [6, 7, 8 :: byte]]) 2)) w"
    unfolding example_start_work by (rule reach)
  from double_buffer_prints [OF example_files(2) steps] show ?thesis
    using w reach two by blast
qed

theorem double_buffer_ends_witness:
  "\<exists>w. (ece_step example_os ^^ 36) example_start w \<and> 36 \<le> 5 * ((3 div 2 + 1) * (3 * 2 + 3) + 3 + 2 * (2 :: nat)) \<and>
     (ew_at w = Idle \<or> (\<exists>w'. ece_step example_os w w'))"
proof -
  obtain w where run: "sched_run example_os example_schedule example_start = Some w"
    using example_run(1) by (cases "sched_run example_os example_schedule example_start") auto
  have "length example_schedule = 36" by (simp add: example_schedule_def)
  then have n: "(ece_step example_os ^^ 36) (work [''p'', ''q''] (ece_worker_new (length [[1, 2, 3, 4, 5], [6, 7, 8 :: byte]]) 2)) w"
    unfolding example_start_work using sched_run_steps [OF run] by simp
  from double_buffer_ends [OF example_files(1) _ n] show ?thesis
    using n by (intro exI [of _ w]) (simp add: example_os_def example_start_def numeral_2_eq_2)
qed

theorem double_buffer_output_witness:
  "\<exists>w. (ece_step example_os)\<^sup>*\<^sup>* example_start w \<and>
     ew_out w = map Worker_line (concat (map (\<lambda>r. map (\<lambda>i. block_text (shown_buffer 2 ([[1, 2, 3, 4, 5], [6, 7, 8]] ! i) r)) [0..<2]) [0..<2])) \<and>
     ew_out w = map Worker_line [[1, 2, 10], [6, 7, 10], [3, 4, 10], [8, 0, 10]]"
proof -
  obtain w where run: "sched_run example_os example_schedule example_start = Some w" and w: "ew_at w = Idle"
    "ew_out w = map Worker_line [[1, 2, 10], [6, 7, 10], [3, 4, 10], [8, 0, 10]]"
    using example_run(1) by (cases "sched_run example_os example_schedule example_start") auto
  have r: "(ece_step example_os)\<^sup>*\<^sup>* (work [''p'', ''q''] (ece_worker_new (length [[1, 2, 3, 4, 5], [6, 7, 8 :: byte]]) 2)) w"
    unfolding example_start_work by (rule sched_run_reach [OF run])
  have full: "full_reads example_os 2 (length [[1, 2, 3, 4, 5], [6, 7, 8 :: byte]])"
    by (simp add: full_reads_def example_os_def)
  have n: "length (last [[1, 2, 3, 4, 5], [6, 7, 8 :: byte]]) div 2 + 1 = 2" "length [[1, 2, 3, 4, 5], [6, 7, 8 :: byte]] = 2" by simp_all
  from double_buffer_output [OF example_files(1) full r w(1)] show ?thesis
    using w(2) sched_run_reach [OF run] unfolding n by blast
qed

end
