(* ===== verification/Double_Buffer_Limits.thy ===== *)
theory Double_Buffer_Limits
  imports Double_Buffer_Properties
begin

text \<open>
  The ends of the double-buffered worker: a reader without an open file, or a capacity of 0, blocks
  it for ever; a second call of \<open>work\<close> prints what the first has left; \<open>drop\<close> ends every thread.
\<close>

section \<open>A reader that reads nothing\<close>

text \<open>A reader that sends no acknowledgement for the jobs it has.\<close>

definition mute_job :: "ece_os \<Rightarrow> nat \<Rightarrow> ece_job \<Rightarrow> bool" where
  "mute_job K cap j \<longleftrightarrow> (if cap = 0 then jb_len j = 0
     else \<forall>name. jb_filename j = Some name \<longrightarrow> isl (os_open K name))"

definition mute :: "ece_os \<Rightarrow> nat \<Rightarrow> ece_reader \<Rightarrow> bool" where
  "mute K cap rd \<longleftrightarrow> rd_at rd \<in> {At_recv, Thread_ended, Thread_panicked} \<and> rd_first_bank rd = 0 \<and>
     (cap \<noteq> 0 \<longrightarrow> rd_file rd = None) \<and> (\<forall>j\<in>set (rd_queue rd). mute_job K cap j)"

text \<open>The acknowledgements a reader has sent or may send for the jobs it has.\<close>

definition acks_due :: "ece_reader \<Rightarrow> nat" where
  "acks_due rd = rd_first_bank rd + length (filter (\<lambda>j. jb_len j \<noteq> 0) (rd_queue rd)) +
     (case rd_at rd of At_read j \<Rightarrow> 1 | At_ack j \<Rightarrow> 1 | _ \<Rightarrow> 0)"

lemma map_sum_Inl: "isl a \<Longrightarrow> map_sum id f a \<noteq> Inr y"
  by (cases a) simp_all

lemma mute_step: "reader_step K i rd = Some (rd', acks, lines) \<Longrightarrow> mute K cap rd \<Longrightarrow> mute K cap rd'"
  by (auto simp: reader_step_def mute_def mute_job_def Let_def map_sum_Inl split: list.split_asm option.split_asm if_split_asm sum.split_asm)

lemma acks_due_step:
  "reader_step K i rd = Some (rd', acks, lines) \<Longrightarrow>
   acks_due rd' \<le> acks_due rd \<and> rd_first_bank rd' = rd_first_bank rd + length acks"
  by (auto simp: reader_step_def acks_due_def Let_def split_beta
    split: reader_at.split_asm list.split_asm option.split_asm if_split_asm sum.split_asm)

lemma mute_send: "mute K cap rd \<Longrightarrow> mute_job K cap j \<Longrightarrow> mute K cap (rd\<lparr> rd_queue := rd_queue rd @ [j] \<rparr>)"
  by (auto simp: mute_def)

lemma acks_due_send:
  "acks_due (rd\<lparr> rd_queue := rd_queue rd @ [j] \<rparr>) = acks_due rd + (if jb_len j = 0 then 0 else 1)"
  by (simp add: acks_due_def)

lemma sum_list_le_length:
  fixes f :: "'a \<Rightarrow> nat"
  shows "\<forall>x\<in>set xs. f x \<le> 1 \<Longrightarrow> sum_list (map f xs) \<le> length xs"
  by (induction xs) auto

lemma sum_list_less_length:
  fixes f :: "'a \<Rightarrow> nat"
  shows "\<forall>x\<in>set xs. f x \<le> 1 \<Longrightarrow> y \<in> set xs \<Longrightarrow> f y = 0 \<Longrightarrow> sum_list (map f xs) < length xs"
proof (induction xs)
  case (Cons x xs)
  then show ?case using sum_list_le_length [of xs f] by (cases "y \<in> set xs") auto
qed simp

definition due_bound :: "work_at \<Rightarrow> nat \<Rightarrow> nat" where
  "due_bound at j = (case at of Sending first n \<Rightarrow> if j < n then 1 else 0 | Waiting k \<Rightarrow> 1 | _ \<Rightarrow> 0)"

definition blocked_at :: "string list \<Rightarrow> work_at \<Rightarrow> bool" where
  "blocked_at fs at \<longleftrightarrow> (case at of Opening n fs' \<Rightarrow> fs' = fs | Sending first n \<Rightarrow> first | Waiting k \<Rightarrow> True | _ \<Rightarrow> False)"

definition acks_taken :: "work_at \<Rightarrow> nat" where
  "acks_taken at = (case at of Waiting k \<Rightarrow> k | _ \<Rightarrow> 0)"

definition blocked_inv :: "ece_os \<Rightarrow> nat \<Rightarrow> nat \<Rightarrow> string list \<Rightarrow> nat \<Rightarrow> ece_worker \<Rightarrow> bool" where
  "blocked_inv K nr cap fs i w \<longleftrightarrow> nrs_readers w = nr \<and> ew_capacity w = cap \<and> worker_lines (ew_out w) = [] \<and> blocked_at fs (ew_at w) \<and>
     (\<forall>j<nr. acks_due (ew_readers w ! j) \<le> due_bound (ew_at w) j) \<and> mute K cap (ew_readers w ! i) \<and>
     length (ew_listener w) + acks_taken (ew_at w) = sum_list (map rd_first_bank (ew_readers w))"

lemma blocked_start:
  "i < nr \<Longrightarrow> blocked_inv K nr cap fs i (work fs (ece_worker_new nr cap))"
  by (simp add: blocked_inv_def work_def ece_worker_new_def nrs_readers_def ece_reader_new_def mute_def acks_due_def
    sum_list_replicate map_replicate blocked_at_def acks_taken_def)

lemma acks_due_first: "rd_first_bank rd \<le> acks_due rd"
  by (simp add: acks_due_def)

lemma blocked_reader:
  assumes inv: "blocked_inv K nr cap fs i w" and j: "j < nrs_readers w" and step: "reader_step K j (ew_readers w ! j) = Some (rd, acks, lines)"
  shows "blocked_inv K nr cap fs i (w\<lparr> ew_readers := (ew_readers w)[j := rd], ew_listener := ew_listener w @ acks,
    ew_out := ew_out w @ lines \<rparr>)"
proof -
  have m: "mute K cap ((ew_readers w)[j := rd] ! i)"
    using inv mute_step [OF step] j by (cases "i = j") (auto simp: blocked_inv_def nrs_readers_def)
  have d: "acks_due rd \<le> acks_due (ew_readers w ! j)" "rd_first_bank rd = rd_first_bank (ew_readers w ! j) + length acks"
    using acks_due_step [OF step] by simp_all
  have "sum_list (map rd_first_bank ((ew_readers w)[j := rd])) = sum_list (map rd_first_bank (ew_readers w)) + length acks"
    using sum_list_map_update [of j "ew_readers w" rd_first_bank rd] j d(2) by (simp add: nrs_readers_def)
  moreover have "acks_due ((ew_readers w)[j := rd] ! k) \<le> due_bound (ew_at w) k" if "k < nr" for k
    using inv that d(1) j le_trans by (cases "k = j") (auto simp: blocked_inv_def nrs_readers_def)
  moreover have "worker_lines lines = []" using reader_step_lines [OF step] by blast
  ultimately show ?thesis using inv m by (simp add: blocked_inv_def nrs_readers_def)
qed

lemma blocked_send:
  assumes inv: "blocked_inv K nr cap fs i w" and n: "n < nr" "n = i \<longrightarrow> mute_job K cap j" and at: "blocked_at fs at"
    and due: "\<forall>k<nr. due_bound (ew_at w) k + (if k = n \<and> jb_len j \<noteq> 0 then 1 else 0) \<le> due_bound at k"
    and acks: "acks_taken at = acks_taken (ew_at w)"
  shows "blocked_inv K nr cap fs i ((send n j w)\<lparr> ew_at := at \<rparr>)"
proof -
  have w: "length (ew_readers w) = nr" "nrs_readers w = nr" "mute K cap (ew_readers w ! i)"
    using inv by (simp_all add: blocked_inv_def nrs_readers_def)
  have "mute K cap (ew_readers (send n j w) ! i)"
    using n w(1,3) mute_send [OF w(3)] by (cases "n = i") (simp_all add: send_readers)
  moreover have "acks_due (ew_readers (send n j w) ! k) \<le> due_bound at k" if "k < nr" for k
  proof -
    have "acks_due (ew_readers (send n j w) ! k) = acks_due (ew_readers w ! k) + (if k = n \<and> jb_len j \<noteq> 0 then 1 else 0)"
      using that w(1) by (cases "k = n") (simp_all add: send_readers acks_due_send)
    moreover have "acks_due (ew_readers w ! k) \<le> due_bound (ew_at w) k" using inv that by (simp add: blocked_inv_def)
    ultimately show ?thesis using due that by fastforce
  qed
  moreover have "sum_list (map rd_first_bank (ew_readers (send n j w))) = sum_list (map rd_first_bank (ew_readers w))"
    using n(1) w(2) by (simp add: send_done)
  ultimately show ?thesis
    using inv at acks by (simp add: blocked_inv_def nrs_readers_def send_def)
qed

lemma blocked_main:
  assumes inv: "blocked_inv K nr cap fs i w" and i: "i < nr" and step: "main_step w = Some w'"
    and bad: "cap = 0 \<or> length fs \<le> i \<or> isl (os_open K (fs ! i))"
  shows "blocked_inv K nr cap fs i w'"
proof -
  have w: "nrs_readers w = nr" "length (ew_readers w) = nr" "ew_capacity w = cap" "worker_lines (ew_out w) = []"
    "mute K cap (ew_readers w ! i)" "\<And>j. j < nr \<Longrightarrow> acks_due (ew_readers w ! j) \<le> due_bound (ew_at w) j"
    "length (ew_listener w) + acks_taken (ew_at w) = sum_list (map rd_first_bank (ew_readers w))"
    "blocked_at fs (ew_at w)"
    using inv by (simp_all add: blocked_inv_def nrs_readers_def)
  show ?thesis
  proof (cases "ew_at w")
    case (Opening n fs')
    have "n = i \<longrightarrow> n < length fs \<longrightarrow> mute_job K cap (open_job (fs ! n))"
      using bad by (auto simp: mute_job_def open_job_def)
    moreover have "fs' = fs" using w(8) Opening by (simp add: blocked_at_def)
    ultimately have "blocked_inv K nr cap fs i ((send n (open_job (fs ! n)) w)\<lparr> ew_at := Opening (n + 1) fs \<rparr>)"
      if "n < nr" "n < length fs"
      using that Opening by (intro blocked_send [OF inv]) (simp_all add: blocked_at_def due_bound_def acks_taken_def open_job_def)
    moreover have "blocked_inv K nr cap fs i (w\<lparr> ew_at := Sending True 0 \<rparr>)"
      using inv Opening by (simp add: blocked_inv_def blocked_at_def due_bound_def acks_taken_def nrs_readers_def)
    ultimately show ?thesis
      using step w(1) Opening \<open>fs' = fs\<close> by (simp add: main_step_def open_files_def split: if_splits)
  next
    case (Sending first n)
    then have f: "first" using w(8) by (simp add: blocked_at_def)
    have "mute_job K cap (work_job (ew_offset w) cap False)" by (simp add: mute_job_def work_job_def)
    then have "blocked_inv K nr cap fs i ((send n (work_job (ew_offset w) cap False) w)\<lparr> ew_at := Sending True (n + 1) \<rparr>)"
      if "n < nr"
      using that Sending by (intro blocked_send [OF inv]) (simp_all add: blocked_at_def due_bound_def acks_taken_def)
    moreover have "blocked_inv K nr cap fs i (w\<lparr> ew_offset := x, ew_len := y, ew_at := Waiting 0 \<rparr>)" if "\<not> n < nr" for x y
      using inv Sending that by (fastforce simp: blocked_inv_def blocked_at_def due_bound_def acks_taken_def nrs_readers_def)
    moreover have "w' = (if n < nr then (send n (work_job (ew_offset w) cap False) w)\<lparr> ew_at := Sending True (n + 1) \<rparr>
        else w\<lparr> ew_offset := ew_offset w + cap, ew_len := 0, ew_at := Waiting 0 \<rparr>)"
      using step w(1,3) Sending f by (simp add: main_step_def send_work_def split: if_splits)
    ultimately show ?thesis by simp
  next
    case (Waiting k)
    have "rd_first_bank (ew_readers w ! j) \<le> 1" if "j < nr" for j
      using w(6) [OF that] acks_due_first [of "ew_readers w ! j"] by (simp add: Waiting due_bound_def)
    then have "\<forall>rd\<in>set (ew_readers w). rd_first_bank rd \<le> 1" using w(2) by (auto simp: in_set_conv_nth)
    moreover have "ew_readers w ! i \<in> set (ew_readers w)" "rd_first_bank (ew_readers w ! i) = 0"
      using w(2,5) i by (simp_all add: mute_def)
    ultimately have "sum_list (map rd_first_bank (ew_readers w)) < nr"
      using sum_list_less_length [of "ew_readers w" rd_first_bank] w(2) by blast
    then show ?thesis
      using step w i Waiting
      by (auto simp: main_step_def wait_readers_def blocked_inv_def blocked_at_def due_bound_def acks_taken_def
        nrs_readers_def split: list.split_asm)
  qed (use w(8) in \<open>simp_all add: blocked_at_def\<close>)
qed

lemma blocked_reach:
  assumes bad: "i < nr" "cap = 0 \<or> length fs \<le> i \<or> isl (os_open K (fs ! i))"
    and run: "(ece_step K)\<^sup>*\<^sup>* (work fs (ece_worker_new nr cap)) w"
  shows "blocked_inv K nr cap fs i w"
  using run
proof (induction rule: rtranclp_induct)
  case (step w w')
  show ?case using step(2)
  proof cases
    case Main
    then show ?thesis by (rule blocked_main [OF step.IH bad(1) _ bad(2)])
  next
    case Reader
    then show ?thesis using blocked_reader [OF step.IH] by simp
  qed
qed (rule blocked_start [OF bad(1)])

text \<open>
  C22: when one reader has no file, or its file cannot be opened, or the capacity is 0, the
  first call of work on a new worker never returns, and the worker never prints a line, in
  every order of the steps: all that is printed are the messages of reads that fail and those
  of reader threads that panic, and the calling thread does not panic.
\<close>

theorem double_buffer_blocked:
  assumes "i < nr" "cap = 0 \<or> length fs \<le> i \<or> isl (os_open K (fs ! i))"
    and "(ece_step K)\<^sup>*\<^sup>* (work fs (ece_worker_new nr cap)) w"
  shows "ew_at w \<noteq> Idle \<and> (\<forall>l\<in>set (ew_out w). case l of
      Worker_line s \<Rightarrow> False
    | Reader_line j t \<Rightarrow> j < nr \<and> (\<exists>k. read_lines K j k = [l])
    | Panic_line None t \<Rightarrow> False
    | Panic_line (Some j) t \<Rightarrow> j < nr \<and> rd_at (ew_readers w ! j) = Thread_panicked)"
proof -
  have b: "length (ew_readers w) = nr" "worker_lines (ew_out w) = []" "ew_at w \<noteq> Idle" "ew_at w \<noteq> Main_panicked"
    using blocked_reach [OF assms] by (auto simp: blocked_inv_def blocked_at_def nrs_readers_def)
  have inv: "lines_inv K w" using lines_inv_run [OF assms(3) lines_inv_start] .
  have "case l of
      Worker_line s \<Rightarrow> False
    | Reader_line j t \<Rightarrow> j < nr \<and> (\<exists>k. read_lines K j k = [l])
    | Panic_line None t \<Rightarrow> False
    | Panic_line (Some j) t \<Rightarrow> j < nr \<and> rd_at (ew_readers w ! j) = Thread_panicked" if l: "l \<in> set (ew_out w)" for l
  proof (cases l)
    case (Worker_line s)
    then show ?thesis using l b(2) by (simp add: worker_lines_Nil)
  next
    case (Reader_line j t)
    then show ?thesis using lines_inv_reader_line [OF inv] l b(1) by auto
  next
    case (Panic_line p t)
    have "line_ok (ew_at w) (ew_readers w) l" using inv l by (simp add: lines_inv_def)
    then show ?thesis using Panic_line b(1,4) by (auto simp: line_ok_def split: option.splits)
  qed
  then show ?thesis using b(3) by blast
qed

text \<open>
  The second of two readers has a file that cannot be opened: after eleven steps its thread has
  panicked with a message, and no thread can go on.
\<close>

theorem double_buffer_blocked_witness:
  "\<exists>w. (ece_step example_os)\<^sup>*\<^sup>* (work [''p'', ''x''] (ece_worker_new 2 2)) w \<and> ew_at w = Waiting 1 \<and>
     (\<nexists>w'. ece_step example_os w w') \<and> ew_at w \<noteq> Idle \<and>
     ew_out w = [Panic_line (Some 1) (''cannot open file: '' @ ''ENOENT'' @ newline)] \<and> rd_at (ew_readers w ! 1) = Thread_panicked"
proof -
  let ?run = "sched_run example_os (replicate 6 None @ [Some 0, Some 0, Some 0, Some 0, Some 1, None]) (work [''p'', ''x''] (ece_worker_new 2 2))"
  have "map_option (\<lambda>w. (ew_at w, ew_out w, main_step w = None, map (\<lambda>i. reader_step example_os i (ew_readers w ! i) = None) [0..<nrs_readers w]))
      ?run = Some (Waiting 1, [Panic_line (Some 1) (''cannot open file: '' @ ''ENOENT'' @ newline)], True, [True, True])"
    by code_simp
  then obtain w where run: "?run = Some w"
    and w: "ew_at w = Waiting 1" "ew_out w = [Panic_line (Some 1) (''cannot open file: '' @ ''ENOENT'' @ newline)]" "main_step w = None"
      "map (\<lambda>i. reader_step example_os i (ew_readers w ! i) = None) [0..<nrs_readers w] = [True, True]"
    by auto
  have "nrs_readers w = 2" using arg_cong [OF w(4), of length] by simp
  then have "reader_step example_os i (ew_readers w ! i) = None" if "i < nrs_readers w" for i
    using w(4) that by (auto simp: numeral_2_eq_2 less_Suc_eq)
  then have stuck: "\<nexists>w'. ece_step example_os w w'" using w(3) by (auto elim: ece_stepE)
  have "isl (os_open example_os ([''p'', ''x''] ! 1))" by (simp add: example_os_def)
  then have "ew_at w \<noteq> Idle" "rd_at (ew_readers w ! 1) = Thread_panicked"
    using double_buffer_blocked [of 1 2 2 "[''p'', ''x'']" example_os w] sched_run_reach [OF run] w(2) by auto
  then show ?thesis using w(1,2) sched_run_reach [OF run] stuck by blast
qed

section \<open>A second call\<close>

text \<open>
  The job that \<open>work\<close> sends before it prints the last blocks is still there when it is called again,
  and the bank to print starts from 0 while the thread goes on with the other one. Here the second
  call takes the acknowledgement of the old job for that of its own, prints a block of the first file
  again and returns without a byte of the second.
\<close>

definition second_os :: ece_os where
  "second_os = \<lparr> os_open = \<lambda>name. if name = ''p'' then Inr [1, 2, 3] else Inr [4, 5, 6, 7], os_read = \<lambda>_ _. Inr 2 \<rparr>"

definition first_schedule :: "nat option list" where
  "first_schedule = replicate 4 None @ replicate 4 (Some 0) @ replicate 5 None @ replicate 3 (Some 0) @ replicate 5 None"

definition second_schedule :: "nat option list" where
  "second_schedule = replicate 4 None @ replicate 3 (Some 0) @ replicate 5 None"

theorem double_buffer_second_run:
  "\<exists>w1 w2. (ece_step second_os)\<^sup>*\<^sup>* (work [''p''] (ece_worker_new 1 2)) w1 \<and> ew_at w1 = Idle \<and>
     (ece_step second_os)\<^sup>*\<^sup>* (work [''q''] w1) w2 \<and> ew_at w2 = Idle \<and>
     ew_out w1 = map Worker_line [[1, 2, 10], [3, 0, 10]] \<and> ew_out w2 = map Worker_line [[1, 2, 10], [3, 0, 10], [1, 2, 10]]"
proof -
  have "map_option (\<lambda>w1. (ew_at w1, ew_out w1, map_option (\<lambda>w2. (ew_at w2, ew_out w2)) (sched_run second_os second_schedule (work [''q''] w1))))
      (sched_run second_os first_schedule (work [''p''] (ece_worker_new 1 2))) =
    Some (Idle, map Worker_line [[1, 2, 10], [3, 0, 10]], Some (Idle, map Worker_line [[1, 2, 10], [3, 0, 10], [1, 2, 10]]))"
    by code_simp
  then obtain w1 w2 where "sched_run second_os first_schedule (work [''p''] (ece_worker_new 1 2)) = Some w1"
    "sched_run second_os second_schedule (work [''q''] w1) = Some w2" "ew_at w1 = Idle" "ew_at w2 = Idle"
    "ew_out w1 = map Worker_line [[1, 2, 10], [3, 0, 10]]" "ew_out w2 = map Worker_line [[1, 2, 10], [3, 0, 10], [1, 2, 10]]"
    by (cases "sched_run second_os first_schedule (work [''p''] (ece_worker_new 1 2))") auto
  then show ?thesis using sched_run_reach by blast
qed

section \<open>The end of the worker\<close>

text \<open>
  A reader whose jobs name no file, and the worker while it is dropped: the readers before the one to
  end have their last job, those before the one to join have ended.
\<close>

definition quiet :: "ece_reader \<Rightarrow> bool" where
  "quiet rd \<longleftrightarrow> rd_at rd \<noteq> Thread_panicked \<and> (\<forall>j\<in>set (rd_queue rd). jb_filename j = None) \<and>
     (\<forall>j. rd_at rd = At_read j \<longrightarrow> rd_file rd \<noteq> None)"

definition ending :: "ece_reader \<Rightarrow> bool" where
  "ending rd \<longleftrightarrow> rd_at rd = Thread_ended \<or> (\<exists>j\<in>set (rd_queue rd). jb_finished j)"

definition told_before :: "nat \<Rightarrow> work_at \<Rightarrow> nat" where
  "told_before nr at = (case at of Dropping n \<Rightarrow> n | _ \<Rightarrow> nr)"

definition joined_before :: "nat \<Rightarrow> work_at \<Rightarrow> nat" where
  "joined_before nr at = (case at of Dropping n \<Rightarrow> 0 | Joining n \<Rightarrow> n | _ \<Rightarrow> nr)"

definition drop_at :: "nat \<Rightarrow> work_at \<Rightarrow> bool" where
  "drop_at nr at \<longleftrightarrow> (case at of Dropping n \<Rightarrow> n \<le> nr | Joining n \<Rightarrow> n \<le> nr | Dropped \<Rightarrow> True | _ \<Rightarrow> False)"

text \<open>The reads that a reader has still to do.\<close>

definition reads_left :: "ece_reader \<Rightarrow> nat" where
  "reads_left rd = length (filter (\<lambda>j. \<not> jb_finished j) (rd_queue rd)) + (case rd_at rd of At_read j \<Rightarrow> 1 | _ \<Rightarrow> 0)"

text \<open>What is printed from \<open>out\<close> on: messages of reads that fail, at most one of each reader.\<close>

definition drop_lines :: "ece_os \<Rightarrow> ece_line list \<Rightarrow> ece_reader list \<Rightarrow> ece_line list \<Rightarrow> bool" where
  "drop_lines K ls rs out \<longleftrightarrow> (\<exists>ms. out = ls @ ms \<and> (\<forall>l\<in>set ms. \<exists>i<length rs. \<exists>k. read_lines K i k = [l]) \<and>
     (\<forall>i<length rs. length (reader_lines i ms) + reads_left (rs ! i) \<le> 1))"

definition drop_inv :: "ece_os \<Rightarrow> nat \<Rightarrow> ece_line list \<Rightarrow> ece_worker \<Rightarrow> bool" where
  "drop_inv K nr out w \<longleftrightarrow> nrs_readers w = nr \<and> drop_lines K out (ew_readers w) (ew_out w) \<and> drop_at nr (ew_at w) \<and>
     (\<forall>i<nr. quiet (ew_readers w ! i) \<and> (i < told_before nr (ew_at w) \<longrightarrow> ending (ew_readers w ! i)) \<and>
        (i < joined_before nr (ew_at w) \<longrightarrow> rd_at (ew_readers w ! i) = Thread_ended))"

definition drop_left :: "nat \<Rightarrow> work_at \<Rightarrow> nat" where
  "drop_left nr at = (case at of Dropping n \<Rightarrow> 2 + nr + (nr - n) | Joining n \<Rightarrow> 1 + (nr - n) | _ \<Rightarrow> 0)"

lemma quiet_step:
  "reader_step K i rd = Some (rd', acks, lines) \<Longrightarrow> quiet rd \<Longrightarrow> quiet rd' \<and> (ending rd \<longrightarrow> ending rd')"
  by (auto simp: reader_step_def quiet_def ending_def Let_def split_beta
    split: reader_at.split_asm list.split_asm option.split_asm if_split_asm sum.split_asm)

lemma quiet_reads:
  "reader_step K i rd = Some (rd', acks, lines) \<Longrightarrow> quiet rd \<Longrightarrow>
   reads_left rd' + (if \<exists>j. rd_at rd = At_read j then 1 else 0) \<le> reads_left rd"
  by (auto simp: reader_step_def quiet_def reads_left_def Let_def split_beta
    split: reader_at.split_asm list.split_asm option.split_asm if_split_asm sum.split_asm)

lemma drop_lines_reader:
  assumes lines: "drop_lines K ls rs out" and i: "i < length rs" and q: "quiet (rs ! i)"
    and step: "reader_step K i (rs ! i) = Some (rd, acks, new)"
  shows "drop_lines K ls (rs[i := rd]) (out @ new)"
proof -
  obtain ms where out: "out = ls @ ms" and ms: "\<forall>l\<in>set ms. \<exists>i<length rs. \<exists>k. read_lines K i k = [l]"
    and few: "\<And>j. j < length rs \<Longrightarrow> length (reader_lines j ms) + reads_left (rs ! j) \<le> 1"
    using lines unfolding drop_lines_def by blast
  have "rd_at rd \<noteq> Thread_panicked" using quiet_step [OF step q] by (simp add: quiet_def)
  then have "new = [] \<or> (\<exists>j k. rd_at (rs ! i) = At_read j \<and> new = read_lines K i k)"
    using reader_step_lines [OF step] by (auto split: if_split_asm)
  then consider "new = []" | j k t where "rd_at (rs ! i) = At_read j" "new = read_lines K i k" "new = [Reader_line i t]"
    using read_lines_cases [of K i] by metis
  then show ?thesis
  proof cases
    case 1
    have "length (reader_lines j ms) + reads_left (rs[i := rd] ! j) \<le> 1" if "j < length rs" for j
      using few [OF that] quiet_reads [OF step q] that by (cases "j = i") simp_all
    then show ?thesis unfolding drop_lines_def using out ms 1 by (intro exI [of _ ms]) simp
  next
    case 2
    have "Suc (reads_left rd) \<le> reads_left (rs ! i)" using quiet_reads [OF step q] 2(1) by simp
    then have "length (reader_lines i ms) = 0" using few [OF i] by linarith
    then have "length (reader_lines j (ms @ new)) + reads_left (rs[i := rd] ! j) \<le> 1" if "j < length rs" for j
      using few [OF that] quiet_reads [OF step q] that 2(1,3) by (cases "j = i") simp_all
    moreover have "\<forall>l\<in>set (ms @ new). \<exists>i<length rs. \<exists>k. read_lines K i k = [l]" using ms i 2(2,3) by fastforce
    ultimately show ?thesis unfolding drop_lines_def using out by (intro exI [of _ "ms @ new"]) simp
  qed
qed

lemma drop_lines_readers:
  assumes "drop_lines K ls rs out" "length rs' = length rs" "\<And>i. i < length rs \<Longrightarrow> reads_left (rs' ! i) = reads_left (rs ! i)"
  shows "drop_lines K ls rs' out"
  using assms unfolding drop_lines_def by auto

lemma quiet_progress: "quiet rd \<Longrightarrow> ending rd \<Longrightarrow> rd_at rd \<noteq> Thread_ended \<Longrightarrow> reader_step K i rd \<noteq> None"
  by (cases "rd_at rd"; cases "rd_queue rd") (auto simp: reader_step_def quiet_def ending_def Let_def split_beta split: option.splits sum.splits)

lemma drop_inv_reader:
  assumes "drop_inv K nr out w" "j < nrs_readers w" "reader_step K j (ew_readers w ! j) = Some (rd, acks, new)"
  shows "drop_inv K nr out (w\<lparr> ew_readers := (ew_readers w)[j := rd], ew_listener := ew_listener w @ acks,
    ew_out := ew_out w @ new \<rparr>)"
proof -
  have "rd_at (ew_readers w ! j) \<noteq> Thread_ended" using assms(3) by (auto simp: reader_step_def)
  moreover have "drop_lines K out ((ew_readers w)[j := rd]) (ew_out w @ new)"
    using assms by (intro drop_lines_reader) (auto simp: drop_inv_def nrs_readers_def)
  ultimately show ?thesis
    using assms quiet_step [OF assms(3)] by (auto simp: drop_inv_def nrs_readers_def nth_list_update)
qed

lemma drop_inv_main:
  assumes inv: "drop_inv K nr out w" and step: "main_step w = Some w'"
  shows "drop_inv K nr out w' \<and> 5 * drop_left nr (ew_at w') + sum_list (map reader_left (ew_readers w')) <
    5 * drop_left nr (ew_at w) + sum_list (map reader_left (ew_readers w))"
proof (cases "ew_at w")
  case (Dropping n)
  show ?thesis
  proof (cases "n < nr")
    case True
    let ?j = "work_job 0 (ew_capacity w) True"
    have w': "w' = (send n ?j w)\<lparr> ew_at := Dropping (n + 1) \<rparr>"
      using inv step Dropping True by (simp add: drop_inv_def main_step_def drop_send_def)
    have q: "quiet (ew_readers (send n ?j w) ! i) \<and> (i < n + 1 \<longrightarrow> ending (ew_readers (send n ?j w) ! i))" if "i < nr" for i
      using inv that True Dropping
      by (cases "i = n") (auto simp: drop_inv_def told_before_def send_readers nrs_readers_def quiet_def ending_def work_job_def)
    have "drop_lines K out (ew_readers w) (ew_out w)" using inv by (simp add: drop_inv_def)
    moreover have "length (ew_readers (send n ?j w)) = length (ew_readers w)" by (simp add: send_def)
    moreover have "reads_left (ew_readers (send n ?j w) ! i) = reads_left (ew_readers w ! i)" if "i < length (ew_readers w)" for i
      using that by (cases "i = n") (simp_all add: send_readers nrs_readers_def reads_left_def work_job_def)
    ultimately have "drop_lines K out (ew_readers (send n ?j w)) (ew_out w)"
      by (rule drop_lines_readers)
    then show ?thesis
      using inv q Dropping True send_left [of n w ?j] unfolding w'
      by (simp add: drop_inv_def drop_at_def told_before_def joined_before_def drop_left_def nrs_readers_def send_def)
  next
    case False
    then show ?thesis
      using inv step Dropping
      by (auto simp: drop_inv_def main_step_def drop_send_def drop_at_def told_before_def joined_before_def drop_left_def
        nrs_readers_def)
  qed
next
  case (Joining n)
  then have "n < nr \<Longrightarrow> rd_at (ew_readers w ! n) \<noteq> Thread_panicked" using inv by (simp add: drop_inv_def quiet_def)
  then show ?thesis
    using inv step Joining
    by (auto simp: drop_inv_def main_step_def drop_join_def drop_at_def told_before_def joined_before_def drop_left_def
      nrs_readers_def less_Suc_eq split: if_splits reader_at.split_asm)
qed (use inv step in \<open>simp_all add: drop_inv_def drop_at_def main_step_def\<close>)

lemma drop_inv_run:
  "(ece_step K ^^ n) (drop_worker w) w' \<Longrightarrow> drop_inv K nr out (drop_worker w) \<Longrightarrow>
   drop_inv K nr out w' \<and> n + (5 * drop_left nr (ew_at w') + sum_list (map reader_left (ew_readers w'))) \<le>
     5 * (2 * nr + 2) + sum_list (map reader_left (ew_readers w))"
proof (induction n arbitrary: w')
  case 0
  then show ?case by (auto simp: drop_left_def drop_worker_def)
next
  case (Suc n)
  then obtain w1 where w1: "(ece_step K ^^ n) (drop_worker w) w1" "ece_step K w1 w'" by auto
  have inv: "drop_inv K nr out w1" and le: "n + (5 * drop_left nr (ew_at w1) + sum_list (map reader_left (ew_readers w1))) \<le>
      5 * (2 * nr + 2) + sum_list (map reader_left (ew_readers w))"
    using Suc.IH [OF w1(1) Suc.prems(2)] by blast+
  from w1(2) show ?case
  proof cases
    case Main
    then show ?thesis using drop_inv_main [OF inv] le by fastforce
  next
    case (Reader i rd acks new)
    then have "sum_list (map reader_left (ew_readers w')) < sum_list (map reader_left (ew_readers w1))"
      using sum_list_map_update [of i "ew_readers w1" reader_left rd] reader_step_left [OF Reader(3)] by (simp add: nrs_readers_def)
    moreover have "drop_inv K nr out w'" using drop_inv_reader [OF inv Reader(2,3)] Reader(1) by simp
    ultimately show ?thesis using le Reader(1) by simp
  qed
qed

lemma idle_reader:
  assumes "ew_inv K cap fs contents r w" "ew_at w = Idle" "i < length contents"
  shows "quiet (ew_readers w ! i)" "reader_left (ew_readers w ! i) \<le> 4" "reads_left (ew_readers w ! i) \<le> 1"
proof -
  have r: "0 < r" "rd_inv K cap i (fs ! i) (contents ! i) True (Suc r) (ew_readers w ! i)"
    "r \<le> rd_first_bank (ew_readers w ! i)"
    using assms by (auto simp: ew_inv_def at_inv_def opened_before_def jobs_sent_def jobs_done_def)
  then show "quiet (ew_readers w ! i)"
    by (auto simp: quiet_def rd_inv_def Let_def pending_jobs_def work_job_def split: reader_at.splits)
  have "length (pending_jobs cap d (Suc r)) \<le> 1" "length (pending_jobs cap (Suc d) (Suc r)) = 0" if "r \<le> d" for d
    using that by (simp_all add: pending_jobs_def)
  then show "reader_left (ew_readers w ! i) \<le> 4"
    using r by (auto simp: reader_left_def rd_inv_def Let_def split: reader_at.splits)
  have "length (filter f (pending_jobs cap d (Suc r))) \<le> 1" "pending_jobs cap (Suc d) (Suc r) = []" if "r \<le> d" for d f
    using that length_filter_le [of f "pending_jobs cap d (Suc r)"] by (simp_all add: pending_jobs_def)
  then show "reads_left (ew_readers w ! i) \<le> 1"
    using r by (auto simp: reads_left_def rd_inv_def Let_def split: reader_at.splits)
qed

text \<open>
  C23: when the capacity is not 0, there is a reader and every reader has a file that can be
  opened, dropping a worker after its first call of work ends in a bounded number of steps, in
  every order of them: each thread does what is before its last job and ends, none panics, and
  the drop returns only when every thread has ended; all that is printed are the messages of
  reads that fail, at most one of each reader, for the job that was still open.
\<close>

theorem double_buffer_drop:
  assumes "files_ok K cap fs contents" "(ece_step K)\<^sup>*\<^sup>* (work fs (ece_worker_new (length contents) cap)) w"
    and "ew_at w = Idle" "(ece_step K ^^ n) (drop_worker w) w'"
  shows "ew_at w' \<noteq> Main_panicked \<and> n \<le> 14 * length contents + 10 \<and>
    (\<exists>ms. ew_out w' = ew_out w @ ms \<and> (\<forall>l\<in>set ms. \<exists>i<length contents. \<exists>k. read_lines K i k = [l]) \<and>
       (\<forall>i<length contents. length (reader_lines i ms) \<le> 1)) \<and>
    (if ew_at w' = Dropped then \<forall>rd\<in>set (ew_readers w'). rd_at rd = Thread_ended else \<exists>w''. ece_step K w' w'')"
proof -
  let ?nr = "length contents"
  obtain r where inv: "ew_inv K cap fs contents r w" using ew_inv_reach [OF assms(1,2)] by blast
  then have nr: "nrs_readers w = ?nr" "length (ew_readers w) = ?nr" by (simp_all add: ew_inv_def nrs_readers_def)
  have "drop_inv K ?nr (ew_out w) (drop_worker w)"
    using nr idle_reader(1,3) [OF inv assms(3)]
    by (simp add: drop_inv_def drop_lines_def drop_worker_def drop_at_def told_before_def joined_before_def nrs_readers_def)
  from drop_inv_run [OF assms(4) this] have d: "drop_inv K ?nr (ew_out w) w'"
    and n: "n \<le> 5 * (2 * ?nr + 2) + sum_list (map reader_left (ew_readers w))"
    by simp_all
  have "sum_list (map reader_left (ew_readers w)) \<le> sum_list (map (\<lambda>_. 4) (ew_readers w))"
    using idle_reader(2) [OF inv assms(3)] nr(2) by (intro sum_list_mono) (auto simp: in_set_conv_nth)
  then have "n \<le> 14 * ?nr + 10" using n nr(2) by (simp add: sum_list_triv)
  moreover have "ew_at w' = Dropped \<Longrightarrow> \<forall>rd\<in>set (ew_readers w'). rd_at rd = Thread_ended"
    using d by (auto simp: drop_inv_def joined_before_def in_set_conv_nth nrs_readers_def)
  moreover have "\<exists>w''. ece_step K w' w''" if going: "ew_at w' \<noteq> Dropped"
  proof (cases "main_step w'")
    case None
    then obtain k where k: "ew_at w' = Joining k" "k < ?nr" "rd_at (ew_readers w' ! k) \<noteq> Thread_ended"
      using d going by (auto simp: drop_inv_def drop_at_def main_step_def drop_join_def split: work_at.splits if_splits reader_at.splits)
    then obtain rd acks new where "reader_step K k (ew_readers w' ! k) = Some (rd, acks, new)"
      using d quiet_progress [of "ew_readers w' ! k" K k] by (auto simp: drop_inv_def told_before_def)
    then show ?thesis using d k(2) Reader [of k w' K rd acks new] by (auto simp: drop_inv_def)
  qed (use Main in blast)
  moreover have "ew_at w' \<noteq> Main_panicked" using d by (auto simp: drop_inv_def drop_at_def)
  moreover have "\<exists>ms. ew_out w' = ew_out w @ ms \<and> (\<forall>l\<in>set ms. \<exists>i<?nr. \<exists>k. read_lines K i k = [l]) \<and>
      (\<forall>i<?nr. length (reader_lines i ms) \<le> 1)"
  proof -
    have "length (ew_readers w') = ?nr" "drop_lines K (ew_out w) (ew_readers w') (ew_out w')"
      using d by (simp_all add: drop_inv_def nrs_readers_def)
    then show ?thesis unfolding drop_lines_def by (metis add_leD1)
  qed
  ultimately show ?thesis by simp
qed

text \<open>
  After the run of the example the two threads take the job that was not printed, and end; the read of
  the first fails.
\<close>

theorem double_buffer_drop_witness:
  "\<exists>w w' n. (ece_step failing_os)\<^sup>*\<^sup>* example_start w \<and> ew_at w = Idle \<and>
     (ece_step failing_os ^^ n) (drop_worker w) w' \<and> n \<le> 38 \<and> ew_at w' = Dropped \<and>
     (\<forall>rd\<in>set (ew_readers w'). rd_at rd = Thread_ended) \<and> ew_out w = failing_lines \<and>
     ew_out w' = failing_lines @ [Reader_line 0 (''cannot read content '' @ ''EIO'' @ newline)]"
proof -
  let ?drop = "replicate 3 None @ [Some 0, Some 0, Some 0, Some 0, Some 1, Some 1, Some 1, Some 1] @ replicate 3 None"
  have "map_option (\<lambda>w. (ew_at w, ew_out w, map_option (\<lambda>w'. (ew_at w', ew_out w')) (sched_run failing_os ?drop (drop_worker w))))
      (sched_run failing_os example_schedule example_start) =
    Some (Idle, failing_lines, Some (Dropped, failing_lines @ [Reader_line 0 (''cannot read content '' @ ''EIO'' @ newline)]))"
    by code_simp
  then obtain w w' where run: "sched_run failing_os example_schedule example_start = Some w" and w: "ew_at w = Idle"
    "ew_out w = failing_lines"
    and drop: "sched_run failing_os ?drop (drop_worker w) = Some w'" and w': "ew_at w' = Dropped"
    "ew_out w' = failing_lines @ [Reader_line 0 (''cannot read content '' @ ''EIO'' @ newline)]"
    by auto
  have r: "(ece_step failing_os)\<^sup>*\<^sup>* (work [''p'', ''q''] (ece_worker_new (length [[1, 2, 3, 4, 5], [6, 7, 8 :: byte]]) 2)) w"
    unfolding example_start_work by (rule sched_run_reach [OF run])
  from double_buffer_drop [OF example_files(2) r w(1) sched_run_steps [OF drop]]
  have "\<forall>rd\<in>set (ew_readers w'). rd_at rd = Thread_ended" "length ?drop \<le> 38" using w'(1) by simp_all
  then show ?thesis using sched_run_reach [OF run] w w' sched_run_steps [OF drop] by blast
qed

end
