(* ===== verification/Rust_Tree.thy ===== *)
theory Rust_Tree
  imports Dbg_Print
begin

text \<open>
  \<open>small_rust_tree/graph.rs\<close>: a tree of nodes behind \<open>Rc<RefCell<ListNode>>\<close>. The heap is the list of
  the boxes that were allocated, each with its two counts and, until its last strong reference is
  dropped, its node; a reference is an index. A borrow of a cell never outlives the operation that
  takes it, and no operation borrows a cell twice, so no borrow fails.
\<close>

section \<open>Boxes and references\<close>

record 'v list_node =
  ln_parent :: "nat option"
  ln_children :: "nat list"
  ln_value :: 'v

record 'v rc_box =
  rb_strong :: nat
  rb_weak :: nat
  rb_node :: "'v list_node option"

type_synonym 'v heap = "'v rc_box list"

definition node_at :: "'v heap \<Rightarrow> nat \<Rightarrow> 'v list_node option" where
  "node_at h a = (if a < length h then rb_node (h ! a) else None)"

definition update_box :: "nat \<Rightarrow> ('v rc_box \<Rightarrow> 'v rc_box) \<Rightarrow> 'v heap \<Rightarrow> 'v heap" where
  "update_box a f h = h[a := f (h ! a)]"

definition update_node :: "nat \<Rightarrow> ('v list_node \<Rightarrow> 'v list_node) \<Rightarrow> 'v heap \<Rightarrow> 'v heap" where
  "update_node a f = update_box a (\<lambda>b. b\<lparr> rb_node := map_option f (rb_node b) \<rparr>)"

definition rc_clone :: "nat \<Rightarrow> 'v heap \<Rightarrow> 'v heap" where
  "rc_clone a = update_box a (\<lambda>b. b\<lparr> rb_strong := rb_strong b + 1 \<rparr>)"

definition rc_downgrade :: "nat \<Rightarrow> 'v heap \<Rightarrow> 'v heap" where
  "rc_downgrade a = update_box a (\<lambda>b. b\<lparr> rb_weak := rb_weak b + 1 \<rparr>)"

definition weak_drop :: "nat option \<Rightarrow> 'v heap \<Rightarrow> 'v heap" where
  "weak_drop w h = (case w of None \<Rightarrow> h | Some a \<Rightarrow> update_box a (\<lambda>b. b\<lparr> rb_weak := rb_weak b - 1 \<rparr>) h)"

text \<open>
  Dropping strong references, one after the other. The last one of a box drops the node: its weak
  reference to the parent, and then the references to its children, before any other.
\<close>

function rc_drop :: "'v heap \<Rightarrow> nat list \<Rightarrow> 'v heap" where
  "rc_drop h [] = h"
| "rc_drop h (a # as) = (case node_at h a of
     None \<Rightarrow> rc_drop h as
   | Some n \<Rightarrow>
       if rb_strong (h ! a) = 1
       then rc_drop (weak_drop (ln_parent n) (update_box a (\<lambda>b. b\<lparr> rb_strong := 0, rb_node := None \<rparr>) h)) (ln_children n @ as)
       else rc_drop (update_box a (\<lambda>b. b\<lparr> rb_strong := rb_strong b - 1 \<rparr>) h) as)"
  by pat_completeness auto

lemma length_weak_drop [simp]: "length (weak_drop w h) = length h"
  by (simp add: weak_drop_def update_box_def split: option.split)

definition live_count :: "'v heap \<Rightarrow> nat" where
  "live_count h = sum_list (map (\<lambda>b. if rb_node b = None then 0 else 1) h)"

lemma live_count_update:
  "a < length h \<Longrightarrow> live_count (h[a := b]) + (if rb_node (h ! a) = None then 0 else 1) =
    live_count h + (if rb_node b = None then 0 else 1)"
  unfolding live_count_def by (rule sum_list_map_update)

lemma live_count_weak_drop: "live_count (weak_drop w h) = live_count h"
proof (cases w)
  case (Some a)
  then show ?thesis
    using live_count_update [of a h "(h ! a)\<lparr> rb_weak := rb_weak (h ! a) - 1 \<rparr>"]
    by (cases "a < length h") (simp_all add: weak_drop_def update_box_def not_less list_update_beyond split: if_splits)
qed (simp add: weak_drop_def)

termination rc_drop
proof (relation "measures [\<lambda>(h, as). live_count h, \<lambda>(h, as). length as]")
  fix h :: "'v heap" and a as n
  assume n: "node_at h a = Some n"
  then have a: "a < length h" "rb_node (h ! a) \<noteq> None" by (auto simp: node_at_def split: if_splits)
  show "((weak_drop (ln_parent n) (update_box a (\<lambda>b. b\<lparr> rb_strong := 0, rb_node := None \<rparr>) h), ln_children n @ as), (h, a # as))
      \<in> measures [\<lambda>(h, as). live_count h, \<lambda>(h, as). length as]"
    using live_count_update [OF a(1), of "(h ! a)\<lparr> rb_strong := 0, rb_node := None \<rparr>"] a(2)
    by (simp add: live_count_weak_drop update_box_def)
  show "((update_box a (\<lambda>b. b\<lparr> rb_strong := rb_strong b - 1 \<rparr>) h, as), (h, a # as))
      \<in> measures [\<lambda>(h, as). live_count h, \<lambda>(h, as). length as]"
    using live_count_update [OF a(1), of "(h ! a)\<lparr> rb_strong := rb_strong (h ! a) - 1 \<rparr>"] a(2)
    by (simp add: update_box_def)
qed simp_all

section \<open>The operations\<close>

record 'v tree =
  tr_heap :: "'v heap"
  tr_out :: printed

definition println :: "string \<Rightarrow> 'v tree \<Rightarrow> 'v tree" where
  "println s t = t\<lparr> tr_out := put_text Stdout (s @ newline) (tr_out t) \<rparr>"

definition node_new :: "'v \<Rightarrow> 'v tree \<Rightarrow> nat \<times> 'v tree" where
  "node_new value t = (length (tr_heap t), t\<lparr> tr_heap := tr_heap t @
     [\<lparr> rb_strong = 1, rb_weak = 0, rb_node = Some \<lparr> ln_parent = None, ln_children = [], ln_value = value \<rparr> \<rparr>] \<rparr>)"

definition node_clone :: "nat \<Rightarrow> 'v tree \<Rightarrow> 'v tree" where
  "node_clone a t = t\<lparr> tr_heap := rc_clone a (tr_heap t) \<rparr>"

definition drop_text :: "'v heap \<Rightarrow> nat \<Rightarrow> string" where
  "drop_text h a = ''refcount='' @ decimal (rb_strong (h ! a)) @ '', weakcount='' @ decimal (rb_weak (h ! a))"

definition node_drop :: "nat \<Rightarrow> 'v tree \<Rightarrow> 'v tree" where
  "node_drop a t = (let t = println (drop_text (tr_heap t) a) t in t\<lparr> tr_heap := rc_drop (tr_heap t) [a] \<rparr>)"

text \<open>The temporary reference of a statement, dropped at its end.\<close>

definition drop_option :: "nat option \<Rightarrow> 'v tree \<Rightarrow> 'v tree" where
  "drop_option r t = (case r of None \<Rightarrow> t | Some a \<Rightarrow> node_drop a t)"

definition get_parent :: "nat \<Rightarrow> 'v tree \<Rightarrow> nat option \<times> 'v tree" where
  "get_parent a t = (case Option.bind (node_at (tr_heap t) a) ln_parent of
     None \<Rightarrow> (None, t)
   | Some l \<Rightarrow> if rb_strong (tr_heap t ! l) = 0 then (None, t) else (Some l, t\<lparr> tr_heap := rc_clone l (tr_heap t) \<rparr>))"

definition add_children :: "nat \<Rightarrow> nat \<Rightarrow> 'v tree \<Rightarrow> 'v tree" where
  "add_children self child t = (case get_parent child t of
     (Some p, t) \<Rightarrow> node_drop p (println ''parent already set'' t)
   | (None, t) \<Rightarrow>
       let h = rc_downgrade self (tr_heap t);
           h = weak_drop (Option.bind (node_at h child) ln_parent) h;
           h = update_node child (\<lambda>n. n\<lparr> ln_parent := Some self \<rparr>) h;
           h = rc_clone child h
       in t\<lparr> tr_heap := update_node self (\<lambda>n. n\<lparr> ln_children := ln_children n @ [child] \<rparr>) h \<rparr>)"

definition equals :: "nat \<Rightarrow> nat \<Rightarrow> bool" where
  "equals a b \<longleftrightarrow> a = b"

section \<open>Debug printing\<close>

text \<open>
  The text of \<open>{:?}\<close>, a weak reference being \<open>(Weak)\<close>. A reference among its own descendants makes it
  recurse for ever: the fuel counts the nested calls.
\<close>

fun join :: "string \<Rightarrow> string list \<Rightarrow> string" where
  "join sep [] = []"
| "join sep [s] = s"
| "join sep (s # ss) = s @ sep @ join sep ss"

definition parent_debug :: "nat option \<Rightarrow> string" where
  "parent_debug p = (case p of None \<Rightarrow> ''None'' | Some _ \<Rightarrow> ''Some((Weak))'')"

fun node_debug :: "nat \<Rightarrow> ('v \<Rightarrow> string) \<Rightarrow> 'v heap \<Rightarrow> nat \<Rightarrow> string option" where
  "node_debug 0 sh h a = None"
| "node_debug (Suc k) sh h a = (case node_at h a of
     None \<Rightarrow> None
   | Some n \<Rightarrow> map_option (\<lambda>cs. ''RefCell { value: ListNode { parent: '' @ parent_debug (ln_parent n) @
       '', children: ['' @ join '', '' cs @ ''], value: '' @ sh (ln_value n) @ '' } }'')
       (those (map (node_debug k sh h) (ln_children n))))"

definition option_debug :: "nat \<Rightarrow> ('v \<Rightarrow> string) \<Rightarrow> 'v heap \<Rightarrow> nat option \<Rightarrow> string option" where
  "option_debug k sh h r = (case r of
     None \<Rightarrow> Some ''None''
   | Some a \<Rightarrow> map_option (\<lambda>s. ''Some(ListNodeRef('' @ s @ ''))'') (node_debug k sh h a))"

text \<open>A text without characters that \<open>{:?}\<close> escapes.\<close>

definition str_debug :: "string \<Rightarrow> string" where
  "str_debug s = [CHR 0x22] @ s @ [CHR 0x22]"

section \<open>The program\<close>

definition show_parent :: "nat \<Rightarrow> nat \<Rightarrow> string tree \<Rightarrow> string tree option" where
  "show_parent k a t = (let (r, t) = get_parent a t in
     map_option (\<lambda>s. drop_option r (println (''lparent = '' @ s) t)) (option_debug k str_debug (tr_heap t) r))"

definition bool_text :: "bool \<Rightarrow> string" where
  "bool_text b = (if b then ''true'' else ''false'')"

definition tree_main :: "nat \<Rightarrow> string tree option" where
  "tree_main k =
    (let (p, t) = node_new ''child'' \<lparr> tr_heap = [], tr_out = [] \<rparr>
     in Option.bind (show_parent k p t) (\<lambda>t.
       let (nl, t) = node_new ''nparent'' t;
           t = add_children nl p t
       in map_option (\<lambda>t.
         let (gparent, t) = get_parent p t;
             t = println (case gparent of
                 Some node \<Rightarrow> ''gparent and nl : '' @ bool_text (equals node nl) @ '' '' @ bool_text (equals nl node)
               | None \<Rightarrow> ''cannot get parent data'') t
         in node_drop p (node_drop nl (drop_option gparent t))) (show_parent k p t)))"

text \<open>
  Any program with the type: it holds a list of references and calls the operations on them.
\<close>

inductive tree_step :: "'v tree \<times> nat list \<Rightarrow> 'v tree \<times> nat list \<Rightarrow> bool" where
  New: "node_new value t = (a, t') \<Longrightarrow> tree_step (t, hs) (t', a # hs)"
| Clone: "a \<in> set hs \<Longrightarrow> tree_step (t, hs) (node_clone a t, a # hs)"
| Drop: "a \<in> set hs \<Longrightarrow> tree_step (t, hs) (node_drop a t, remove1 a hs)"
| Parent: "a \<in> set hs \<Longrightarrow> get_parent a t = (r, t') \<Longrightarrow> tree_step (t, hs) (t', (case r of None \<Rightarrow> hs | Some p \<Rightarrow> p # hs))"
| Add: "a \<in> set hs \<Longrightarrow> c \<in> set hs \<Longrightarrow> tree_step (t, hs) (add_children a c t, hs)"

definition tree_start :: "'v tree \<times> nat list" where
  "tree_start = (\<lparr> tr_heap = [], tr_out = [] \<rparr>, [])"

end
