(* ===== verification/Rust_Tree_Counts.thy ===== *)
theory Rust_Tree_Counts
  imports Rust_Tree
begin

text \<open>
  The counts of every box, kept by every operation: the strong references are those a program holds
  and the one of a parent that still exists, the weak references those of the children. So no
  reference ever leads to a node that was dropped, and a node that outlives all references is in a
  cycle.
\<close>

section \<open>The invariant\<close>

definition parent_ref :: "'v heap \<Rightarrow> 'v list_node \<Rightarrow> nat" where
  "parent_ref h n = (case ln_parent n of None \<Rightarrow> 0 | Some p \<Rightarrow> if node_at h p = None then 0 else 1)"

definition weak_refs :: "'v heap \<Rightarrow> nat \<Rightarrow> nat set" where
  "weak_refs h a = {b. \<exists>m. node_at h b = Some m \<and> ln_parent m = Some a}"

definition node_ok :: "'v heap \<Rightarrow> nat list \<Rightarrow> nat \<Rightarrow> 'v list_node \<Rightarrow> bool" where
  "node_ok h hs a n \<longleftrightarrow> rb_strong (h ! a) = count_list hs a + parent_ref h n \<and> 0 < rb_strong (h ! a) \<and>
     distinct (ln_children n) \<and> set (ln_children n) = weak_refs h a \<and> (\<forall>p. ln_parent n = Some p \<longrightarrow> p < length h)"

definition rc_inv :: "'v heap \<Rightarrow> nat list \<Rightarrow> bool" where
  "rc_inv h hs \<longleftrightarrow> (\<forall>a n. node_at h a = Some n \<longrightarrow> node_ok h hs a n) \<and> (\<forall>a\<in>set hs. node_at h a \<noteq> None) \<and>
     (\<forall>a<length h. node_at h a = None \<longrightarrow> rb_strong (h ! a) = 0) \<and> (\<forall>a<length h. rb_weak (h ! a) = card (weak_refs h a))"

lemma rc_invD:
  assumes "rc_inv h hs"
  shows "\<And>a n. node_at h a = Some n \<Longrightarrow> node_ok h hs a n" "\<And>a. a \<in> set hs \<Longrightarrow> \<exists>n. node_at h a = Some n"
    "\<And>a. a < length h \<Longrightarrow> node_at h a = None \<Longrightarrow> rb_strong (h ! a) = 0"
    "\<And>a. a < length h \<Longrightarrow> rb_weak (h ! a) = card (weak_refs h a)"
  using assms by (auto simp: rc_inv_def)

lemma node_at_less: "node_at h a = Some n \<Longrightarrow> a < length h"
  by (simp add: node_at_def split: if_splits)

lemma finite_weak_refs [simp]: "finite (weak_refs h a)"
  by (rule finite_subset [of _ "{..<length h}"]) (auto simp: weak_refs_def dest: node_at_less)

lemma length_update_box [simp]: "length (update_box a f h) = length h"
  by (simp add: update_box_def)

lemma node_at_update_box:
  "a < length h \<Longrightarrow> node_at (update_box a f h) b = (if b = a then rb_node (f (h ! a)) else node_at h b)"
  by (simp add: node_at_def update_box_def)

lemma nth_update_box: "a < length h \<Longrightarrow> update_box a f h ! b = (if b = a then f (h ! a) else h ! b)"
  by (simp add: update_box_def)

lemma node_at_weak_drop [simp]: "node_at (weak_drop w h) b = node_at h b"
  by (cases w; cases "the w < length h") (simp_all add: weak_drop_def update_box_def node_at_def nth_list_update list_update_beyond)

lemma nth_weak_drop:
  "(\<And>a. w = Some a \<Longrightarrow> a < length h) \<Longrightarrow>
   weak_drop w h ! b = (if w = Some b then (h ! b)\<lparr> rb_weak := rb_weak (h ! b) - 1 \<rparr> else h ! b)"
  by (cases w) (simp_all add: weak_drop_def nth_update_box)

lemma count_list_distinct: "distinct xs \<Longrightarrow> count_list xs x = (if x \<in> set xs then 1 else 0)"
  by (induction xs) auto

section \<open>Dropping references\<close>

lemma rc_inv_drop_one:
  assumes inv: "rc_inv h (a # hs)" and more: "rb_strong (h ! a) \<noteq> 1"
  shows "rc_inv (update_box a (\<lambda>b. b\<lparr> rb_strong := rb_strong b - 1 \<rparr>) h) hs"
proof -
  define g where "g = update_box a (\<lambda>b. b\<lparr> rb_strong := rb_strong b - 1 \<rparr>) h"
  obtain n where n: "node_at h a = Some n" using rc_invD(2) [OF inv] by auto
  then have a: "a < length h" by (rule node_at_less)
  have nodes: "node_at g b = node_at h b" for b
    using a by (simp add: g_def node_at_update_box) (simp add: node_at_def)
  have length: "length g = length h" by (simp add: g_def)
  from nodes have refs: "weak_refs g b = weak_refs h b" "parent_ref g m = parent_ref h m" for b m
    by (simp_all add: weak_refs_def parent_ref_def split: option.split)
  have boxes: "rb_strong (g ! b) = rb_strong (h ! b) - (if b = a then 1 else 0)" "rb_weak (g ! b) = rb_weak (h ! b)" for b
    using a by (simp_all add: g_def nth_update_box)
  have "node_ok g hs b m" if "node_at h b = Some m" for b m
    using rc_invD(1) [OF inv that] more by (auto simp: node_ok_def refs length boxes)
  then show ?thesis
    using inv unfolding g_def [symmetric] by (auto simp: rc_inv_def nodes refs length boxes)
qed

lemma rc_inv_drop_last:
  assumes inv: "rc_inv h (a # hs)" and n: "node_at h a = Some n" and last: "rb_strong (h ! a) = 1"
  shows "rc_inv (weak_drop (ln_parent n) (update_box a (\<lambda>b. b\<lparr> rb_strong := 0, rb_node := None \<rparr>) h)) (ln_children n @ hs)"
proof -
  define g where "g = weak_drop (ln_parent n) (update_box a (\<lambda>b. b\<lparr> rb_strong := 0, rb_node := None \<rparr>) h)"
  have a: "a < length h" using n by (rule node_at_less)
  have ok: "count_list hs a = 0" "parent_ref h n = 0" "distinct (ln_children n)" "set (ln_children n) = weak_refs h a"
    "\<And>p. ln_parent n = Some p \<Longrightarrow> p < length h"
    using rc_invD(1) [OF inv n] last by (auto simp: node_ok_def)
  have parent: "node_at h p = None" "p \<noteq> a" if "ln_parent n = Some p" for p
    using ok(2) that n by (auto simp: parent_ref_def split: if_splits)
  have nodes: "node_at g b = (if b = a then None else node_at h b)" for b
    using a by (simp add: g_def node_at_update_box)
  have length: "length g = length h" by (simp add: g_def)
  have boxes: "rb_strong (g ! b) = (if b = a then 0 else rb_strong (h ! b))"
    "rb_weak (g ! b) = rb_weak (h ! b) - (if ln_parent n = Some b then 1 else 0)" for b
    using a ok(5) by (simp_all add: g_def nth_weak_drop nth_update_box)
  have refs: "weak_refs g b = weak_refs h b - {a}" for b
    by (auto simp: weak_refs_def nodes)
  have mine: "a \<in> weak_refs h b \<longleftrightarrow> ln_parent n = Some b" for b using n by (simp add: weak_refs_def)
  have "node_ok g (ln_children n @ hs) b m" if m: "node_at h b = Some m" "b \<noteq> a" for b m
  proof -
    have old: "node_ok h (a # hs) b m" by (rule rc_invD(1) [OF inv m(1)])
    have "b \<in> set (ln_children n) \<longleftrightarrow> ln_parent m = Some a" using ok(4) m(1) by (simp add: weak_refs_def)
    then have "count_list (ln_children n) b + parent_ref g m = parent_ref h m"
      using n by (auto simp: count_list_distinct [OF ok(3)] parent_ref_def nodes split: option.split)
    moreover have "a \<notin> weak_refs h b" using parent(1) m(1) mine by auto
    ultimately show ?thesis using old m(2) by (auto simp: node_ok_def boxes refs length)
  qed
  moreover have "\<exists>m. node_at h b = Some m" "b \<noteq> a" if "b \<in> set (ln_children n @ hs)" for b
    using that ok(1,4) rc_invD(2) [OF inv] parent mine by (auto simp: weak_refs_def count_list_0_iff n)
  moreover have "rb_weak (g ! b) = card (weak_refs g b)" if "b < length h" for b
    using rc_invD(4) [OF inv that] by (simp add: boxes refs card_Diff_singleton_if mine)
  ultimately have "rc_inv g (ln_children n @ hs)"
    using rc_invD(3) [OF inv] by (auto simp: rc_inv_def nodes boxes length)
  then show ?thesis by (simp add: g_def)
qed

lemma rc_inv_drop: "rc_inv h (as @ hs) \<Longrightarrow> rc_inv (rc_drop h as) hs \<and> length (rc_drop h as) = length h"
proof (induction h as rule: rc_drop.induct)
  case (2 h a as)
  obtain n where n: "node_at h a = Some n" using rc_invD(2) [OF 2(4)] by auto
  show ?case
  proof (cases "rb_strong (h ! a) = 1")
    case True
    then show ?thesis using 2(2) [OF n True] rc_inv_drop_last [of h a "as @ hs" n] 2(4) n by simp
  next
    case False
    then show ?thesis using 2(3) [OF n False] rc_inv_drop_one [of h a "as @ hs"] 2(4) n by simp
  qed
qed simp

section \<open>The other operations\<close>

lemma rc_inv_clone:
  assumes inv: "rc_inv h hs" and n: "node_at h a = Some n"
  shows "rc_inv (rc_clone a h) (a # hs)"
proof -
  define g where "g = rc_clone a h"
  have a: "a < length h" using n by (rule node_at_less)
  have nodes: "node_at g b = node_at h b" for b
    using a by (simp add: g_def rc_clone_def node_at_update_box) (simp add: node_at_def)
  have length: "length g = length h" by (simp add: g_def rc_clone_def)
  from nodes have refs: "weak_refs g b = weak_refs h b" "parent_ref g m = parent_ref h m" for b m
    by (simp_all add: weak_refs_def parent_ref_def split: option.split)
  have boxes: "rb_strong (g ! b) = rb_strong (h ! b) + (if b = a then 1 else 0)" "rb_weak (g ! b) = rb_weak (h ! b)" for b
    using a by (simp_all add: g_def rc_clone_def nth_update_box)
  have "node_ok g (a # hs) b m" if "node_at h b = Some m" for b m
    using rc_invD(1) [OF inv that] by (auto simp: node_ok_def refs length boxes)
  then show ?thesis
    using inv n unfolding g_def [symmetric] by (auto simp: rc_inv_def nodes refs length boxes)
qed

lemma rc_inv_new:
  assumes inv: "rc_inv h hs"
  shows "rc_inv (h @ [\<lparr> rb_strong = 1, rb_weak = 0, rb_node = Some \<lparr> ln_parent = None, ln_children = [], ln_value = v \<rparr> \<rparr>])
    (length h # hs)"
proof -
  let ?n = "\<lparr> ln_parent = None, ln_children = [], ln_value = v \<rparr>"
  define g where "g = h @ [\<lparr> rb_strong = 1, rb_weak = 0, rb_node = Some ?n \<rparr>]"
  have nodes: "node_at g b = (if b = length h then Some ?n else node_at h b)" for b
    by (auto simp: g_def node_at_def nth_append)
  have length: "length g = Suc (length h)" by (simp add: g_def)
  have none: "node_at h (length h) = None" by (simp add: node_at_def)
  have ok: "node_ok h hs b m" if "node_at h b = Some m" for b m by (rule rc_invD(1) [OF inv that])
  have parents: "p < length h" if "node_at h b = Some m" "ln_parent m = Some p" for b m p
    using ok [OF that(1)] that(2) by (simp add: node_ok_def)
  have refs: "weak_refs g b = (if b = length h then {} else weak_refs h b)" for b
    using parents by (auto simp: weak_refs_def nodes none)
  have old: "parent_ref g m = parent_ref h m" if "node_at h b = Some m" for b m
    using parents [OF that] by (auto simp: parent_ref_def nodes split: option.split)
  have boxes: "g ! b = (if b = length h then \<lparr> rb_strong = 1, rb_weak = 0, rb_node = Some ?n \<rparr> else h ! b)"
    if "b < Suc (length h)" for b
    using that by (simp add: g_def nth_append)
  have fresh: "count_list hs (length h) = 0" using rc_invD(2) [OF inv, of "length h"] none by (auto simp: count_list_0_iff)
  have "node_ok g (length h # hs) b m" if "node_at g b = Some m" for b m
  proof (cases "b = length h")
    case True
    then show ?thesis using that fresh by (auto simp: node_ok_def nodes boxes refs parent_ref_def)
  next
    case False
    then have m: "node_at h b = Some m" using that by (simp add: nodes)
    then show ?thesis
      using ok [OF m] False node_at_less [OF m] by (auto simp: node_ok_def boxes refs old [OF m] length less_Suc_eq)
  qed
  moreover have "rb_weak (g ! b) = card (weak_refs g b)" "node_at g b = None \<longrightarrow> rb_strong (g ! b) = 0" if "b < length g" for b
    using that rc_invD(3,4) [OF inv, of b] by (auto simp: boxes refs nodes length)
  ultimately show ?thesis
    using rc_invD(2) [OF inv] unfolding g_def [symmetric] by (auto simp: rc_inv_def nodes)
qed

lemma rc_inv_get_parent:
  assumes inv: "rc_inv (tr_heap t) hs" and get: "get_parent a t = (r, t')"
  shows "rc_inv (tr_heap t') (case r of None \<Rightarrow> hs | Some p \<Rightarrow> p # hs)"
    and "r = None \<Longrightarrow> t' = t" and "r = None \<Longrightarrow> node_at (tr_heap t) a = Some n \<Longrightarrow> parent_ref (tr_heap t) n = 0"
    and "r = Some p \<Longrightarrow> \<exists>m. node_at (tr_heap t) p = Some m"
    and "r = Some p \<Longrightarrow> t' = t\<lparr> tr_heap := rc_clone p (tr_heap t) \<rparr>"
proof -
  have alive: "rb_strong (tr_heap t ! p) = 0 \<longleftrightarrow> node_at (tr_heap t) p = None"
    if "node_at (tr_heap t) a = Some n" "ln_parent n = Some p" for n p
  proof -
    have "p < length (tr_heap t)" using rc_invD(1) [OF inv that(1)] that(2) by (simp add: node_ok_def)
    then show ?thesis using rc_invD(1,3) [OF inv, of p] by (cases "node_at (tr_heap t) p") (auto simp: node_ok_def)
  qed
  show none: "r = None \<Longrightarrow> t' = t"
    using get by (auto simp: get_parent_def split: option.split_asm if_split_asm)
  show "r = None \<Longrightarrow> node_at (tr_heap t) a = Some n \<Longrightarrow> parent_ref (tr_heap t) n = 0"
    using get alive by (auto simp: get_parent_def parent_ref_def split: option.split_asm if_split_asm option.split)
  show live: "\<exists>m. node_at (tr_heap t) p = Some m" if r: "r = Some p" for p
  proof -
    obtain n where "node_at (tr_heap t) a = Some n" "ln_parent n = Some p" "rb_strong (tr_heap t ! p) \<noteq> 0"
      using get r by (auto simp: get_parent_def split: option.split_asm if_split_asm bind_splits)
    then show ?thesis using alive by auto
  qed
  show up: "t' = t\<lparr> tr_heap := rc_clone p (tr_heap t) \<rparr>" if "r = Some p" for p
    using that get by (auto simp: get_parent_def split: option.split_asm if_split_asm)
  show "rc_inv (tr_heap t') (case r of None \<Rightarrow> hs | Some p \<Rightarrow> p # hs)"
    using none live up inv rc_inv_clone [OF inv] by (cases r) auto
qed

definition adopt :: "nat \<Rightarrow> nat \<Rightarrow> nat \<Rightarrow> 'v list_node \<Rightarrow> 'v list_node" where
  "adopt a c b m = (let m = (if b = c then m\<lparr> ln_parent := Some a \<rparr> else m)
     in if b = a then m\<lparr> ln_children := ln_children m @ [c] \<rparr> else m)"

lemma adopt_fields:
  "ln_parent (adopt a c b m) = (if b = c then Some a else ln_parent m)"
  "ln_children (adopt a c b m) = (if b = a then ln_children m @ [c] else ln_children m)"
  by (simp_all add: adopt_def)

lemma rc_inv_adopt:
  assumes inv: "rc_inv h hs" and a: "node_at h a = Some na" and c: "node_at h c = Some nc" "parent_ref h nc = 0"
    and length: "length g = length h"
    and nodes: "\<And>b. node_at g b = map_option (adopt a c b) (node_at h b)"
    and boxes: "\<And>b. b < length h \<Longrightarrow> rb_strong (g ! b) = rb_strong (h ! b) + (if b = c then 1 else 0)"
      "\<And>b. b < length h \<Longrightarrow> rb_weak (g ! b) = rb_weak (h ! b) + (if b = a then 1 else 0) - (if ln_parent nc = Some b then 1 else 0)"
  shows "rc_inv g hs"
proof -
  have old: "node_at h p = None" if "ln_parent nc = Some p" for p
    using c(2) that by (simp add: parent_ref_def split: if_splits)
  then have mine: "c \<in> weak_refs h b \<longleftrightarrow> ln_parent nc = Some b" "ln_parent nc \<noteq> Some a" for b
    using c(1) a by (auto simp: weak_refs_def)
  have refs: "weak_refs g b = (if b = a then insert c (weak_refs h b) else weak_refs h b - {c})" for b
    using c(1) by (auto simp: weak_refs_def nodes adopt_fields split: if_splits)
  have ref: "parent_ref g (adopt a c b m) = (if b = c then 1 else parent_ref h m)" for b m
    using a by (auto simp: parent_ref_def nodes adopt_fields split: option.split)
  have "node_ok g hs b (adopt a c b m)" if m: "node_at h b = Some m" for b m
  proof -
    have "c \<notin> weak_refs h b" using old m by (auto simp: mine)
    moreover have "m = nc" if "b = c" using that m c(1) by simp
    ultimately show ?thesis
      using rc_invD(1) [OF inv m] node_at_less [OF m] node_at_less [OF a] c(2)
      by (auto simp: node_ok_def boxes length adopt_fields refs ref)
  qed
  moreover have "rb_weak (g ! b) = card (weak_refs g b)" if "b < length h" for b
    using rc_invD(4) [OF inv that] mine by (auto simp: boxes(2) [OF that] refs card_Diff_singleton_if)
  moreover have "rb_strong (g ! b) = 0" if "b < length h" "node_at h b = None" for b
    using rc_invD(3) [OF inv that] that c(1) by (auto simp: boxes)
  ultimately show ?thesis using rc_invD(2) [OF inv] by (auto simp: rc_inv_def nodes length)
qed

lemma tr_heap_println [simp]: "tr_heap (println x t) = tr_heap t"
  by (simp add: println_def)

lemma tr_heap_node_drop: "tr_heap (node_drop a t) = rc_drop (tr_heap t) [a]"
  by (simp add: node_drop_def del: rc_drop.simps)

lemma rc_inv_node_drop: "rc_inv (tr_heap t) (a # hs) \<Longrightarrow> rc_inv (tr_heap (node_drop a t)) hs"
  using rc_inv_drop [of "tr_heap t" "[a]" hs] by (simp add: tr_heap_node_drop del: rc_drop.simps)

lemma add_children_heap:
  assumes inv: "rc_inv (tr_heap t) hs" and n: "node_at (tr_heap t) a = Some na" "node_at (tr_heap t) c = Some nc"
    and get: "get_parent c t = (None, t')"
  shows "length (tr_heap (add_children a c t)) = length (tr_heap t)"
    "node_at (tr_heap (add_children a c t)) b = map_option (adopt a c b) (node_at (tr_heap t) b)"
    "rb_strong (tr_heap (add_children a c t) ! b) = rb_strong (tr_heap t ! b) + (if b = c then 1 else 0)"
    "rb_weak (tr_heap (add_children a c t) ! b) =
      rb_weak (tr_heap t ! b) + (if b = a then 1 else 0) - (if ln_parent nc = Some b then 1 else 0)"
proof -
  have less: "a < length (tr_heap t)" "c < length (tr_heap t)" using n node_at_less by blast+
  have parent: "\<And>p. ln_parent nc = Some p \<Longrightarrow> p < length (tr_heap t)"
    using rc_invD(1) [OF inv n(2)] by (simp add: node_ok_def)
  define h1 where "h1 = weak_drop (ln_parent nc) (rc_downgrade a (tr_heap t))"
  define g where "g = update_node a (\<lambda>n. n\<lparr> ln_children := ln_children n @ [c] \<rparr>)
    (rc_clone c (update_node c (\<lambda>n. n\<lparr> ln_parent := Some a \<rparr>) h1))"
  have n1: "node_at (rc_downgrade a (tr_heap t)) b = node_at (tr_heap t) b" for b
    using less by (simp add: rc_downgrade_def node_at_update_box) (simp add: node_at_def)
  have len1: "length h1 = length (tr_heap t)" by (simp add: h1_def rc_downgrade_def)
  have add: "tr_heap (add_children a c t) = g"
    using get n(2) rc_inv_get_parent(2) [OF inv get]
    by (simp add: add_children_def g_def h1_def n1 Let_def)
  have strong1: "rb_strong (h1 ! b) = rb_strong (tr_heap t ! b)" "rb_node (h1 ! b) = rb_node (tr_heap t ! b)" for b
    using less parent by (simp_all add: h1_def nth_weak_drop rc_downgrade_def nth_update_box)
  have weak1: "rb_weak (h1 ! b) = rb_weak (tr_heap t ! b) + (if b = a then 1 else 0) - (if ln_parent nc = Some b then 1 else 0)" for b
    using less parent by (simp add: h1_def nth_weak_drop rc_downgrade_def nth_update_box)
  have boxes: "rb_strong (g ! b) = rb_strong (h1 ! b) + (if b = c then 1 else 0)" "rb_weak (g ! b) = rb_weak (h1 ! b)" for b
    using less len1 by (simp_all add: g_def update_node_def rc_clone_def nth_update_box)
  have nodes: "node_at g b = map_option (adopt a c b) (node_at (tr_heap t) b)" for b
    using less len1
    by (cases "rb_node (tr_heap t ! b)")
      (auto simp: g_def update_node_def rc_clone_def node_at_update_box nth_update_box adopt_def node_at_def strong1)
  have len: "length g = length (tr_heap t)" by (simp add: g_def update_node_def rc_clone_def len1)
  show "length (tr_heap (add_children a c t)) = length (tr_heap t)"
    "node_at (tr_heap (add_children a c t)) b = map_option (adopt a c b) (node_at (tr_heap t) b)"
    "rb_strong (tr_heap (add_children a c t) ! b) = rb_strong (tr_heap t ! b) + (if b = c then 1 else 0)"
    "rb_weak (tr_heap (add_children a c t) ! b) =
      rb_weak (tr_heap t ! b) + (if b = a then 1 else 0) - (if ln_parent nc = Some b then 1 else 0)"
    by (simp_all add: add nodes len boxes strong1 weak1)
qed

lemma rc_inv_add:
  assumes inv: "rc_inv (tr_heap t) hs" and a: "a \<in> set hs" and c: "c \<in> set hs"
  shows "rc_inv (tr_heap (add_children a c t)) hs"
proof (cases "get_parent c t")
  case (Pair r t')
  show ?thesis
  proof (cases r)
    case (Some p)
    then show ?thesis
      using rc_inv_get_parent(1) [OF inv Pair] Pair by (simp add: add_children_def rc_inv_node_drop)
  next
    case None
    obtain na nc where n: "node_at (tr_heap t) a = Some na" "node_at (tr_heap t) c = Some nc"
      using rc_invD(2) [OF inv a] rc_invD(2) [OF inv c] by blast
    have "rc_inv (tr_heap (add_children a c t)) hs"
      using rc_inv_adopt [OF inv n rc_inv_get_parent(3) [OF inv Pair None n(2)]] add_children_heap [OF inv n, of t'] Pair None
      by simp
    then show ?thesis .
  qed
qed

lemma rc_inv_step:
  "tree_step s s' \<Longrightarrow> rc_inv (tr_heap (fst s)) (snd s) \<Longrightarrow> rc_inv (tr_heap (fst s')) (snd s')"
proof (induction rule: tree_step.induct)
  case (New v t a t' hs)
  then show ?case using rc_inv_new [of "tr_heap t" hs v] by (auto simp: node_new_def)
next
  case (Clone a hs t)
  then show ?case using rc_invD(2) rc_inv_clone by (fastforce simp: node_clone_def)
next
  case (Drop a hs t)
  have "rc_inv (tr_heap t) (a # remove1 a hs)"
  proof -
    have counts: "count_list (a # remove1 a hs) b = count_list hs b" for b
      using Drop.hyps by (induction hs) auto
    moreover have "set (a # remove1 a hs) = set hs" by (rule set_eqI) (metis counts count_list_0_iff)
    ultimately show ?thesis using Drop.prems by (simp only: rc_inv_def node_ok_def fst_conv snd_conv)
  qed
  then show ?case by (simp add: rc_inv_node_drop)
next
  case (Parent a hs t r t')
  then show ?case using rc_inv_get_parent(1) by fastforce
next
  case (Add a hs c t)
  then show ?case using rc_inv_add by simp
qed

lemma rc_inv_reach: "tree_step\<^sup>*\<^sup>* tree_start (t, hs) \<Longrightarrow> rc_inv (tr_heap t) hs"
proof (induction "(t, hs)" arbitrary: t hs rule: rtranclp_induct)
  case base
  then show ?case by (auto simp: tree_start_def rc_inv_def node_at_def)
next
  case (step s)
  then show ?case using rc_inv_step [OF step(2)] by (cases s) simp
qed

end
