(* ===== verification/Rust_Tree_Properties.thy ===== *)
theory Rust_Tree_Properties
  imports Rust_Tree_Counts
begin

text \<open>
  What \<open>main\<close> prints; what the counts of a node are, when nodes are dropped, when \<open>{:?}\<close> returns and
  what \<open>add_children\<close> does, after any operations.
\<close>

section \<open>The program\<close>

text \<open>The heaps of \<open>main\<close>, with the counts of the two boxes.\<close>

definition main_heap :: "nat \<Rightarrow> nat \<Rightarrow> string heap" where
  "main_heap p nl =
    [\<lparr> rb_strong = p, rb_weak = 0, rb_node = Some \<lparr> ln_parent = Some 1, ln_children = [], ln_value = ''child'' \<rparr> \<rparr>,
     \<lparr> rb_strong = nl, rb_weak = 1, rb_node = Some \<lparr> ln_parent = None, ln_children = [0], ln_value = ''nparent'' \<rparr> \<rparr>]"

definition child_text :: string where
  "child_text = ''RefCell { value: ListNode { parent: Some((Weak)), children: [], value: '' @ str_debug ''child'' @ '' } }''"

definition nparent_text :: string where
  "nparent_text = ''RefCell { value: ListNode { parent: None, children: ['' @ child_text @ ''], value: '' @
     str_debug ''nparent'' @ '' } }''"

lemma main_heap_debug:
  "node_debug (Suc (Suc k)) str_debug (main_heap p nl) 1 = Some nparent_text"
  by (simp add: main_heap_def node_at_def nparent_text_def child_text_def parent_debug_def)

lemma main_heap_parent:
  "0 < nl \<Longrightarrow> get_parent 0 \<lparr> tr_heap = main_heap p nl, tr_out = out \<rparr> =
    (Some 1, \<lparr> tr_heap = main_heap p (nl + 1), tr_out = out \<rparr>)"
  by (simp add: main_heap_def get_parent_def node_at_def rc_clone_def update_box_def)

lemma main_heap_drop:
  "1 < nl \<Longrightarrow> node_drop 1 \<lparr> tr_heap = main_heap p nl, tr_out = out \<rparr> =
    \<lparr> tr_heap = main_heap p (nl - 1), tr_out = put_text Stdout (drop_text (main_heap p nl) 1 @ newline) out \<rparr>"
  by (simp add: main_heap_def node_drop_def println_def node_at_def update_box_def)

definition main_box :: "string \<Rightarrow> string rc_box" where
  "main_box v = \<lparr> rb_strong = 1, rb_weak = 0, rb_node = Some \<lparr> ln_parent = None, ln_children = [], ln_value = v \<rparr> \<rparr>"

definition dropped_box :: "nat \<Rightarrow> string rc_box" where
  "dropped_box weak = \<lparr> rb_strong = 0, rb_weak = weak, rb_node = None \<rparr>"

text \<open>The heap when the reference \<open>nl\<close> is dropped before \<open>p\<close>.\<close>

definition orphan_heap :: "string heap" where
  "orphan_heap = [(main_box ''child'')\<lparr> rb_node := Some \<lparr> ln_parent = Some 1, ln_children = [], ln_value = ''child'' \<rparr> \<rparr>,
     dropped_box 1]"

lemma main_new:
  "node_new ''child'' \<lparr> tr_heap = [], tr_out = out \<rparr> = (0, \<lparr> tr_heap = [main_box ''child''], tr_out = out \<rparr>)"
  "node_new ''nparent'' \<lparr> tr_heap = [main_box ''child''], tr_out = out \<rparr> =
    (1, \<lparr> tr_heap = [main_box ''child'', main_box ''nparent''], tr_out = out \<rparr>)"
  by (simp_all add: node_new_def main_box_def)

lemma main_add:
  "add_children 1 0 \<lparr> tr_heap = [main_box ''child'', main_box ''nparent''], tr_out = out \<rparr> =
    \<lparr> tr_heap = main_heap 2 1, tr_out = out \<rparr>"
  by (simp add: add_children_def get_parent_def node_at_def rc_downgrade_def weak_drop_def update_box_def
    update_node_def rc_clone_def main_heap_def main_box_def Let_def numeral_2_eq_2)

lemma main_end:
  "node_drop 1 \<lparr> tr_heap = main_heap 2 1, tr_out = out \<rparr> =
    \<lparr> tr_heap = orphan_heap, tr_out = put_text Stdout (drop_text (main_heap 2 1) 1 @ newline) out \<rparr>"
  "node_drop 0 \<lparr> tr_heap = orphan_heap, tr_out = out \<rparr> =
    \<lparr> tr_heap = [dropped_box 0, dropped_box 0], tr_out = put_text Stdout (drop_text orphan_heap 0 @ newline) out \<rparr>"
  by (simp_all add: main_heap_def node_drop_def println_def node_at_def update_box_def weak_drop_def orphan_heap_def
    main_box_def dropped_box_def)

lemma main_drop_texts:
  "drop_text (main_heap 2 2) 1 = ''refcount=2, weakcount=1''" "drop_text (main_heap 2 1) 1 = ''refcount=1, weakcount=1''"
  "drop_text orphan_heap 0 = ''refcount=1, weakcount=0''"
  by code_simp+

text \<open>
  Main prints its seven lines, with two levels of debug printing, and drops both nodes.
\<close>

theorem tree_main_output:
  "map_option (\<lambda>t. map snd (tr_out t)) (tree_main (k + 2)) = Some
     [''lparent = None'' @ newline,
      ''lparent = Some(ListNodeRef('' @ nparent_text @ ''))'' @ newline,
      ''refcount=2, weakcount=1'' @ newline,
      ''gparent and nl : true true'' @ newline,
      ''refcount=2, weakcount=1'' @ newline,
      ''refcount=1, weakcount=1'' @ newline,
      ''refcount=1, weakcount=0'' @ newline] \<and>
   map_option (\<lambda>t. live_count (tr_heap t)) (tree_main (k + 2)) = Some 0"
proof -
  have k: "k + 2 = Suc (Suc k)" by simp
  have first: "show_parent (k + 2) 0 \<lparr> tr_heap = [main_box ''child''], tr_out = [] \<rparr> =
      Some \<lparr> tr_heap = [main_box ''child''], tr_out = [(Stdout, ''lparent = None'' @ newline)] \<rparr>"
    by (simp add: show_parent_def get_parent_def node_at_def option_debug_def drop_option_def println_def put_text_def
      main_box_def)
  have second: "show_parent (k + 2) 0 \<lparr> tr_heap = main_heap 2 1, tr_out = out \<rparr> =
      Some \<lparr> tr_heap = main_heap 2 1, tr_out = put_text Stdout (drop_text (main_heap 2 2) 1 @ newline)
        (put_text Stdout ((''lparent = '' @ ''Some(ListNodeRef('' @ nparent_text @ ''))'') @ newline) out) \<rparr>" for out
    unfolding k show_parent_def
    by (simp add: main_heap_parent option_debug_def main_heap_debug drop_option_def println_def main_heap_drop
      flip: One_nat_def del: node_debug.simps)
  have run: "tree_main (k + 2) = Some \<lparr> tr_heap = [dropped_box 0, dropped_box 0],
     tr_out = [(Stdout, ''lparent = None'' @ newline), (Stdout, ''lparent = Some(ListNodeRef('' @ nparent_text @ ''))'' @ newline),
       (Stdout, ''refcount=2, weakcount=1'' @ newline), (Stdout, ''gparent and nl : true true'' @ newline),
       (Stdout, ''refcount=2, weakcount=1'' @ newline), (Stdout, ''refcount=1, weakcount=1'' @ newline),
       (Stdout, ''refcount=1, weakcount=0'' @ newline)] \<rparr>"
    unfolding tree_main_def main_new(1)
    by (simp add: first [unfolded k] main_new(2) main_add second [unfolded k] main_heap_parent drop_option_def println_def
      main_heap_drop main_end main_drop_texts put_text_def equals_def bool_text_def flip: One_nat_def)
  show ?thesis unfolding run by (simp add: live_count_def dropped_box_def)
qed

section \<open>Counts\<close>

text \<open>
  C24: after any operations of any program, the counts a node would print are the number of
  references the program holds to it, plus one when its parent exists, and the number of its
  children; a node is in the list of children of exactly its parent, once, and no reference
  the program holds leads to a node that was dropped.
\<close>

theorem tree_counts:
  assumes "tree_step\<^sup>*\<^sup>* tree_start (t, hs)" "node_at (tr_heap t) a = Some n"
  shows "drop_text (tr_heap t) a =
      ''refcount='' @ decimal (count_list hs a + parent_ref (tr_heap t) n) @ '', weakcount='' @ decimal (length (ln_children n)) \<and>
    0 < count_list hs a + parent_ref (tr_heap t) n \<and> distinct (ln_children n) \<and>
    (\<forall>c. c \<in> set (ln_children n) \<longleftrightarrow> (\<exists>m. node_at (tr_heap t) c = Some m \<and> ln_parent m = Some a)) \<and>
    (\<forall>b\<in>set hs. node_at (tr_heap t) b \<noteq> None)"
proof -
  have inv: "rc_inv (tr_heap t) hs" by (rule rc_inv_reach [OF assms(1)])
  have ok: "node_ok (tr_heap t) hs a n" by (rule rc_invD(1) [OF inv assms(2)])
  then have "card (weak_refs (tr_heap t) a) = length (ln_children n)"
    by (metis distinct_card node_ok_def)
  then show ?thesis
    using ok rc_invD(2) [OF inv] rc_invD(4) [OF inv node_at_less [OF assms(2)]]
    by (auto simp: node_ok_def drop_text_def weak_refs_def)
qed

text \<open>From parents to children.\<close>

definition parent_edges :: "'v heap \<Rightarrow> (nat \<times> nat) set" where
  "parent_edges h = {(a, b). \<exists>m. node_at h b = Some m \<and> ln_parent m = Some a \<and> node_at h a \<noteq> None}"

lemma finite_parent_edges: "finite (parent_edges h)"
  by (rule finite_subset [of _ "{..<length h} \<times> {..<length h}"]) (auto simp: parent_edges_def dest: node_at_less)

text \<open>
  C25: once a program holds no reference any more, every node was dropped, unless some nodes
  are their own ancestors.
\<close>

theorem tree_freed:
  assumes "tree_step\<^sup>*\<^sup>* tree_start (t, [])" "acyclic (parent_edges (tr_heap t))"
  shows "node_at (tr_heap t) a = None"
proof -
  have inv: "rc_inv (tr_heap t) []" by (rule rc_inv_reach [OF assms(1)])
  have "wf (parent_edges (tr_heap t))" by (rule finite_acyclic_wf [OF finite_parent_edges assms(2)])
  then show ?thesis
  proof (induction a)
    case (less a)
    show ?case
    proof (rule ccontr)
      assume "node_at (tr_heap t) a \<noteq> None"
      then obtain n where n: "node_at (tr_heap t) a = Some n" by blast
      then have "0 < parent_ref (tr_heap t) n" using rc_invD(1) [OF inv n] by (simp add: node_ok_def)
      then obtain p where p: "ln_parent n = Some p" "node_at (tr_heap t) p \<noteq> None"
        by (auto simp: parent_ref_def split: option.split_asm if_split_asm)
      have "(p, a) \<in> parent_edges (tr_heap t)" using n p by (simp add: parent_edges_def)
      from less.IH [OF this] p(2) show False by contradiction
    qed
  qed
qed

section \<open>Debug printing\<close>

lemma those_eventually:
  fixes f :: "nat \<Rightarrow> 'a \<Rightarrow> 'b option"
  shows "\<forall>x\<in>set xs. \<exists>k s. \<forall>j\<ge>k. f j x = Some s \<Longrightarrow> \<exists>k ss. \<forall>j\<ge>k. those (map (f j) xs) = Some ss"
proof (induction xs)
  case (Cons x xs)
  then obtain k s k' ss where k: "\<forall>j\<ge>k. f j x = Some s" "\<forall>j\<ge>k'. those (map (f j) xs) = Some ss" by fastforce
  show ?case
  proof (intro exI allI impI)
    fix j assume "max k k' \<le> j"
    then have "f j x = Some s" "those (map (f j) xs) = Some ss" using k by simp_all
    then show "those (map (f j) (x # xs)) = Some (s # ss)" by simp
  qed
qed simp

text \<open>
  C39: after any operations, the debug printing of a node that exists returns, with one text
  for all fuel from some value on, unless some nodes are their own ancestors.
\<close>

theorem node_debug_returns:
  assumes "tree_step\<^sup>*\<^sup>* tree_start (t, hs)" "acyclic (parent_edges (tr_heap t))" "node_at (tr_heap t) a \<noteq> None"
  shows "\<exists>k s. \<forall>j\<ge>k. node_debug j sh (tr_heap t) a = Some s"
proof -
  have inv: "rc_inv (tr_heap t) hs" by (rule rc_inv_reach [OF assms(1)])
  have "wf ((parent_edges (tr_heap t))\<inverse>)" by (rule finite_acyclic_wf_converse [OF finite_parent_edges assms(2)])
  then show ?thesis using assms(3)
  proof (induction a)
    case (less a)
    then obtain n where n: "node_at (tr_heap t) a = Some n" by blast
    have "\<exists>k s. \<forall>j\<ge>k. node_debug j sh (tr_heap t) c = Some s" if "c \<in> set (ln_children n)" for c
      using that rc_invD(1) [OF inv n] n by (intro less.IH) (auto simp: node_ok_def weak_refs_def parent_edges_def)
    then obtain k cs where k: "\<forall>j\<ge>k. those (map (node_debug j sh (tr_heap t)) (ln_children n)) = Some cs"
      using those_eventually [of "ln_children n" "\<lambda>j. node_debug j sh (tr_heap t)"] by blast
    show ?case
    proof (intro exI allI impI)
      fix j assume "Suc k \<le> j"
      then obtain i where "j = Suc i" "k \<le> i" by (cases j) auto
      then show "node_debug j sh (tr_heap t) a = Some (''RefCell { value: ListNode { parent: '' @ parent_debug (ln_parent n) @
          '', children: ['' @ join '', '' cs @ ''], value: '' @ sh (ln_value n) @ '' } }'')"
        using k n by simp
    qed
  qed
qed

text \<open>
  add_children changes nothing when the parent of the child still exists, and prints that it
  is set and the counts of that parent, the reference to it included; otherwise it prints
  nothing, the child is the last of the node and the node is its parent.
\<close>

theorem tree_add_children:
  assumes "tree_step\<^sup>*\<^sup>* tree_start (t, hs)" "a \<in> set hs" "c \<in> set hs"
  shows "case get_parent c t of
      (Some p, _) \<Rightarrow> tr_heap (add_children a c t) = tr_heap t \<and>
        tr_out (add_children a c t) = tr_out t @ [(Stdout, ''parent already set'' @ newline),
          (Stdout, drop_text (rc_clone p (tr_heap t)) p @ newline)]
    | (None, _) \<Rightarrow> tr_out (add_children a c t) = tr_out t \<and>
        fst (get_parent c (add_children a c t)) = Some a \<and>
        map_option ln_children (node_at (tr_heap (add_children a c t)) a) =
          map_option (\<lambda>n. ln_children n @ [c]) (node_at (tr_heap t) a)"
proof -
  have inv: "rc_inv (tr_heap t) hs" by (rule rc_inv_reach [OF assms(1)])
  obtain r t' where get: "get_parent c t = (r, t')" by fastforce
  show ?thesis
  proof (cases r)
    case (Some p)
    then obtain m where m: "node_at (tr_heap t) p = Some m" and t': "t' = t\<lparr> tr_heap := rc_clone p (tr_heap t) \<rparr>"
      using rc_inv_get_parent(4,5) [OF inv get Some] by blast
    have p: "p < length (tr_heap t)" "rb_strong (tr_heap t ! p) \<noteq> 0" "rb_node (tr_heap t ! p) = Some m"
      using m rc_invD(1) [OF inv m] by (auto simp: node_ok_def node_at_def split: if_splits)
    have "rc_drop (rc_clone p (tr_heap t)) [p] = tr_heap t"
      using p by (simp add: rc_clone_def node_at_update_box nth_update_box) (simp add: update_box_def)
    then show ?thesis
      by (simp add: get Some add_children_def t' tr_heap_node_drop del: rc_drop.simps)
        (simp add: node_drop_def println_def put_text_def del: rc_drop.simps)
  next
    case None
    obtain na nc where n: "node_at (tr_heap t) a = Some na" "node_at (tr_heap t) c = Some nc"
      using rc_invD(2) [OF inv assms(2)] rc_invD(2) [OF inv assms(3)] by blast
    obtain g where g: "tr_heap (add_children a c t) = g" "\<And>b. node_at g b = map_option (adopt a c b) (node_at (tr_heap t) b)"
      using get None n add_children_heap [OF inv n] by blast
    have "node_ok g hs a (adopt a c a na)"
      using rc_invD(1) [OF rc_inv_add [OF inv assms(2,3)], of a] n(1) g by simp
    then have "0 < rb_strong (g ! a)" unfolding node_ok_def by blast
    moreover have "tr_out (add_children a c t) = tr_out t"
      using get None rc_inv_get_parent(2) [OF inv get None] by (simp add: add_children_def Let_def)
    moreover have "Option.bind (node_at g c) ln_parent = Some a" "map_option ln_children (node_at g a) = Some (ln_children na @ [c])"
      using g(2) n by (simp_all add: adopt_fields)
    ultimately show ?thesis
      using get None n(1) by (simp add: get_parent_def [of c "add_children a c t"] g(1))
  qed
qed

section \<open>The program as an example\<close>

lemma example_tree: "tree_step\<^sup>*\<^sup>* tree_start (\<lparr> tr_heap = main_heap 2 1, tr_out = [] \<rparr>, [1, 0])"
proof -
  have "tree_step tree_start (\<lparr> tr_heap = [main_box ''child''], tr_out = [] \<rparr>, [0])"
    unfolding tree_start_def by (rule New [OF main_new(1)])
  moreover have "tree_step (\<lparr> tr_heap = [main_box ''child''], tr_out = [] \<rparr>, [0])
      (\<lparr> tr_heap = [main_box ''child'', main_box ''nparent''], tr_out = [] \<rparr>, [1, 0])"
    by (rule New [OF main_new(2)])
  moreover have "tree_step (\<lparr> tr_heap = [main_box ''child'', main_box ''nparent''], tr_out = [] \<rparr>, [1, 0])
      (\<lparr> tr_heap = main_heap 2 1, tr_out = [] \<rparr>, [1, 0])"
    using Add [of 1 "[1, 0]" 0 "\<lparr> tr_heap = [main_box ''child'', main_box ''nparent''], tr_out = [] \<rparr>"]
    unfolding main_add by simp
  ultimately show ?thesis by (meson converse_rtranclp_into_rtranclp r_into_rtranclp)
qed

lemma example_dropped: "\<exists>out. tree_step\<^sup>*\<^sup>* tree_start (\<lparr> tr_heap = [dropped_box 0, dropped_box 0], tr_out = out \<rparr>, [])"
proof -
  have "tree_step (\<lparr> tr_heap = main_heap 2 1, tr_out = [] \<rparr>, [1, 0])
      (\<lparr> tr_heap = orphan_heap, tr_out = put_text Stdout (drop_text (main_heap 2 1) 1 @ newline) [] \<rparr>, [0])"
    using Drop [of 1 "[1, 0]" "\<lparr> tr_heap = main_heap 2 1, tr_out = [] \<rparr>"] unfolding main_end(1) by simp
  moreover have "tree_step (\<lparr> tr_heap = orphan_heap, tr_out = out \<rparr>, [0])
      (\<lparr> tr_heap = [dropped_box 0, dropped_box 0], tr_out = put_text Stdout (drop_text orphan_heap 0 @ newline) out \<rparr>, [])" for out
    using Drop [of 0 "[0]" "\<lparr> tr_heap = orphan_heap, tr_out = out \<rparr>"] unfolding main_end(2) by simp
  ultimately show ?thesis using example_tree by (meson rtranclp.rtrancl_into_rtrancl)
qed

lemma main_heap_nodes:
  "node_at (main_heap p nl) 0 = Some \<lparr> ln_parent = Some 1, ln_children = [], ln_value = ''child'' \<rparr>"
  "node_at (main_heap p nl) 1 = Some \<lparr> ln_parent = None, ln_children = [0], ln_value = ''nparent'' \<rparr>"
  by (simp_all add: main_heap_def node_at_def)

theorem tree_counts_witness:
  "drop_text (main_heap 2 1) 0 = ''refcount='' @ decimal (1 + parent_ref (main_heap 2 1)
      \<lparr> ln_parent = Some 1, ln_children = [], ln_value = ''child'' \<rparr>) @ '', weakcount='' @ decimal 0 \<and>
   parent_ref (main_heap 2 1) \<lparr> ln_parent = Some 1, ln_children = [], ln_value = ''child'' \<rparr> = 1"
  using tree_counts [OF example_tree, of 0] by (simp add: main_heap_nodes(1)) (simp add: parent_ref_def main_heap_nodes(2))

theorem tree_freed_witness:
  "\<exists>out. tree_step\<^sup>*\<^sup>* (tree_start :: string tree \<times> nat list) (\<lparr> tr_heap = [dropped_box 0, dropped_box 0], tr_out = out \<rparr>, []) \<and>
     node_at (tr_heap \<lparr> tr_heap = [dropped_box 0, dropped_box 0], tr_out = out \<rparr>) 0 = None"
proof -
  obtain out where out: "tree_step\<^sup>*\<^sup>* tree_start (\<lparr> tr_heap = [dropped_box 0, dropped_box 0], tr_out = out \<rparr>, [])"
    using example_dropped by blast
  have "parent_edges [dropped_box 0, dropped_box 0] = {}"
    by (auto simp: parent_edges_def node_at_def dropped_box_def nth_Cons split: nat.splits if_splits)
  then show ?thesis using tree_freed [OF out, of 0] out by (auto simp: acyclic_def)
qed

theorem node_debug_returns_witness:
  "\<exists>k s. \<forall>j\<ge>k. node_debug j str_debug (tr_heap \<lparr> tr_heap = main_heap 2 1, tr_out = [] \<rparr>) 1 = Some s"
proof -
  have "e \<in> {(1, 0)}" if e: "e \<in> parent_edges (main_heap 2 1)" for e
  proof -
    obtain a b where ab: "e = (a, b)" by fastforce
    with e obtain m where m: "node_at (main_heap 2 1) b = Some m" "ln_parent m = Some a" by (auto simp: parent_edges_def)
    then have "b = 0 \<or> b = 1" using node_at_less [OF m(1)] by (auto simp: main_heap_def)
    then show ?thesis using m ab by (auto simp: main_heap_nodes simp del: One_nat_def)
  qed
  then have "parent_edges (main_heap 2 1) \<subseteq> {(1, 0)}" by blast
  moreover have "acyclic {(1 :: nat, 0 :: nat)}" by (auto simp: acyclic_def dest!: tranclD elim: converse_rtranclE)
  ultimately have "acyclic (parent_edges (main_heap 2 1))" by (rule acyclic_subset [rotated])
  then show ?thesis using node_debug_returns [OF example_tree, of 1 str_debug] by (simp add: main_heap_nodes(2) flip: One_nat_def)
qed

theorem tree_add_children_witness:
  "tr_heap (add_children 1 0 \<lparr> tr_heap = main_heap 2 1, tr_out = [] \<rparr>) = main_heap 2 1 \<and>
   tr_out (add_children 1 0 \<lparr> tr_heap = main_heap 2 1, tr_out = [] \<rparr>) =
     [(Stdout, ''parent already set'' @ newline), (Stdout, ''refcount=2, weakcount=1'' @ newline)]"
proof -
  have "drop_text (rc_clone 1 (main_heap 2 1)) 1 = ''refcount=2, weakcount=1''" by code_simp
  then show ?thesis using tree_add_children [OF example_tree, of 1 0] by (simp add: main_heap_parent)
qed

section \<open>A node that is its own child\<close>

text \<open>
  Nothing keeps a node from becoming a child of itself, or of a descendant. It is then never dropped,
  and its debug printing has no end.
\<close>

theorem tree_self_child:
  "\<exists>t. tree_step\<^sup>*\<^sup>* (tree_start :: string tree \<times> nat list) (t, []) \<and> node_at (tr_heap t) 0 \<noteq> None \<and>
     (\<forall>k. node_debug k str_debug (tr_heap t) 0 = None)"
proof -
  define n :: "string list_node" where "n = \<lparr> ln_parent = Some 0, ln_children = [0], ln_value = ''child'' \<rparr>"
  define h where "h strong = [\<lparr> rb_strong = strong, rb_weak = 1, rb_node = Some n \<rparr>]" for strong :: nat
  define s where "s = node_new ''child'' \<lparr> tr_heap = [], tr_out = [] \<rparr>"
  have "tree_step tree_start (snd s, [0])"
    unfolding tree_start_def by (rule New [of "''child''"]) (simp add: s_def node_new_def)
  moreover have "add_children 0 0 (snd s) = \<lparr> tr_heap = h 2, tr_out = [] \<rparr>"
    by (simp add: s_def node_new_def add_children_def get_parent_def node_at_def rc_downgrade_def weak_drop_def
      update_box_def update_node_def rc_clone_def h_def n_def Let_def numeral_2_eq_2)
  then have "tree_step (snd s, [0]) (\<lparr> tr_heap = h 2, tr_out = [] \<rparr>, [0])"
    using Add [of 0 "[0]" 0 "snd s"] by simp
  moreover have "node_drop 0 \<lparr> tr_heap = h 2, tr_out = [] \<rparr> = \<lparr> tr_heap = h 1, tr_out = [(Stdout, drop_text (h 2) 0 @ newline)] \<rparr>"
    by (simp add: node_drop_def println_def put_text_def node_at_def update_box_def h_def)
  then have "tree_step (\<lparr> tr_heap = h 2, tr_out = [] \<rparr>, [0]) (\<lparr> tr_heap = h 1, tr_out = [(Stdout, drop_text (h 2) 0 @ newline)] \<rparr>, [])"
    using Drop [of 0 "[0]" "\<lparr> tr_heap = h 2, tr_out = [] \<rparr>"] by simp
  ultimately have "tree_step\<^sup>*\<^sup>* tree_start (\<lparr> tr_heap = h 1, tr_out = [(Stdout, drop_text (h 2) 0 @ newline)] \<rparr>, [])"
    by (meson converse_rtranclp_into_rtranclp r_into_rtranclp)
  moreover have "node_at (h 1) 0 = Some n" by (simp add: node_at_def h_def)
  moreover from this have "node_debug k str_debug (h 1) 0 = None" for k
    by (induction k) (simp_all add: n_def)
  ultimately show ?thesis by fastforce
qed

end
