(* ===== verification/Spec2Isabelle.thy ===== *)
theory Spec2Isabelle
  imports Heap_Pool_Program Tad_Properties Ioloop_Test Elf_Properties Dsl_Search Sym_Test Injector_Properties Got_Demo
    Sig_Looker Squash_Program Looker_Programs Modrefcnt Dso_Test Netplug Thread_Name Double_Buffer_Limits Rust_Tree_Properties
begin

text \<open>
  A verification library for the C and Rust programs of the repository. They are independent of each other,
  so the library is a family of models over shared foundations, one group of theories per program.

  \<^bold>\<open>Foundations.\<close> \<open>Prelude\<close> has the machine integers, the \<open>errno\<close> values, the lemma collections
  \<open>mem_simps\<close> and \<open>bind_simps\<close> and facts about words that do not wrap. \<open>C_Memory\<close> is the memory of
  a C process: a partial map from addresses to bytes on which a load or store of an unmapped byte
  is a fault, the value \<open>None\<close>; its width is a type variable, 64 bits for the heap pool, the 64-bit
  ELF reader and the packets, 32 bits for the i386 programs. \<open>Posix_Files\<close> has the answers of the
  kernel to the file system calls, the resources a process holds, and the interface \<open>open_close\<close> of
  a pair of functions that open and close something. \<open>Elf_Format\<close> has the field layouts of
  \<open>elf.h\<close> and the walk \<open>scan\<close> over a table of entries, which \<open>scan_find\<close> shows equal to \<open>find\<close>.
  \<open>Scanf\<close> has \<open>fgets\<close> and the directives of \<open>sscanf\<close> the programs use, with the round trips of
  hexadecimal numbers; \<open>Maps_Text\<close> the lines of a maps file of \<open>proc(5)\<close> as text, and the test
  program \<open>got_modifier/parse_map_line.c\<close>. \<open>Dbg_Print\<close> has the output of a program, a list of
  texts with their streams, and \<open>dbg_print/\<close>; \<open>Timing\<close> the durations the test programs print.
  Everywhere \<open>None\<close> is a fault (or, for a \<open>partial_function\<close>, not returning), an error value is a
  value, and \<open>exit\<close> is its status on the left of a sum.

  \<^bold>\<open>Heap pool\<close> (\<open>heap_pool/\<close>). \<open>Heap_Pool_Layout\<close> has the error pointers and the size arithmetic of
  \<open>heap_pool_create\<close> on words that wrap; \<open>Heap_Pool\<close> the descriptor in memory and every load and
  store of \<open>heap_pool_alloc\<close>, \<open>heap_pool_free\<close>, \<open>heap_pool_create\<close>, \<open>heap_pool_destroy\<close>, with the
  invariant \<open>pool\<close> that ties the index array to an abstract free list; \<open>Heap_Pool_Create\<close> that
  creation establishes it; \<open>Heap_Pool_Open\<close> the opening by name. \<open>Pool_Iface\<close> states the interface
  \<open>chunk_pool\<close> of an allocator of chunks, interpreted on the pool, and \<open>Heap_Pool_Client\<close> the
  clients of it as a step relation. \<open>Heap_Pool_Properties\<close> shows safety, progress and
  isolation for every client, that the operations refine those of a free list, and where the size
  computation loses an element or overruns the mapping. \<open>Heap_Pool_Program\<close> is \<open>main.c\<close>, with its
  comparison with \<open>malloc\<close>, and shows that it gives everything back. What the properties of a created
  pool need of the request is \<open>request_ok\<close>: there are chunks, the alignment is 0 or a power of two that does
  not exceed the page size, and no size wraps; without it \<open>heap_pool_overaligned\<close> has a chunk that
  leaves the mapping.

  \<^bold>\<open>Lists and trees\<close> (\<open>tad/\<close>). \<open>Linked_Walk\<close> has the traversals of linked objects and the interface
  \<open>comparison\<close>; \<open>S_List\<close> the macros of \<open>s_list.h\<close>, \<open>N_Tree\<close> those of \<open>n_tree.h\<close>, on a heap of
  nodes, each with a representation predicate; \<open>Ntree_Ex\<close> the example program with its output.
  \<open>Tad_Properties\<close> shows what insertion and removal do to the represented list or tree, order
  included, and that a removed node keeps its old sibling pointer.

  \<^bold>\<open>Event loop\<close> (\<open>ioloop/\<close>). \<open>Ioloop\<close> has the manager, the registrations in the heap, the interest
  list of the kernel and every function of \<open>ioloop.c\<close>; \<open>Ioloop_Regs\<close> the states reached by
  adding, deleting and dispatching, and their invariant. Callbacks and clean-ups are arguments; what
  the properties need of them are \<open>quiet_func\<close>, a callback that does not use the loop, and
  \<open>quiet_clean\<close>, a clean-up that does nothing to the loop but may close the descriptor of its event.
  \<open>Ioloop_Properties\<close> shows under these the invariant, that no operation faults, the refinement of a
  table of registrations, and without them the cases where the code goes wrong: a callback that
  deletes another ready event, a descriptor closed behind its back. \<open>Ioloop_Test\<close> is \<open>test.c\<close>: \<open>main\<close>
  and the thread it starts as a step relation over every order of their calls, with the clean-up that
  closes its pipe and with \<open>popen\<close>, which may fail; it faults exactly when \<open>popen\<close> has failed.

  \<^bold>\<open>ELF readers.\<close> \<open>Linux_Obj_Parser\<close> models \<open>got_modifier/linux_obj_parser.c\<close>, \<open>Sym_Resolver\<close>
  \<open>sym_resolv/sym_resolver.c\<close>, \<open>Dsl_Elf\<close> \<open>dslelf/dsl_elf.c\<close> and \<open>lib.c\<close>. Loops over tables are \<open>scan\<close> or a
  recursion on the number of entries the code computes, so they need no fuel; the loop with the
  8-bit index is a \<open>partial_function\<close>. \<open>Elf_Properties\<close> shows what the tables they build contain,
  that opening unwinds (by interpretations of \<open>open_close\<close>), that addresses and names round-trip,
  and the wrong bounds and the wrong scaling in the code. \<open>Dsl_Search\<close> shows that the loop over the
  text of the maps file searches the list of its lines, and that the whole program runs its own
  function in the place of the one the object calls; the symbols it can redirect are the global ones
  without a type. \<open>Sym_Test\<close> is \<open>sym_resolv/test.c\<close>, with its output.

  \<^bold>\<open>Injection\<close> (\<open>got_modifier/\<close>). \<open>Process_Injector\<close> has the traced process and the copies in
  words, \<open>Map_Parser\<close> the program that uses it together with the object parser.
  \<open>Injector_Properties\<close> shows that the text and the registers are put back, that start-up unwinds,
  and that with the bytes the program carries the copy overruns its arrays. \<open>Got_Demo\<close> has the
  injected function of \<open>libtest.c\<close> and the program \<open>target.c\<close>, of which it is a number of rounds.

  \<^bold>\<open>Packets\<close> (\<open>nfqueue_example/\<close>). \<open>Squash_Packet\<close> has the callback that rewrites a packet and what
  it prints, and shows what a rewritten packet contains; \<open>Squash_Program\<close> the endless loop, as a
  finite number of its rounds, and \<open>main\<close>, and shows that each packet is answered once.

  \<^bold>\<open>Allocation log\<close> (\<open>heap_looker/\<close>). \<open>Heap_Looker\<close> has the library, before an arbitrary allocator,
  and shows what its log contains and that it is transparent when the printing of a line leaves the
  allocator as it was (\<open>print_quiet\<close>); the printing is an argument, and a \<open>realloc\<close> to size 0, which frees
  its block, is logged like any other. \<open>Looker_Programs\<close> has the test programs and their log.

  \<^bold>\<open>Smaller programs.\<close> \<open>Sig_Looker\<close> (\<open>sig_looker/\<close>), which reads the symbols of the process with
  \<open>Sym_Resolver\<close>, \<open>Modrefcnt\<close> (\<open>modrefcnt/\<close>), \<open>Dso_Plugin\<close> and \<open>Dso_Test\<close> (\<open>dso/\<close>), \<open>Netplug\<close>
  (\<open>netplug/\<close>) and \<open>Thread_Name\<close> (\<open>thread_name/\<close>) hold both the model and the properties of one
  program: what the handler of a fault reports, what is registered on each path of a module's life
  and how its reference count follows the open files, when a plugin handle is closed twice, that
  the threads have their names in every order of their steps.

  \<^bold>\<open>Double buffering\<close> (\<open>double_buffering/\<close>, Rust). \<open>Double_Buffer\<close> has the worker, its reader
  threads and the channels between them as a step relation, a step being one message or one critical
  section, with the lines that every thread prints, those of failing reads and of panics included;
  \<open>Utf8_Lossy\<close> the text that \<open>String::from_utf8_lossy\<close> makes of a buffer. \<open>Double_Buffer_Runs\<close> has the
  program without threads that serves as the reference and the invariants of a run, the one of the
  lines for any files; \<open>Double_Buffer_Properties\<close> shows, when every reader has a file that opens
  (\<open>files_ok\<close>), that in every order of the steps the worker prints what the reference prints and the
  readers the messages of their failing reads, that no order blocks and every run ends, and what the
  blocks are; \<open>Double_Buffer_Limits\<close> when the worker blocks for ever and what is printed then, what a
  second call prints, and that dropping the worker ends its threads.

  \<^bold>\<open>Tree of counted references\<close> (\<open>small_rust_tree/\<close>, Rust). \<open>Rust_Tree\<close> has the heap of boxes with
  their strong and weak counts, every operation of \<open>graph.rs\<close> and \<open>main\<close>. Dropping references is a
  recursion that ends because each node is dropped once; the debug printing needs fuel, as it has no
  end on a cycle. \<open>Rust_Tree_Counts\<close> has the invariant of the counts, kept by every operation, and
  \<open>Rust_Tree_Properties\<close> what the counts are, that all nodes are dropped and printed unless there is a
  cycle, and the output of \<open>main\<close>.

  \<^bold>\<open>Parameters.\<close> System calls, libraries and callbacks are arguments of the definitions: the answers
  of the kernel, the allocator, the dynamic loader, libnet, what a traced process does while it
  runs, what a file contains and how much a read returns. What a theorem needs of them is a named hypothesis (\<open>libnet_ok\<close>, \<open>sr_ok\<close>,
  \<open>dls_ok\<close>, \<open>lookup_ok\<close>, which \<open>Sym_Resolver\<close> fulfils, \<open>quiet_func\<close>, \<open>quiet_clean\<close>, \<open>print_quiet\<close>), and its
  witness instantiates it.

  \<^bold>\<open>Loops without end.\<close> The receive loop, the counting loop and the sleeping threads never return:
  their models run for a given number of rounds, or are step relations, and the properties hold for
  every number of rounds or every reachable state.

  \<^bold>\<open>Not modelled.\<close> The names for compiler attributes in \<open>gnucext/\<close>, prototypes and constants nothing
  uses, code the preprocessor removes (\<open>f1\<close> and \<open>f2\<close> of \<open>heap_pool/main.c\<close> and other parts between
  \<open>#if 0\<close> and \<open>#endif\<close>, the heap pool with shared memory, debugging hooks or overflow checks, the
  allocation log without tracing), the generated \<open>mod_test.mod.c\<close> and the patches of
  \<open>exmap_patch/\<close>. The output of the event loop's test program, of the kernel modules and
  of the heap pool's debugging is left out, as are calls of the event loop by two threads at once.
\<close>

end
